(* ===== verification/Prelude.thy ===== *)
theory Prelude
  imports Main "HOL-Library.Word" "HOL-Library.AList"
begin

text \<open>
  Shared vocabulary of the development: the machine integers and byte strings of the Rust
  code, the \<open>Result\<close> type with its \<open>?\<close> operator, \<open>format!\<close> strings, little-endian
  integers, and the insert operation of \<open>HashMap\<close>, with the lemmas every component uses.

  A \<open>HashMap\<close> is an association list with distinct keys. Its order stands for the
  iteration order of the map, which Rust leaves unspecified: statements about maps quantify
  over the whole list, so they hold for every iteration order.
\<close>

unbundle bit_operations_syntax

section \<open>Types\<close>

type_synonym byte = "8 word"
type_synonym u16 = "16 word"
type_synonym u32 = "32 word"
type_synonym u64 = "64 word"
type_synonym bytes = "byte list"

named_theorems const_defs "the constants of src/constants.rs and their derived sizes"
named_theorems res_intro "introduction rules for successful results"

text \<open>The bytes of an ASCII string literal (\<open>b"..."\<close> or \<open>as_bytes\<close>).\<close>

definition ascii :: "string \<Rightarrow> bytes" where
  "ascii s = map of_char s"

lemma length_ascii [simp]: "length (ascii s) = length s"
  by (simp add: ascii_def)

section \<open>Results\<close>

text \<open>\<open>and_then r f\<close> is Rust's \<open>f(r?)\<close>: it stops at an error and goes on with the value.\<close>

definition and_then :: "'e + 'a \<Rightarrow> ('a \<Rightarrow> 'e + 'b) \<Rightarrow> 'e + 'b" where
  "and_then r f = (case r of Inl e \<Rightarrow> Inl e | Inr x \<Rightarrow> f x)"

definition map_err :: "('e \<Rightarrow> 'd) \<Rightarrow> 'e + 'a \<Rightarrow> 'd + 'a" where
  "map_err g r = (case r of Inl e \<Rightarrow> Inl (g e) | Inr x \<Rightarrow> Inr x)"

definition ok_or :: "'e \<Rightarrow> 'a option \<Rightarrow> 'e + 'a" where
  "ok_or e v = (case v of None \<Rightarrow> Inl e | Some x \<Rightarrow> Inr x)"

lemma and_then_simps [simp]:
  "and_then (Inl e) f = Inl e"
  "and_then (Inr x) f = f x"
  by (simp_all add: and_then_def)

lemma and_then_Inr_iff: "and_then r f = Inr y \<longleftrightarrow> (\<exists>x. r = Inr x \<and> f x = Inr y)"
  by (cases r) auto

lemma and_then_Inl_iff:
  "and_then r f = Inl e \<longleftrightarrow> r = Inl e \<or> (\<exists>x. r = Inr x \<and> f x = Inl e)"
  by (cases r) auto

lemma map_err_simps [simp]:
  "map_err g (Inl e) = Inl (g e)"
  "map_err g (Inr x) = Inr x"
  by (simp_all add: map_err_def)

lemma map_err_Inr_iff [simp]: "map_err g r = Inr x \<longleftrightarrow> r = Inr x"
  by (cases r) auto

lemma map_err_Inl_iff: "map_err g r = Inl d \<longleftrightarrow> (\<exists>e. r = Inl e \<and> d = g e)"
  by (cases r) auto

lemma ok_or_simps [simp]:
  "ok_or e None = Inl e"
  "ok_or e (Some x) = Inr x"
  by (simp_all add: ok_or_def)

lemma ok_or_Inr_iff [simp]: "ok_or e v = Inr x \<longleftrightarrow> v = Some x"
  by (cases v) auto

lemma ok_or_Inl_iff: "ok_or e v = Inl d \<longleftrightarrow> v = None \<and> d = e"
  by (cases v) auto

lemmas res_iff = and_then_Inr_iff and_then_Inl_iff map_err_Inl_iff ok_or_Inl_iff

section \<open>Formatted messages\<close>

fun dec_digits :: "nat \<Rightarrow> nat \<Rightarrow> string" where
  "dec_digits 0 n = []"
| "dec_digits (Suc fuel) n =
     (if n < 10 then [char_of (48 + n)] else dec_digits fuel (n div 10) @ [char_of (48 + n mod 10)])"

text \<open>
  Decimal rendering of an integer. The numbers that occur in messages are below \<open>2 ^ 64\<close>,
  so 20 digits are enough.
\<close>

definition dec :: "nat \<Rightarrow> string" where
  "dec n = dec_digits 20 n"

text \<open>\<open>fmt t xs\<close> is \<open>format!\<close> of the template \<open>t\<close>: each \<open>{}\<close> takes the next argument.\<close>

fun fmt :: "string \<Rightarrow> string list \<Rightarrow> string" where
  "fmt [] xs = []"
| "fmt [c] xs = [c]"
| "fmt (c # d # cs) xs =
     (if c = CHR ''{'' \<and> d = CHR ''}'' then
        (case xs of [] \<Rightarrow> fmt cs [] | x # xs' \<Rightarrow> x @ fmt cs xs')
      else c # fmt (d # cs) xs)"

section \<open>Byte strings cut into fields\<close>

lemma split_fields:
  "take a xs @ take b (drop a xs) @ take c (drop (a + b) xs) @ take d (drop (a + b + c) xs) @
     drop (a + b + c + d) xs = xs"
proof -
  have "take (a + b + c + d) xs @ drop (a + b + c + d) xs = xs" by (rule append_take_drop_id)
  then show ?thesis by (simp only: take_add append_assoc)
qed

section \<open>Little-endian integers\<close>

fun nat_to_le :: "nat \<Rightarrow> nat \<Rightarrow> bytes" where
  "nat_to_le 0 x = []"
| "nat_to_le (Suc n) x = of_nat (x mod 256) # nat_to_le n (x div 256)"

fun nat_from_le :: "bytes \<Rightarrow> nat" where
  "nat_from_le [] = 0"
| "nat_from_le (b # bs) = unat b + 256 * nat_from_le bs"

definition u16_to_le :: "u16 \<Rightarrow> bytes" where "u16_to_le w = nat_to_le 2 (unat w)"
definition u32_to_le :: "u32 \<Rightarrow> bytes" where "u32_to_le w = nat_to_le 4 (unat w)"
definition u64_to_le :: "u64 \<Rightarrow> bytes" where "u64_to_le w = nat_to_le 8 (unat w)"
definition u16_from_le :: "bytes \<Rightarrow> u16" where "u16_from_le bs = of_nat (nat_from_le bs)"
definition u32_from_le :: "bytes \<Rightarrow> u32" where "u32_from_le bs = of_nat (nat_from_le bs)"
definition u64_from_le :: "bytes \<Rightarrow> u64" where "u64_from_le bs = of_nat (nat_from_le bs)"

lemma length_nat_to_le [simp]: "length (nat_to_le n x) = n"
  by (induction n arbitrary: x) auto

lemma unat_bound: "unat (w :: 'a::len word) < 2 ^ LENGTH('a)"
  by (rule unsigned_less)

lemma unat_lt_256: "unat (b :: byte) < 256"
  using unat_bound [of b] by simp

lemma nat_from_to_le: "nat_from_le (nat_to_le n x) = x mod 256 ^ n"
proof (induction n arbitrary: x)
  case 0
  then show ?case by simp
next
  case (Suc n)
  have "unat (of_nat (x mod 256) :: byte) = x mod 256"
    by (simp add: unat_of_nat)
  then show ?case
    using Suc mod_mult2_eq [of x 256 "256 ^ n"] by (simp add: algebra_simps)
qed

lemma nat_to_from_le: "nat_to_le (length bs) (nat_from_le bs) = bs"
proof (induction bs)
  case Nil
  then show ?case by simp
next
  case (Cons b bs)
  have "(unat b + 256 * nat_from_le bs) mod 256 = unat b"
    and "(unat b + 256 * nat_from_le bs) div 256 = nat_from_le bs"
    using unat_lt_256 [of b] by simp_all
  then show ?case using Cons by simp
qed

lemma nat_from_le_bound: "nat_from_le bs < 256 ^ length bs"
proof (induction bs)
  case Nil
  then show ?case by simp
next
  case (Cons b bs)
  then have "256 * Suc (nat_from_le bs) \<le> 256 * 256 ^ length bs"
    by (intro mult_le_mono2) simp
  with unat_lt_256 [of b] show ?case by simp
qed

text \<open>
  The contract of a fixed-width integer encoding: \<open>to_le_bytes\<close> and \<open>from_le_bytes\<close> are
  inverse on exactly \<open>width\<close> bytes.
\<close>

locale le_codec =
  fixes width :: nat
    and enc :: "'a \<Rightarrow> bytes"
    and decode :: "bytes \<Rightarrow> 'a"
  assumes length_enc: "length (enc x) = width"
    and decode_enc: "decode (enc x) = x"
    and enc_decode: "length bs = width \<Longrightarrow> enc (decode bs) = bs"
begin

lemma enc_inject: "enc x = enc y \<longleftrightarrow> x = y"
  by (metis decode_enc)

lemma decode_take_enc: "decode (take width (enc x @ rest)) = x"
  by (simp add: length_enc decode_enc)

lemma drop_enc: "drop width (enc x @ rest) = rest"
  by (simp add: length_enc)

lemma enc_append_inject: "enc x @ r = enc y @ r' \<longleftrightarrow> x = y \<and> r = r'"
  by (auto simp: length_enc enc_inject append_eq_append_conv)

end

interpretation le16: le_codec 2 u16_to_le u16_from_le
proof unfold_locales
  fix x :: u16 and bs :: bytes
  show "length (u16_to_le x) = 2" by (simp add: u16_to_le_def)
  show "u16_from_le (u16_to_le x) = x"
    using unat_bound [of x] by (simp add: u16_to_le_def u16_from_le_def nat_from_to_le)
  assume "length bs = 2"
  then show "u16_to_le (u16_from_le bs) = bs"
    using nat_from_le_bound [of bs] nat_to_from_le [of bs]
    by (simp add: u16_to_le_def u16_from_le_def unat_of_nat)
qed

interpretation le32: le_codec 4 u32_to_le u32_from_le
proof unfold_locales
  fix x :: u32 and bs :: bytes
  show "length (u32_to_le x) = 4" by (simp add: u32_to_le_def)
  show "u32_from_le (u32_to_le x) = x"
    using unat_bound [of x] by (simp add: u32_to_le_def u32_from_le_def nat_from_to_le)
  assume "length bs = 4"
  then show "u32_to_le (u32_from_le bs) = bs"
    using nat_from_le_bound [of bs] nat_to_from_le [of bs]
    by (simp add: u32_to_le_def u32_from_le_def unat_of_nat)
qed

interpretation le64: le_codec 8 u64_to_le u64_from_le
proof unfold_locales
  fix x :: u64 and bs :: bytes
  show "length (u64_to_le x) = 8" by (simp add: u64_to_le_def)
  show "u64_from_le (u64_to_le x) = x"
    using unat_bound [of x] by (simp add: u64_to_le_def u64_from_le_def nat_from_to_le)
  assume "length bs = 8"
  then show "u64_to_le (u64_from_le bs) = bs"
    using nat_from_le_bound [of bs] nat_to_from_le [of bs]
    by (simp add: u64_to_le_def u64_from_le_def unat_of_nat)
qed

lemmas le_lengths [simp] = le16.length_enc le32.length_enc le64.length_enc
lemmas le_roundtrips [simp] = le16.decode_enc le32.decode_enc le64.decode_enc

text \<open>Checked \<open>u64\<close> arithmetic (\<open>checked_add\<close>).\<close>

definition u64_checked_add :: "u64 \<Rightarrow> u64 \<Rightarrow> u64 option" where
  "u64_checked_add a b = (if unat a + unat b < 2 ^ 64 then Some (a + b) else None)"

lemma u64_checked_add_unat:
  "u64_checked_add a b = Some c \<Longrightarrow> unat c = unat a + unat b"
  by (auto simp: u64_checked_add_def unat_word_ariths split: if_splits)

lemma u64_checked_add_1_less: "u64_checked_add a 1 = Some c \<Longrightarrow> a < c"
  by (drule u64_checked_add_unat) (simp add: word_less_nat_alt)

lemma u64_checked_add_1_eq:
  "u64_checked_add c 1 =
     (if unat c = 2 ^ 64 - 1 then None else Some (of_nat (Suc (unat c))))"
proof -
  have "of_nat (Suc (unat c)) = c + 1" by (simp add: add.commute)
  moreover have "unat c + unat (1 :: u64) < 2 ^ 64 \<longleftrightarrow> unat c \<noteq> 2 ^ 64 - 1"
    using unat_bound [of c] by auto
  ultimately show ?thesis unfolding u64_checked_add_def by (simp only: if_not_P if_P) simp
qed

section \<open>Hash maps\<close>

text \<open>\<open>HashMap::insert\<close>: the previous value, if any, and the new map.\<close>

definition hm_insert :: "'k \<Rightarrow> 'v \<Rightarrow> ('k \<times> 'v) list \<Rightarrow> 'v option \<times> ('k \<times> 'v) list" where
  "hm_insert k v m = (map_of m k, AList.update k v m)"

lemma alist_update_fresh: "map_of m k = None \<Longrightarrow> AList.update k v m = m @ [(k, v)]"
  by (induction m) (auto split: if_splits)

lemma length_alist_update:
  "length (AList.update k v m) = (if map_of m k = None then Suc (length m) else length m)"
  by (induction m) auto

lemma set_alist_update:
  "distinct (map fst m) \<Longrightarrow> set (AList.update k v m) = insert (k, v) {p \<in> set m. fst p \<noteq> k}"
  by (induction m) (auto simp: image_iff)

lemma map_of_rev_distinct: "distinct (map fst m) \<Longrightarrow> map_of (rev m) = map_of m"
proof (induction m)
  case (Cons f m)
  then have "map_of m (fst f) = None" by (simp add: map_of_eq_None_iff)
  with Cons show ?case by (auto simp: fun_eq_iff map_add_def split: option.splits)
qed simp

end
