(* ===== verification/VaultTypes.thy ===== *)
theory VaultTypes
  imports Prelude
begin

text \<open>
  The data that crosses the boundary to external libraries: the header that \<open>serde_json\<close>
  reads and writes (\<open>src/vault/vault_header.rs\<close>), the parameters handed to the \<open>argon2\<close>
  crate, and the JSON index of format version 1 as \<open>decode_index_v1\<close> deserializes it
  (\<open>src/vault/index_codec.rs\<close>). \<open>usize\<close> is 64 bits wide; the array \<open>[u8; 16]\<close> of the
  salt is a byte string whose length the functions that produce it guarantee.
\<close>

record vault_header =
  version :: u16
  kdf_salt :: bytes
  kdf_iterations :: u32
  kdf_memory_cost :: u32
  key_length :: u64

record argon2_params =
  m_cost :: u32
  t_cost :: u32
  p_cost :: u32
  output_len :: "nat option"

text \<open>
  \<open>Meta\<close> and \<open>Index\<close> of \<open>decode_index_v1\<close>, without the fields of type \<open>IgnoredAny\<close>,
  which carry no data.
\<close>

record v1_meta =
  is_dummy :: bool
  meta_encrypted_data :: "bytes option"
  meta_encrypted_name :: "bytes option"
  meta_data_counter :: u64

record v1_index =
  v1_version :: u16
  v1_nonce_counter :: u64
  v1_data_nonce_counter :: u64
  v1_files :: "(bytes \<times> v1_meta) list"

end
