(* ===== verification/Constants.thy ===== *)
theory Constants
  imports Prelude
begin

text \<open>
  The constants of \<open>src/constants.rs\<close>, under their source names. Lengths and sizes
  (\<open>usize\<close>, and \<open>u64\<close> compared with a length) are \<open>nat\<close>; the fields of the header and
  the version tags keep their machine width. \<open>POLY1305_OUTSIZE\<close> is the tag length of
  orion's Poly1305.
\<close>

definition VAULT_VERSION :: u16 where [const_defs]: "VAULT_VERSION = 2"
definition LEGACY_VAULT_VERSION_1 :: u16 where [const_defs]: "LEGACY_VAULT_VERSION_1 = 1"
definition SUPPORTED_VAULT_VERSIONS :: "u16 list" where
  [const_defs]: "SUPPORTED_VAULT_VERSIONS = [LEGACY_VAULT_VERSION_1, VAULT_VERSION]"

definition MEMORY_COST :: u32 where [const_defs]: "MEMORY_COST = 131072"
definition ITERATIONS :: u32 where [const_defs]: "ITERATIONS = 4"
definition KEY_LEN :: nat where [const_defs]: "KEY_LEN = 32"
definition SALT_LEN :: nat where [const_defs]: "SALT_LEN = 16"

definition VAULT_INDEX_VERSION :: u16 where [const_defs]: "VAULT_INDEX_VERSION = 2"
definition LEGACY_INDEX_VERSION_1 :: u16 where [const_defs]: "LEGACY_INDEX_VERSION_1 = 1"
definition MAX_INDEX_ENTRIES :: nat where [const_defs]: "MAX_INDEX_ENTRIES = 1024"

definition XCHACHA20_NONCE_LEN :: nat where [const_defs]: "XCHACHA20_NONCE_LEN = 24"
definition POLY1305_OUTSIZE :: nat where [const_defs]: "POLY1305_OUTSIZE = 16"

definition MIN_KDF_MEMORY :: u32 where [const_defs]: "MIN_KDF_MEMORY = 32768"
definition MAX_KDF_MEMORY :: u32 where [const_defs]: "MAX_KDF_MEMORY = 262144"
definition MIN_KDF_ITERATIONS :: u32 where [const_defs]: "MIN_KDF_ITERATIONS = 3"
definition MAX_KDF_ITERATIONS :: u32 where [const_defs]: "MAX_KDF_ITERATIONS = 10"

definition MAX_HEADER_JSON_LEN :: nat where [const_defs]: "MAX_HEADER_JSON_LEN = 4096"
definition MAX_VAULT_FILE_SIZE :: nat where
  [const_defs]: "MAX_VAULT_FILE_SIZE = 256 * 1024 * 1024"
definition MIN_PASSWORD_LEN :: nat where [const_defs]: "MIN_PASSWORD_LEN = 8"
definition MAX_ENTRY_NAME_LEN :: nat where [const_defs]: "MAX_ENTRY_NAME_LEN = 255"
definition MAX_ENTRY_DATA_SIZE :: nat where
  [const_defs]: "MAX_ENTRY_DATA_SIZE = 64 * 1024 * 1024"

definition ENCRYPTION_SUBKEY_INFO :: bytes where
  "ENCRYPTION_SUBKEY_INFO = ascii ''MEMSEAL_SUBKEY_ENC_v1''"
definition HMAC_SUBKEY_INFO :: bytes where
  "HMAC_SUBKEY_INFO = ascii ''MEMSEAL_SUBKEY_HMAC_v1''"
definition SUBKEY_LEN :: nat where [const_defs]: "SUBKEY_LEN = 32"

text \<open>
  The assertions the source makes at compile time (\<open>const _: () = { assert!(...) }\<close>): the
  defaults lie inside the accepted range, and the largest accepted Argon2 working set, in
  KiB, is the largest accepted file.
\<close>

lemma kdf_policy_pins:
  "MIN_KDF_MEMORY \<le> MEMORY_COST \<and> MEMORY_COST \<le> MAX_KDF_MEMORY"
  "MIN_KDF_ITERATIONS \<le> ITERATIONS \<and> ITERATIONS \<le> MAX_KDF_ITERATIONS"
  "unat MAX_KDF_MEMORY = MAX_VAULT_FILE_SIZE div 1024"
  "3 \<le> MIN_KDF_ITERATIONS \<and> MAX_KDF_ITERATIONS \<le> 10"
  by (simp_all add: const_defs)

end
