(* ===== verification/Errors.thy ===== *)
theory Errors
  imports Prelude
begin

text \<open>
  The error types of the crate and the conversions between them:
  \<open>RandomError\<close> (\<open>src/crypto/utils.rs\<close>), \<open>AadAeadError\<close> (\<open>src/crypto/aad_aead.rs\<close>),
  \<open>LockedSecretError\<close> (\<open>src/mem/locked_secret.rs\<close>), \<open>IndexError\<close>
  (\<open>src/vault/vault_index.rs\<close>) and \<open>VaultError\<close> (\<open>src/vault/vault_error.rs\<close>). The
  \<open>_display\<close> functions are the \<open>Display\<close> implementations given by the \<open>#[error(...)]\<close>
  attributes, the \<open>from_\<close> functions the \<open>From\<close> implementations that \<open>?\<close> applies. The
  errors of external libraries are their rendered strings.
\<close>

datatype random_error = RandomError string

datatype aad_aead_error =
    EncryptionFailed string
  | DecryptionFailed string
  | CiphertextTooShort

datatype locked_secret_error = Empty | Alloc | Lock

datatype index_error =
    Inconsistent string
  | Full nat
  | CounterOverflow string
  | Random random_error
  | LockedMemory locked_secret_error
  | Crypto string

type_synonym io_error = string

datatype vault_error =
    InvalidPassword
  | InvalidInput string
  | CryptoError string
  | CorruptedData string
  | SerializationError string
  | IoError io_error

fun random_error_display :: "random_error \<Rightarrow> string" where
  "random_error_display (RandomError m) = m"

fun aad_aead_error_display :: "aad_aead_error \<Rightarrow> string" where
  "aad_aead_error_display (EncryptionFailed m) = fmt ''Encryption failed: {}'' [m]"
| "aad_aead_error_display (DecryptionFailed m) = fmt ''Decryption failed: {}'' [m]"
| "aad_aead_error_display CiphertextTooShort = ''Ciphertext too short''"

fun locked_secret_error_display :: "locked_secret_error \<Rightarrow> string" where
  "locked_secret_error_display Empty = ''locked secret must not be empty''"
| "locked_secret_error_display Alloc = ''locked memory allocation failed''"
| "locked_secret_error_display Lock = ''memsec lock failed''"

fun index_error_display :: "index_error \<Rightarrow> string" where
  "index_error_display (Inconsistent m) = fmt ''Index inconsistent: {}'' [m]"
| "index_error_display (Full n) = fmt ''Maximum index entries ({}) reached'' [dec n]"
| "index_error_display (CounterOverflow m) = fmt ''Counter overflow: {}'' [m]"
| "index_error_display (Random e) =
     fmt ''Random generation failed: {}'' [random_error_display e]"
| "index_error_display (LockedMemory e) =
     fmt ''Locked memory error: {}'' [locked_secret_error_display e]"
| "index_error_display (Crypto m) = fmt ''Crypto error: {}'' [m]"

fun vault_error_display :: "vault_error \<Rightarrow> string" where
  "vault_error_display InvalidPassword =
     ''Vault authentication failed: wrong password or tampered data''"
| "vault_error_display (InvalidInput m) = fmt ''Invalid input: {}'' [m]"
| "vault_error_display (CryptoError m) = fmt ''Crypto error: {}'' [m]"
| "vault_error_display (CorruptedData m) = fmt ''Corrupted data: {}'' [m]"
| "vault_error_display (SerializationError m) = fmt ''Serialization error: {}'' [m]"
| "vault_error_display (IoError e) = fmt ''I/O error: {}'' [e]"

text \<open>The messages tell the errors apart.\<close>

lemma vault_error_display_inject: "vault_error_display e = vault_error_display e' \<longleftrightarrow> e = e'"
  by (cases e; cases e') simp_all

fun from_index_error :: "index_error \<Rightarrow> vault_error" where
  "from_index_error (Inconsistent m) = CorruptedData (index_error_display (Inconsistent m))"
| "from_index_error (Full n) = InvalidInput (index_error_display (Full n))"
| "from_index_error (CounterOverflow m) =
     CryptoError (index_error_display (CounterOverflow m))"
| "from_index_error (Random e) = CryptoError (index_error_display (Random e))"
| "from_index_error (LockedMemory e) = CryptoError (index_error_display (LockedMemory e))"
| "from_index_error (Crypto m) = CryptoError (index_error_display (Crypto m))"

definition from_aad_aead_error :: "aad_aead_error \<Rightarrow> vault_error" where
  "from_aad_aead_error e = CryptoError (aad_aead_error_display e)"

definition from_random_error :: "random_error \<Rightarrow> vault_error" where
  "from_random_error e = CryptoError (random_error_display e)"

text \<open>The predicates that tests write as \<open>matches!(r, Err(VaultError::X(_)))\<close>.\<close>

fun is_corrupted :: "vault_error \<Rightarrow> bool" where
  "is_corrupted (CorruptedData _) = True"
| "is_corrupted _ = False"

fun is_invalid_input :: "vault_error \<Rightarrow> bool" where
  "is_invalid_input (InvalidInput _) = True"
| "is_invalid_input _ = False"

fun is_crypto_error :: "vault_error \<Rightarrow> bool" where
  "is_crypto_error (CryptoError _) = True"
| "is_crypto_error _ = False"

fun is_serialization_error :: "vault_error \<Rightarrow> bool" where
  "is_serialization_error (SerializationError _) = True"
| "is_serialization_error _ = False"

declare fmt.simps [simp del]

end
