(* ===== verification/Externals.thy ===== *)
theory Externals
  imports VaultTypes Constants Errors
begin

text \<open>
  The code memseal calls but does not contain, as the fields of one record: the OS random
  number generator (\<open>rand_core::OsRng\<close>), \<open>memsec\<close>, \<open>orion\<close> (XChaCha20-Poly1305,
  HKDF-SHA256, HMAC-SHA256, Argon2i, \<open>secure_cmp\<close>), the \<open>argon2\<close> crate and \<open>serde_json\<close>.
  Every operation of the model takes the record as its first argument. The state of the
  outside world, of an arbitrary type \<open>'w\<close>, is threaded through the calls that depend on
  it; a function that fails returns the rendered error. The predicates below name the
  documented behaviour that theorems rely on; \<open>Sample\<close> shows that they can hold together.

  The second half models \<open>secure_bytes_fill\<close> (\<open>src/crypto/utils.rs\<close>) and
  \<open>seal_with_aad\<close> and \<open>open_with_aad\<close> (\<open>src/crypto/aad_aead.rs\<close>) over these fields.
\<close>

section \<open>External functions\<close>

type_synonym addr = nat
type_synonym memory = "addr \<rightharpoonup> bytes"

record 'w externals =
  os_rng_fill :: "nat \<Rightarrow> 'w \<Rightarrow> bytes option \<times> 'w"
  memsec_malloc_sized :: "nat \<Rightarrow> memory \<Rightarrow> 'w \<Rightarrow> (addr \<times> bytes) option \<times> 'w"
  memsec_mlock :: "addr \<Rightarrow> nat \<Rightarrow> 'w \<Rightarrow> bool \<times> 'w"
  memsec_free :: "addr \<Rightarrow> 'w \<Rightarrow> 'w"
  chacha_secret_key :: "bytes \<Rightarrow> string + bytes"
  xchacha_nonce :: "bytes \<Rightarrow> string + bytes"
  xchacha_seal :: "bytes \<Rightarrow> bytes \<Rightarrow> bytes \<Rightarrow> bytes \<Rightarrow> nat \<Rightarrow> string + bytes"
  xchacha_open :: "bytes \<Rightarrow> bytes \<Rightarrow> bytes \<Rightarrow> bytes \<Rightarrow> nat \<Rightarrow> string + bytes"
  hkdf_sha256 :: "bytes \<Rightarrow> bytes \<Rightarrow> bytes \<Rightarrow> nat \<Rightarrow> string + bytes"
  hmac_secret_key :: "bytes \<Rightarrow> string + bytes"
  hmac_sha256 :: "bytes \<Rightarrow> bytes \<Rightarrow> string + bytes"
  secure_cmp :: "bytes \<Rightarrow> bytes \<Rightarrow> bool"
  argon2i_derive :: "bytes \<Rightarrow> bytes \<Rightarrow> u32 \<Rightarrow> u32 \<Rightarrow> nat \<Rightarrow> string + bytes"
  argon2_params_new :: "u32 \<Rightarrow> u32 \<Rightarrow> u32 \<Rightarrow> nat option \<Rightarrow> string + argon2_params"
  argon2_block_count :: "argon2_params \<Rightarrow> nat"
  argon2id_hash :: "argon2_params \<Rightarrow> bytes \<Rightarrow> bytes \<Rightarrow> nat \<Rightarrow> nat \<Rightarrow> string + bytes"
  header_to_json :: "vault_header \<Rightarrow> string + bytes"
  header_from_json :: "bytes \<Rightarrow> string + vault_header"
  index_v1_from_json :: "bytes \<Rightarrow> string + v1_index"

text \<open>
  The state of the process: the outside world, the contents of the live \<open>memsec\<close>
  allocations, and which of them are locked. The field \<open>released\<close> is a ghost: it records,
  in order, what each allocation contained when it was handed to \<open>memsec::free\<close>.
\<close>

record 'w sys =
  ext :: 'w
  heap :: memory
  locked :: "addr set"
  released :: "bytes list"

section \<open>Documented behaviour\<close>

definition rng_laws :: "'w externals \<Rightarrow> bool" where
  "rng_laws X \<longleftrightarrow>
     (\<forall>n w b w'. os_rng_fill X n w = (Some b, w') \<longrightarrow> length b = n)"

text \<open>\<open>malloc_sized\<close> returns pages no other allocation shares.\<close>

definition memsec_laws :: "'w externals \<Rightarrow> bool" where
  "memsec_laws X \<longleftrightarrow>
     (\<forall>n h w p g w'. memsec_malloc_sized X n h w = (Some (p, g), w') \<longrightarrow>
        p \<notin> dom h \<and> length g = n)"

text \<open>
  Keys of 32 and nonces of 24 bytes are accepted; sealing appends a 16-byte tag; what was
  sealed opens under the same key, nonce and associated data.
\<close>

definition aead_laws :: "'w externals \<Rightarrow> bool" where
  "aead_laws X \<longleftrightarrow>
     (\<forall>k. length k = 32 \<longrightarrow> chacha_secret_key X k = Inr k) \<and>
     (\<forall>n. length n = XCHACHA20_NONCE_LEN \<longrightarrow> xchacha_nonce X n = Inr n) \<and>
     (\<forall>k n p a c. xchacha_seal X k n p a (length p + POLY1305_OUTSIZE) = Inr c \<longrightarrow>
        length c = length p + POLY1305_OUTSIZE \<and> xchacha_open X k n c a (length p) = Inr p)"

text \<open>
  The cipher is a stream cipher with a deterministic tag over ciphertext and associated
  data: a ciphertext that opens is the sealing of its plaintext.
\<close>

definition aead_tidy :: "'w externals \<Rightarrow> bool" where
  "aead_tidy X \<longleftrightarrow>
     (\<forall>k n c a p. POLY1305_OUTSIZE \<le> length c \<longrightarrow>
        xchacha_open X k n c a (length c - POLY1305_OUTSIZE) = Inr p \<longrightarrow>
        length c = length p + POLY1305_OUTSIZE \<and> xchacha_seal X k n p a (length c) = Inr c)"

definition hash_laws :: "'w externals \<Rightarrow> bool" where
  "hash_laws X \<longleftrightarrow>
     (\<forall>salt ikm info n okm. hkdf_sha256 X salt ikm info n = Inr okm \<longrightarrow> length okm = n) \<and>
     (\<forall>k m t. hmac_sha256 X k m = Inr t \<longrightarrow> length t = 32) \<and>
     (\<forall>a b. secure_cmp X a b \<longleftrightarrow> a = b)"

text \<open>
  \<open>serde_json\<close> writes a header whose salt has its 16 bytes in at most 4 KiB and reads it
  back; a header it reads has a 16-byte salt.
\<close>

definition json_laws :: "'w externals \<Rightarrow> bool" where
  "json_laws X \<longleftrightarrow>
     (\<forall>h. length (kdf_salt h) = SALT_LEN \<longrightarrow>
        (\<exists>b. header_to_json X h = Inr b \<and> length b \<le> MAX_HEADER_JSON_LEN \<and>
             header_from_json X b = Inr h)) \<and>
     (\<forall>b h. header_from_json X b = Inr h \<longrightarrow> length (kdf_salt h) = SALT_LEN) \<and>
     (\<forall>b d. index_v1_from_json X b = Inr d \<longrightarrow> distinct (map fst (v1_files d)))"

definition ext_laws :: "'w externals \<Rightarrow> bool" where
  "ext_laws X \<longleftrightarrow>
     rng_laws X \<and> memsec_laws X \<and> aead_laws X \<and> hash_laws X \<and> json_laws X"

lemma ext_lawsD:
  assumes "ext_laws X"
  shows "rng_laws X" "memsec_laws X" "aead_laws X" "hash_laws X" "json_laws X"
  using assms by (simp_all add: ext_laws_def)

section \<open>Random bytes\<close>

definition secure_bytes_fill ::
  "'w externals \<Rightarrow> nat \<Rightarrow> 'w sys \<Rightarrow> (random_error + bytes) \<times> 'w sys" where
  "secure_bytes_fill X len s =
     (if len = 0 then (Inl (RandomError ''Buffer is empty''), s)
      else case os_rng_fill X len (ext s) of
        (None, w) \<Rightarrow>
          (Inl (RandomError ''Failed to fill buffer with random bytes''), s\<lparr>ext := w\<rparr>)
      | (Some b, w) \<Rightarrow> (Inr b, s\<lparr>ext := w\<rparr>))"

lemma secure_bytes_fill_frame:
  assumes "secure_bytes_fill X n s = (r, s')"
  shows "heap s' = heap s" "locked s' = locked s" "released s' = released s"
  using assms by (auto simp: secure_bytes_fill_def split: if_splits prod.splits option.splits)

lemma secure_bytes_fill_length:
  assumes "rng_laws X" "secure_bytes_fill X n s = (Inr b, s')"
  shows "length b = n"
  using assms
  by (auto simp: secure_bytes_fill_def rng_laws_def split: if_splits prod.splits option.splits)

section \<open>Authenticated encryption\<close>

definition seal_with_aad ::
  "'w externals \<Rightarrow> bytes \<Rightarrow> bytes \<Rightarrow> bytes \<Rightarrow> bytes \<Rightarrow> aad_aead_error + bytes" where
  "seal_with_aad X key_bytes nonce_bytes plaintext aad =
     and_then (map_err EncryptionFailed (chacha_secret_key X key_bytes)) (\<lambda>key.
     and_then (map_err EncryptionFailed (xchacha_nonce X nonce_bytes)) (\<lambda>nonce.
       map_err EncryptionFailed
         (xchacha_seal X key nonce plaintext aad (length plaintext + POLY1305_OUTSIZE))))"

definition open_with_aad ::
  "'w externals \<Rightarrow> bytes \<Rightarrow> bytes \<Rightarrow> bytes \<Rightarrow> bytes \<Rightarrow> aad_aead_error + bytes" where
  "open_with_aad X key_bytes nonce_bytes ciphertext_with_tag aad =
     (if length ciphertext_with_tag < POLY1305_OUTSIZE then Inl CiphertextTooShort
      else
        and_then (map_err DecryptionFailed (chacha_secret_key X key_bytes)) (\<lambda>key.
        and_then (map_err DecryptionFailed (xchacha_nonce X nonce_bytes)) (\<lambda>nonce.
          map_err (\<lambda>e. DecryptionFailed (fmt
              ''Decryption/authentication failed (possible header tampering): {}'' [e]))
            (xchacha_open X key nonce ciphertext_with_tag aad
              (length ciphertext_with_tag - POLY1305_OUTSIZE)))))"

lemma open_with_aad_too_short:
  "length c < POLY1305_OUTSIZE \<Longrightarrow> open_with_aad X k n c a = Inl CiphertextTooShort"
  by (simp add: open_with_aad_def)

lemma seal_with_aad_length:
  assumes "aead_laws X" "length k = 32" "length n = XCHACHA20_NONCE_LEN"
    and "seal_with_aad X k n p a = Inr c"
  shows "length c = length p + POLY1305_OUTSIZE"
  using assms by (auto simp: seal_with_aad_def aead_laws_def)

lemma open_seal_with_aad:
  assumes "aead_laws X" "length k = 32" "length n = XCHACHA20_NONCE_LEN"
    and "seal_with_aad X k n p a = Inr c"
  shows "open_with_aad X k n c a = Inr p"
proof -
  from assms have c: "xchacha_seal X k n p a (length p + POLY1305_OUTSIZE) = Inr c"
    by (auto simp: seal_with_aad_def aead_laws_def)
  with assms(1) have "length c = length p + POLY1305_OUTSIZE"
    and "xchacha_open X k n c a (length p) = Inr p"
    by (auto simp: aead_laws_def)
  with assms(1-3) show ?thesis by (simp add: open_with_aad_def aead_laws_def)
qed

lemma seal_open_with_aad:
  assumes "aead_laws X" "aead_tidy X" "length k = 32" "length n = XCHACHA20_NONCE_LEN"
    and "open_with_aad X k n c a = Inr p"
  shows "seal_with_aad X k n p a = Inr c" "length c = length p + POLY1305_OUTSIZE"
proof -
  from assms(1,3-5) have "POLY1305_OUTSIZE \<le> length c"
    and "xchacha_open X k n c a (length c - POLY1305_OUTSIZE) = Inr p"
    by (auto simp: open_with_aad_def aead_laws_def split: if_splits)
  with assms(2) have *: "length c = length p + POLY1305_OUTSIZE"
      "xchacha_seal X k n p a (length c) = Inr c"
    by (auto simp: aead_tidy_def)
  then show "length c = length p + POLY1305_OUTSIZE" by simp
  from * assms(1,3,4) show "seal_with_aad X k n p a = Inr c"
    by (simp add: seal_with_aad_def aead_laws_def)
qed

end
