(* ===== verification/VaultHeader.thy ===== *)
theory VaultHeader
  imports Externals
begin

text \<open>
  The vault header (\<open>src/vault/vault_header.rs\<close>): construction with the current format
  version, generation with a fresh salt and the default Argon2 parameters, and the
  serialization that serves as associated data.
\<close>

definition vault_header_new :: "bytes \<Rightarrow> u32 \<Rightarrow> u32 \<Rightarrow> u64 \<Rightarrow> vault_header" where
  "vault_header_new salt iterations memory_cost key_len =
     \<lparr>version = VAULT_VERSION, kdf_salt = salt, kdf_iterations = iterations,
      kdf_memory_cost = memory_cost, key_length = key_len\<rparr>"

definition to_aad_bytes :: "'w externals \<Rightarrow> vault_header \<Rightarrow> vault_error + bytes" where
  "to_aad_bytes X h =
     map_err (\<lambda>e. CryptoError (fmt ''Failed to serialize header for AAD: {}'' [e]))
       (header_to_json X h)"

definition vault_header_generate ::
  "'w externals \<Rightarrow> 'w sys \<Rightarrow> (vault_error + vault_header) \<times> 'w sys" where
  "vault_header_generate X s =
     (case secure_bytes_fill X SALT_LEN s of
        (Inl e, s1) \<Rightarrow> (Inl (from_random_error e), s1)
      | (Inr salt, s1) \<Rightarrow>
          (Inr (vault_header_new salt ITERATIONS MEMORY_COST (of_nat KEY_LEN)), s1))"

text \<open>The form of the headers this library writes: current version, default parameters, 16-byte
  salt. Where the salt comes from is \<open>vault_header_generate_draws\<close>.\<close>

definition generated_header :: "vault_header \<Rightarrow> bool" where
  "generated_header h \<longleftrightarrow>
     (\<exists>salt. length salt = SALT_LEN \<and>
        h = vault_header_new salt ITERATIONS MEMORY_COST (of_nat KEY_LEN))"

lemma vault_header_generate_ok:
  assumes "rng_laws X" "vault_header_generate X s = (Inr h, s')"
  shows "generated_header h" "length (kdf_salt h) = SALT_LEN"
  using assms
  by (auto simp: vault_header_generate_def generated_header_def vault_header_new_def
      dest: secure_bytes_fill_length split: prod.splits sum.splits)

text \<open>The salt is what the generator of the operating system returns for one request of 16 bytes.\<close>

lemma vault_header_generate_draws:
  "vault_header_generate X s = (Inr h, s') \<Longrightarrow>
     os_rng_fill X SALT_LEN (ext s) = (Some (kdf_salt h), ext s')"
  by (auto simp: vault_header_generate_def secure_bytes_fill_def vault_header_new_def
      split: prod.splits sum.splits option.splits if_splits)

lemma vault_header_generate_frame:
  assumes "vault_header_generate X s = (r, s')"
  shows "heap s' = heap s" "locked s' = locked s" "released s' = released s"
  using assms
  by (auto simp: vault_header_generate_def dest: secure_bytes_fill_frame
      split: prod.splits sum.splits)

lemma vault_header_generate_err:
  "vault_header_generate X s = (Inl e, s') \<Longrightarrow> is_crypto_error e"
  by (auto simp: vault_header_generate_def from_random_error_def split: prod.splits sum.splits)

lemma to_aad_bytes_ok:
  assumes "json_laws X" "length (kdf_salt h) = SALT_LEN"
  obtains b where "to_aad_bytes X h = Inr b" "header_to_json X h = Inr b"
    "length b \<le> MAX_HEADER_JSON_LEN" "header_from_json X b = Inr h"
  using assms unfolding json_laws_def to_aad_bytes_def by fastforce

end
