(* ===== verification/LockedMemory.thy ===== *)
theory LockedMemory
  imports Externals
begin

text \<open>
  The locked container of the subkeys (\<open>src/mem/locked_secret.rs\<close>): \<open>LockedRegion\<close> is a
  pointer to a \<open>memsec\<close> allocation, \<open>LockedSecret\<close> owns one region. The contents live in
  the \<open>heap\<close> of the process state, so the model sees allocation, locking, wiping and
  release. The locale \<open>secret_container\<close> is the contract the vault index relies on; its
  interpretation shows that the code keeps it.
\<close>

section \<open>Allocation primitives\<close>

text \<open>The calls to \<open>memsec\<close>, with their effect on the process state.\<close>

definition sys_malloc :: "'w externals \<Rightarrow> nat \<Rightarrow> 'w sys \<Rightarrow> addr option \<times> 'w sys" where
  "sys_malloc X len s =
     (case memsec_malloc_sized X len (heap s) (ext s) of
        (None, w) \<Rightarrow> (None, s\<lparr>ext := w\<rparr>)
      | (Some (p, garbage), w) \<Rightarrow>
          (Some p, s\<lparr>ext := w, heap := (heap s)(p \<mapsto> garbage)\<rparr>))"

definition sys_mlock :: "'w externals \<Rightarrow> addr \<Rightarrow> nat \<Rightarrow> 'w sys \<Rightarrow> bool \<times> 'w sys" where
  "sys_mlock X p len s =
     (case memsec_mlock X p len (ext s) of
        (ok, w) \<Rightarrow>
          (ok, s\<lparr>ext := w, locked := (if ok then insert p (locked s) else locked s)\<rparr>))"

definition mem_read :: "'w sys \<Rightarrow> addr \<Rightarrow> bytes" where
  "mem_read s p = (case heap s p of None \<Rightarrow> [] | Some b \<Rightarrow> b)"

definition mem_write :: "addr \<Rightarrow> bytes \<Rightarrow> 'w sys \<Rightarrow> 'w sys" where
  "mem_write p b s = s\<lparr>heap := (heap s)(p \<mapsto> b)\<rparr>"

definition sys_free :: "'w externals \<Rightarrow> addr \<Rightarrow> 'w sys \<Rightarrow> 'w sys" where
  "sys_free X p s =
     s\<lparr>ext := memsec_free X p (ext s), heap := (heap s)(p := None),
       locked := locked s - {p}, released := released s @ [mem_read s p]\<rparr>"

section \<open>Locked regions and secrets\<close>

datatype locked_region = LockedRegion (ptr: addr)

definition locked_region_as_slice :: "'w sys \<Rightarrow> locked_region \<Rightarrow> bytes" where
  "locked_region_as_slice s r = mem_read s (ptr r)"

definition locked_region_new ::
  "'w externals \<Rightarrow> nat \<Rightarrow> 'w sys \<Rightarrow> (locked_secret_error + locked_region) \<times> 'w sys" where
  "locked_region_new X len s =
     (case sys_malloc X len s of
        (None, s1) \<Rightarrow> (Inl Alloc, s1)
      | (Some p, s1) \<Rightarrow>
          (case sys_mlock X p len s1 of
             (False, s2) \<Rightarrow> (Inl Lock, sys_free X p s2)
           | (True, s2) \<Rightarrow> (Inr (LockedRegion p), mem_write p (replicate len 0) s2)))"

definition locked_region_drop :: "'w externals \<Rightarrow> locked_region \<Rightarrow> 'w sys \<Rightarrow> 'w sys" where
  "locked_region_drop X r s =
     (let wiped = mem_write (ptr r) (replicate (length (mem_read s (ptr r))) 0) s
      in sys_free X (ptr r) wiped)"

datatype locked_secret = LockedSecret (region: locked_region)

definition locked_secret_new ::
  "'w externals \<Rightarrow> bytes \<Rightarrow> 'w sys \<Rightarrow> (locked_secret_error + locked_secret) \<times> 'w sys" where
  "locked_secret_new X secret s =
     (if secret = [] then (Inl Empty, s)
      else case locked_region_new X (length secret) s of
        (Inl e, s1) \<Rightarrow> (Inl e, s1)
      | (Inr r, s1) \<Rightarrow> (Inr (LockedSecret r), mem_write (ptr r) secret s1))"

definition with_bytes :: "'w sys \<Rightarrow> locked_secret \<Rightarrow> (bytes \<Rightarrow> 'r) \<Rightarrow> 'r" where
  "with_bytes s ls f = f (locked_region_as_slice s (region ls))"

definition locked_secret_drop :: "'w externals \<Rightarrow> locked_secret \<Rightarrow> 'w sys \<Rightarrow> 'w sys" where
  "locked_secret_drop X ls s = locked_region_drop X (region ls) s"

definition locked_secret_debug :: "'w sys \<Rightarrow> locked_secret \<Rightarrow> string" where
  "locked_secret_debug s ls =
     ''LockedSecret { bytes: '' @ [CHR 0x22] @ ''[REDACTED]'' @ [CHR 0x22] @ '' }''"

abbreviation secret_addr :: "locked_secret \<Rightarrow> addr" where
  "secret_addr ls \<equiv> ptr (region ls)"

text \<open>The bytes a live secret holds; \<open>None\<close> when its region has been released.\<close>

definition secret_bytes :: "'w sys \<Rightarrow> locked_secret \<Rightarrow> bytes option" where
  "secret_bytes s ls = heap s (secret_addr ls)"

lemma with_bytes_live [simp]: "secret_bytes s ls = Some b \<Longrightarrow> with_bytes s ls f = f b"
  by (simp add: with_bytes_def secret_bytes_def locked_region_as_slice_def mem_read_def)

section \<open>Behaviour\<close>

lemmas mem_defs = sys_malloc_def sys_mlock_def mem_read_def mem_write_def sys_free_def

lemma memsec_fresh:
  assumes "memsec_laws X" "memsec_malloc_sized X n h w = (Some (p, g), w')"
  shows "h p = None" "length g = n"
  using assms unfolding memsec_laws_def by blast+

text \<open>The three ways \<open>LockedRegion::new\<close> ends.\<close>

lemma locked_region_new_cases [consumes 2, case_names Alloc Lock Ok]:
  assumes "memsec_laws X" "locked_region_new X n s = (res, s')"
  obtains
    w where "res = Inl Alloc" "s' = s\<lparr>ext := w\<rparr>"
  | p g w where "heap s p = None" "res = Inl Lock"
      "s' = s\<lparr>ext := w, heap := (heap s)(p := None), locked := locked s - {p},
        released := released s @ [g]\<rparr>"
  | p w where "heap s p = None" "res = Inr (LockedRegion p)"
      "s' = s\<lparr>ext := w, locked := insert p (locked s), heap := (heap s)(p \<mapsto> replicate n 0)\<rparr>"
proof (cases "memsec_malloc_sized X n (heap s) (ext s)")
  case (Pair a w)
  show thesis
  proof (cases a)
    case None
    with Pair assms(2) that(1) show thesis
      by (auto simp: locked_region_new_def sys_malloc_def)
  next
    case (Some pg)
    obtain p g where pg: "pg = (p, g)" by (cases pg)
    obtain ok w' where lock: "memsec_mlock X p n w = (ok, w')"
      by (cases "memsec_mlock X p n w")
    have fresh: "heap s p = None"
      using memsec_fresh(1) [OF assms(1)] Pair Some pg by simp
    show thesis
    proof (cases ok)
      case True
      with assms(2) Pair Some pg lock show thesis
        by (intro that(3) [OF fresh]) (auto simp: locked_region_new_def mem_defs)
    next
      case False
      with assms(2) Pair Some pg lock show thesis
        by (intro that(2) [OF fresh]) (auto simp: locked_region_new_def mem_defs)
    qed
  qed
qed

lemma locked_region_new_ok:
  assumes "memsec_laws X" "locked_region_new X n s = (Inr r, s')"
  shows "ptr r \<notin> dom (heap s)" "heap s' = (heap s)(ptr r \<mapsto> replicate n 0)"
    "locked s' = insert (ptr r) (locked s)" "released s' = released s"
  using assms by (cases rule: locked_region_new_cases; auto)+

lemma locked_region_new_err:
  assumes "memsec_laws X" "locked_region_new X n s = (Inl e, s')" "locked s \<subseteq> dom (heap s)"
  shows "heap s' = heap s" "locked s' = locked s"
proof -
  show "heap s' = heap s"
    using assms(1,2) by (cases rule: locked_region_new_cases) (auto simp: fun_eq_iff)
  show "locked s' = locked s"
    using assms by (cases rule: locked_region_new_cases) auto
qed

lemma locked_secret_new_ok:
  assumes "memsec_laws X" "locked_secret_new X b s = (Inr ls, s')"
  shows "b \<noteq> []" "secret_addr ls \<notin> dom (heap s)" "heap s' = (heap s)(secret_addr ls \<mapsto> b)"
    "locked s' = insert (secret_addr ls) (locked s)" "released s' = released s"
  using assms
  by (auto simp: locked_secret_new_def mem_write_def dest: locked_region_new_ok
      split: if_splits prod.splits sum.splits)

lemma locked_secret_new_err:
  assumes "memsec_laws X" "locked_secret_new X b s = (Inl e, s')" "locked s \<subseteq> dom (heap s)"
  shows "heap s' = heap s" "locked s' = locked s"
  using assms
  by (auto simp: locked_secret_new_def dest: locked_region_new_err
      split: if_splits prod.splits sum.splits)

lemma locked_secret_drop_effect:
  shows "heap (locked_secret_drop X ls s) = (heap s)(secret_addr ls := None)"
    "locked (locked_secret_drop X ls s) = locked s - {secret_addr ls}"
    "secret_bytes s ls = Some b \<Longrightarrow>
       released (locked_secret_drop X ls s) = released s @ [replicate (length b) 0]"
  by (simp_all add: locked_secret_drop_def locked_region_drop_def mem_defs secret_bytes_def)

section \<open>The contract of a secret container\<close>

text \<open>
  What the owner of containers relies on, over an abstract state: creating a container
  either yields a fresh one that holds the given bytes or leaves every container as it was;
  releasing one affects no other.
\<close>

locale secret_container =
  fixes inv :: "'s \<Rightarrow> bool"
    and contents :: "'s \<Rightarrow> 'r \<Rightarrow> bytes option"
    and create_secret :: "bytes \<Rightarrow> 's \<Rightarrow> ('e + 'r) \<times> 's"
    and release :: "'r \<Rightarrow> 's \<Rightarrow> 's"
  assumes create_ok: "\<lbrakk>inv s; create_secret b s = (Inr r, s')\<rbrakk> \<Longrightarrow>
      inv s' \<and> contents s r = None \<and> contents s' = (contents s)(r \<mapsto> b)"
    and create_err: "\<lbrakk>inv s; create_secret b s = (Inl e, s')\<rbrakk> \<Longrightarrow>
      inv s' \<and> contents s' = contents s"
    and release_law: "inv s \<Longrightarrow>
      inv (release r s) \<and> contents (release r s) = (contents s)(r := None)"
begin

text \<open>Two containers created in sequence are distinct and both hold their bytes.\<close>

lemma create_two:
  assumes "inv s" "create_secret a s = (Inr r, s1)" "create_secret b s1 = (Inr q, s2)"
  shows "inv s2" "r \<noteq> q" "contents s r = None" "contents s q = None"
    "contents s2 = (contents s)(r \<mapsto> a, q \<mapsto> b)"
proof -
  from create_ok [OF assms(1,2)] have 1: "inv s1" "contents s r = None"
    "contents s1 = (contents s)(r \<mapsto> a)" by auto
  from create_ok [OF 1(1) assms(3)] have 2: "inv s2" "contents s1 q = None"
    "contents s2 = (contents s1)(q \<mapsto> b)" by auto
  from 1 2 show "inv s2" "r \<noteq> q" "contents s r = None" "contents s q = None"
    "contents s2 = (contents s)(r \<mapsto> a, q \<mapsto> b)"
    by (auto split: if_splits)
qed

text \<open>When the second creation fails, releasing the first restores every container.\<close>

lemma create_undo:
  assumes "inv s" "create_secret a s = (Inr r, s1)" "create_secret b s1 = (Inl e, s2)"
  shows "inv (release r s2)" "contents (release r s2) = contents s"
proof -
  from create_ok [OF assms(1,2)] have 1: "inv s1" "contents s r = None"
    "contents s1 = (contents s)(r \<mapsto> a)" by auto
  from create_err [OF 1(1) assms(3)] have 2: "inv s2" "contents s2 = contents s1" by auto
  from release_law [OF 2(1)] 1 2 show "inv (release r s2)"
    "contents (release r s2) = contents s"
    by (auto simp: fun_eq_iff)
qed

lemma release_two:
  assumes "inv s"
  shows "contents (release q (release r s)) = (contents s)(r := None, q := None)"
  using release_law [OF assms, of r] release_law [of "release r s" q] by auto

end

text \<open>
  The code's containers keep the contract. The state pairs the external functions with the
  process state; its invariant is the documented behaviour of \<open>memsec\<close> and that exactly the
  live regions are locked.
\<close>

definition mem_ok :: "'w sys \<Rightarrow> bool" where
  "mem_ok s \<longleftrightarrow> locked s = dom (heap s)"

definition container_inv :: "'w externals \<times> 'w sys \<Rightarrow> bool" where
  "container_inv xs \<longleftrightarrow> memsec_laws (fst xs) \<and> mem_ok (snd xs)"

definition container_contents :: "'w externals \<times> 'w sys \<Rightarrow> locked_secret \<Rightarrow> bytes option" where
  "container_contents xs = secret_bytes (snd xs)"

definition container_create ::
  "bytes \<Rightarrow> 'w externals \<times> 'w sys \<Rightarrow>
    (locked_secret_error + locked_secret) \<times> 'w externals \<times> 'w sys" where
  "container_create b xs =
     (case locked_secret_new (fst xs) b (snd xs) of (r, s') \<Rightarrow> (r, fst xs, s'))"

definition container_release ::
  "locked_secret \<Rightarrow> 'w externals \<times> 'w sys \<Rightarrow> 'w externals \<times> 'w sys" where
  "container_release r xs = (fst xs, locked_secret_drop (fst xs) r (snd xs))"

lemmas container_defs = container_inv_def container_contents_def container_create_def
  container_release_def

lemma secret_addr_inject: "secret_addr a = secret_addr b \<longleftrightarrow> a = b"
  by (metis locked_region.expand locked_secret.expand)

interpretation subkeys: secret_container container_inv container_contents
  "container_create :: bytes \<Rightarrow> 'w externals \<times> 'w sys \<Rightarrow> _" container_release
proof unfold_locales
  fix xs xs' :: "'w externals \<times> 'w sys" and b r e
  assume inv: "container_inv xs"
  note laws = inv [unfolded container_inv_def mem_ok_def]
  show "container_inv xs' \<and> container_contents xs r = None \<and>
      container_contents xs' = (container_contents xs)(r \<mapsto> b)"
    if "container_create b xs = (Inr r, xs')"
    using that laws locked_secret_new_ok [of "fst xs" b "snd xs" r "snd xs'"]
    by (auto simp: container_defs mem_ok_def secret_bytes_def fun_eq_iff secret_addr_inject
        split: prod.splits)
  show "container_inv xs' \<and> container_contents xs' = container_contents xs"
    if "container_create b xs = (Inl e, xs')"
    using that laws locked_secret_new_err [of "fst xs" b "snd xs" e "snd xs'"]
    by (auto simp: container_defs mem_ok_def secret_bytes_def fun_eq_iff split: prod.splits)
  show "container_inv (container_release r xs) \<and>
      container_contents (container_release r xs) = (container_contents xs)(r := None)"
    using laws
    by (auto simp: container_defs mem_ok_def secret_bytes_def fun_eq_iff secret_addr_inject
        locked_secret_drop_effect)
qed

end
