(* ===== verification/Hex.thy ===== *)
theory Hex
  imports Prelude Constants
begin

text \<open>
  The hexadecimal form of entry keys (\<open>key_to_hex\<close>, \<open>hex_to_key\<close> and \<open>hex_digit\<close> of
  \<open>src/vault/index_codec.rs\<close>). The lemmas show that the two conversions are inverse on
  exactly the 32-byte keys and the 64-digit lower-case strings.
\<close>

definition ENTRY_KEY_LEN :: nat where [const_defs]: "ENTRY_KEY_LEN = 32"

text \<open>One byte under the format \<open>{:02x}\<close>.\<close>

definition lower_hex_digit :: "nat \<Rightarrow> byte" where
  "lower_hex_digit n = (if n < 10 then of_nat (48 + n) else of_nat (87 + n))"

definition fmt_02x :: "byte \<Rightarrow> bytes" where
  "fmt_02x b = [lower_hex_digit (unat b div 16), lower_hex_digit (unat b mod 16)]"

fun key_to_hex :: "bytes \<Rightarrow> bytes" where
  "key_to_hex [] = []"
| "key_to_hex (b # key) = fmt_02x b @ key_to_hex key"

definition hex_digit :: "byte \<Rightarrow> byte option" where
  "hex_digit c =
     (if 48 \<le> c \<and> c \<le> 57 then Some (c - 48)
      else if 97 \<le> c \<and> c \<le> 102 then Some (c - 97 + 10)
      else None)"

fun hex_pairs :: "bytes \<Rightarrow> bytes option" where
  "hex_pairs [] = Some []"
| "hex_pairs [c] = None"
| "hex_pairs (c # d # cs) =
     (case hex_digit c of None \<Rightarrow> None | Some hi \<Rightarrow>
      (case hex_digit d of None \<Rightarrow> None | Some lo \<Rightarrow>
       (case hex_pairs cs of None \<Rightarrow> None | Some key \<Rightarrow> Some ((push_bit 4 hi OR lo) # key))))"

definition hex_to_key :: "bytes \<Rightarrow> bytes option" where
  "hex_to_key hex =
     (if length hex \<noteq> ENTRY_KEY_LEN * 2 then None else hex_pairs hex)"

section \<open>Digits\<close>

lemma hex_digit_lower_all:
  "list_all (\<lambda>n. hex_digit (lower_hex_digit n) = Some (of_nat n)) [0..<16]"
  by (simp add: upt_rec hex_digit_def lower_hex_digit_def)

lemma hex_digit_lower: "n < 16 \<Longrightarrow> hex_digit (lower_hex_digit n) = Some (of_nat n)"
  using hex_digit_lower_all by (simp add: list_all_iff)

lemma hex_digit_Some:
  assumes "hex_digit c = Some d"
  shows "unat d < 16" "lower_hex_digit (unat d) = c"
proof -
  have of_unat: "of_nat (unat c) = c" by simp
  from assms consider "48 \<le> c" "c \<le> 57" "d = c - 48" | "97 \<le> c" "c \<le> 102" "d = c - 97 + 10"
    by (auto simp: hex_digit_def split: if_splits)
  then have "unat d < 16 \<and> lower_hex_digit (unat d) = c"
  proof cases
    case 1
    then have "unat d = unat c - 48" "48 \<le> unat c" "unat c \<le> 57"
      by (simp_all add: word_le_nat_alt unat_sub)
    then have "48 + unat d = unat c" "unat d < 10" by auto
    then show ?thesis unfolding lower_hex_digit_def by (simp add: of_unat)
  next
    case 2
    then have c: "97 \<le> unat c" "unat c \<le> 102" by (simp_all add: word_le_nat_alt)
    have "d = c - 87" using 2(3) by simp
    with c have d: "unat d = unat c - 87" by (simp add: unat_sub word_le_nat_alt)
    with c have "87 + unat d = unat c" "\<not> unat d < 10" "unat d < 16" by auto
    then show ?thesis unfolding lower_hex_digit_def by (metis of_unat)
  qed
  then show "unat d < 16" "lower_hex_digit (unat d) = c" by simp_all
qed

lemma low_nibble_bit:
  assumes "unat (w :: byte) < 16" "bit w n"
  shows "n < 4"
proof (rule ccontr)
  assume "\<not> n < 4"
  then have "(2::nat) ^ 4 \<le> 2 ^ n" by (intro power_increasing) auto
  with assms(1) have "unat w div 2 ^ n = 0" by simp
  moreover have "bit (unat w) n" using assms(2) by (simp add: bit_unsigned_iff)
  ultimately show False by (simp add: bit_iff_odd)
qed

lemma nibbles_unat:
  fixes hi lo :: byte
  assumes "unat hi < 16" "unat lo < 16"
  shows "unat (push_bit 4 hi OR lo) = unat hi * 16 + unat lo"
proof -
  have or: "push_bit 4 hi OR lo = push_bit 4 hi + lo"
    by (intro disjunctive_add [symmetric])
      (auto simp: bit_simps dest: low_nibble_bit [OF assms(2)])
  have shift: "push_bit 4 hi = hi * 16" by (simp add: push_bit_eq_mult)
  show ?thesis unfolding or unfolding shift using assms by (simp add: unat_word_ariths)
qed

lemma nibbles_of_byte: "push_bit 4 (of_nat (unat b div 16)) OR of_nat (unat b mod 16) = (b :: byte)"
proof -
  have div: "unat b div 16 < 16" using unat_lt_256 [of b] by simp
  have "unat (push_bit 4 (of_nat (unat b div 16)) OR of_nat (unat b mod 16) :: byte) =
      unat (of_nat (unat b div 16) :: byte) * 16 + unat (of_nat (unat b mod 16) :: byte)"
    using div by (intro nibbles_unat) (simp_all add: unat_of_nat)
  also have "\<dots> = unat b" using div by (simp add: unat_of_nat)
  finally show ?thesis by (simp only: word_unat_eq_iff)
qed

lemma fmt_02x_nibbles:
  assumes "unat hi < 16" "unat lo < 16"
  shows "fmt_02x (push_bit 4 hi OR lo) = [lower_hex_digit (unat hi), lower_hex_digit (unat lo)]"
  using assms by (simp add: fmt_02x_def nibbles_unat)

section \<open>Round trips\<close>

lemma length_key_to_hex [simp]: "length (key_to_hex key) = 2 * length key"
  by (induction key) (simp_all add: fmt_02x_def)

lemma hex_pairs_key_to_hex: "hex_pairs (key_to_hex key) = Some key"
proof (induction key)
  case Nil
  then show ?case by simp
next
  case (Cons b key)
  have "unat b div 16 < 16" using unat_lt_256 [of b] by simp
  then show ?case
    using Cons by (simp add: fmt_02x_def hex_digit_lower nibbles_of_byte)
qed

lemma hex_pairs_Some:
  "hex_pairs hex = Some key \<Longrightarrow> hex = key_to_hex key"
  by (induction hex arbitrary: key rule: hex_pairs.induct)
    (auto simp: hex_digit_Some fmt_02x_nibbles split: option.splits)

lemma hex_to_key_Some_iff:
  "hex_to_key hex = Some key \<longleftrightarrow> length key = ENTRY_KEY_LEN \<and> hex = key_to_hex key"
  by (auto simp: hex_to_key_def hex_pairs_key_to_hex dest!: hex_pairs_Some)

lemma key_to_hex_inject: "key_to_hex a = key_to_hex b \<longleftrightarrow> a = b"
  by (metis hex_pairs_key_to_hex option.inject)

text \<open>The strings \<open>hex_to_key\<close> accepts, described without computing the key.\<close>

definition is_hex_key :: "bytes \<Rightarrow> bool" where
  "is_hex_key hex \<longleftrightarrow>
     length hex = 64 \<and> list_all (\<lambda>c. 48 \<le> c \<and> c \<le> 57 \<or> 97 \<le> c \<and> c \<le> 102) hex"

lemma hex_pairs_None_iff:
  "even (length hex) \<Longrightarrow> hex_pairs hex = None \<longleftrightarrow> (\<exists>c \<in> set hex. hex_digit c = None)"
  by (induction hex rule: hex_pairs.induct) (auto split: option.splits)

lemma hex_digit_None_iff:
  "hex_digit c = None \<longleftrightarrow> \<not> (48 \<le> c \<and> c \<le> 57 \<or> 97 \<le> c \<and> c \<le> 102)"
  by (simp add: hex_digit_def)

lemma hex_to_key_is_hex_key: "(\<exists>key. hex_to_key hex = Some key) \<longleftrightarrow> is_hex_key hex"
proof (cases "length hex = 64")
  case True
  then have "hex_pairs hex = None \<longleftrightarrow> (\<exists>c \<in> set hex. hex_digit c = None)"
    by (intro hex_pairs_None_iff) simp
  with True show ?thesis
    by (auto simp: hex_to_key_def is_hex_key_def list_all_iff hex_digit_None_iff
        const_defs not_None_eq [symmetric] simp del: not_None_eq)
next
  case False
  then show ?thesis by (simp add: hex_to_key_def is_hex_key_def const_defs)
qed

lemma is_hex_key_obtain:
  assumes "is_hex_key hex"
  obtains key where "length key = ENTRY_KEY_LEN" "hex = key_to_hex key"
  using assms hex_to_key_is_hex_key [of hex] hex_to_key_Some_iff by auto

lemma is_hex_key_key_to_hex: "length key = ENTRY_KEY_LEN \<Longrightarrow> is_hex_key (key_to_hex key)"
  using hex_to_key_Some_iff hex_to_key_is_hex_key by blast

end
