(* ===== verification/VaultIndex.thy ===== *)
theory VaultIndex
  imports LockedMemory Hex
begin

text \<open>
  The in-memory index (\<open>src/vault/vault_index.rs\<close>): the map from hexadecimal HMAC keys to
  ciphertext entries, the two counters, the index nonce and the containers of the two
  subkeys. The locale \<open>capped_index\<close> states the contract of the map operations; the facade
  relies on its facts.
\<close>

section \<open>State\<close>

record index_entry =
  data_counter :: u64
  encrypted_name :: bytes
  encrypted_data :: bytes

record vault_index =
  nonce :: bytes
  nonce_counter :: u64
  data_nonce_counter :: u64
  files :: "(bytes \<times> index_entry) list"
  enc_key :: locked_secret
  hmac_key :: locked_secret

section \<open>Operations\<close>

definition derive_subkeys ::
  "'w externals \<Rightarrow> bytes \<Rightarrow> bytes \<Rightarrow> index_error + bytes \<times> bytes" where
  "derive_subkeys X master_key salt =
     and_then (map_err (\<lambda>e. Crypto (fmt ''HKDF enc subkey failed: {}'' [e]))
       (hkdf_sha256 X salt master_key ENCRYPTION_SUBKEY_INFO SUBKEY_LEN)) (\<lambda>enc_out.
     and_then (map_err (\<lambda>e. Crypto (fmt ''HKDF hmac subkey failed: {}'' [e]))
       (hkdf_sha256 X salt master_key HMAC_SUBKEY_INFO SUBKEY_LEN)) (\<lambda>hmac_out.
     Inr (enc_out, hmac_out)))"

definition advance_nonce ::
  "'w externals \<Rightarrow> vault_index \<Rightarrow> 'w sys \<Rightarrow> (index_error + unit) \<times> vault_index \<times> 'w sys" where
  "advance_nonce X idx s =
     (case u64_checked_add (nonce_counter idx) 1 of
        None \<Rightarrow> (Inl (CounterOverflow ''nonce counter''), idx, s)
      | Some c \<Rightarrow>
          (let idx1 = idx\<lparr>nonce_counter := c\<rparr>
           in case secure_bytes_fill X XCHACHA20_NONCE_LEN s of
                (Inl e, s1) \<Rightarrow> (Inl (Random e), idx1, s1)
              | (Inr new_nonce, s1) \<Rightarrow> (Inr (), idx1\<lparr>nonce := new_nonce\<rparr>, s1)))"

definition next_data_nonce_counter :: "vault_index \<Rightarrow> (index_error + u64) \<times> vault_index" where
  "next_data_nonce_counter idx =
     (let counter = data_nonce_counter idx
      in case u64_checked_add (data_nonce_counter idx) 1 of
           None \<Rightarrow> (Inl (CounterOverflow ''data nonce counter''), idx)
         | Some c \<Rightarrow> (Inr counter, idx\<lparr>data_nonce_counter := c\<rparr>))"

definition hmac_key_for_name ::
  "'w externals \<Rightarrow> 'w sys \<Rightarrow> vault_index \<Rightarrow> bytes \<Rightarrow> index_error + bytes" where
  "hmac_key_for_name X s idx plaintext_name =
     and_then (with_bytes s (hmac_key idx) (\<lambda>key_bytes.
       and_then (map_err (\<lambda>_. Crypto ''HMAC key invalid'') (hmac_secret_key X key_bytes)) (\<lambda>key.
         map_err (\<lambda>_. Crypto ''HMAC failed'') (hmac_sha256 X key plaintext_name)))) (\<lambda>tag.
     Inr (key_to_hex tag))"

definition insert_by_key ::
  "vault_index \<Rightarrow> bytes \<Rightarrow> index_entry \<Rightarrow> (index_error + unit) \<times> vault_index" where
  "insert_by_key idx hashed_key entry =
     (if map_of (files idx) hashed_key \<noteq> None
      then (Inr (), idx\<lparr>files := AList.update hashed_key entry (files idx)\<rparr>)
      else if MAX_INDEX_ENTRIES \<le> length (files idx) then (Inl (Full MAX_INDEX_ENTRIES), idx)
      else (Inr (), idx\<lparr>files := snd (hm_insert hashed_key entry (files idx))\<rparr>))"

definition lookup_by_key :: "vault_index \<Rightarrow> bytes \<Rightarrow> index_entry option" where
  "lookup_by_key idx hashed_key = map_of (files idx) hashed_key"

definition remove_by_key :: "vault_index \<Rightarrow> bytes \<Rightarrow> index_entry option \<times> vault_index" where
  "remove_by_key idx hashed_key =
     (case map_of (files idx) hashed_key of
        None \<Rightarrow> (None, idx)
      | Some entry \<Rightarrow> (Some entry, idx\<lparr>files := AList.delete hashed_key (files idx)\<rparr>))"

text \<open>
  The two fields \<open>enc_key: LockedSecret::new(..)?\<close> and \<open>hmac_key: LockedSecret::new(..)?\<close> of
  the struct expressions: when the second fails, the first is dropped.
\<close>

definition lock_subkeys ::
  "'w externals \<Rightarrow> bytes \<Rightarrow> bytes \<Rightarrow> 'w sys \<Rightarrow>
    (index_error + locked_secret \<times> locked_secret) \<times> 'w sys" where
  "lock_subkeys X enc_sub hmac_sub s =
     (case locked_secret_new X enc_sub s of
        (Inl e, s1) \<Rightarrow> (Inl (LockedMemory e), s1)
      | (Inr ek, s1) \<Rightarrow>
          (case locked_secret_new X hmac_sub s1 of
             (Inl e, s2) \<Rightarrow> (Inl (LockedMemory e), locked_secret_drop X ek s2)
           | (Inr hk, s2) \<Rightarrow> (Inr (ek, hk), s2)))"

definition from_master_key ::
  "'w externals \<Rightarrow> bytes \<Rightarrow> bytes \<Rightarrow> 'w sys \<Rightarrow> (index_error + vault_index) \<times> 'w sys" where
  "from_master_key X master_key salt s =
     (case derive_subkeys X master_key salt of
        Inl e \<Rightarrow> (Inl e, s)
      | Inr (enc_sub, hmac_sub) \<Rightarrow>
          (case secure_bytes_fill X XCHACHA20_NONCE_LEN s of
             (Inl e, s1) \<Rightarrow> (Inl (Random e), s1)
           | (Inr n, s1) \<Rightarrow>
               (case lock_subkeys X enc_sub hmac_sub s1 of
                  (Inl e, s2) \<Rightarrow> (Inl e, s2)
                | (Inr (ek, hk), s2) \<Rightarrow>
                    (Inr \<lparr>nonce = n, nonce_counter = 0, data_nonce_counter = 0, files = [],
                          enc_key = ek, hmac_key = hk\<rparr>, s2))))"

text \<open>\<open>files.values().map(|m| m.data_counter).max()\<close>\<close>

definition max_data_counter :: "(bytes \<times> index_entry) list \<Rightarrow> u64 option" where
  "max_data_counter fs =
     (case map (\<lambda>p. data_counter (snd p)) fs of [] \<Rightarrow> None | c # cs \<Rightarrow> Some (fold max cs c))"

definition from_subkeys_and_data ::
  "'w externals \<Rightarrow> bytes \<Rightarrow> bytes \<Rightarrow> bytes \<Rightarrow> u64 \<Rightarrow> u64 \<Rightarrow> (bytes \<times> index_entry) list \<Rightarrow>
    'w sys \<Rightarrow> (index_error + vault_index) \<times> 'w sys" where
  "from_subkeys_and_data X enc_sub hmac_sub n ncounter dcounter fs s =
     (let build =
        (case lock_subkeys X enc_sub hmac_sub s of
           (Inl e, s1) \<Rightarrow> (Inl e, s1)
         | (Inr (ek, hk), s1) \<Rightarrow>
             (Inr \<lparr>nonce = n, nonce_counter = ncounter, data_nonce_counter = dcounter,
                   files = fs, enc_key = ek, hmac_key = hk\<rparr>, s1))
      in case max_data_counter fs of
           Some max_counter \<Rightarrow>
             if dcounter \<le> max_counter
             then (Inl (Inconsistent (fmt
                ''data_nonce_counter ({}) must exceed the largest stored data_counter ({})''
                [dec (unat dcounter), dec (unat max_counter)])), s)
             else build
         | None \<Rightarrow> build)"

text \<open>\<open>Zeroize\<close> on an entry, and what \<open>Drop\<close> leaves of an index and of its regions.\<close>

definition entry_zeroize :: "index_entry \<Rightarrow> index_entry" where
  "entry_zeroize e = \<lparr>data_counter = 0, encrypted_name = [], encrypted_data = []\<rparr>"

definition vault_index_wipe :: "vault_index \<Rightarrow> vault_index" where
  "vault_index_wipe idx = idx\<lparr>files := [], nonce := replicate (length (nonce idx)) 0\<rparr>"

definition vault_index_drop :: "'w externals \<Rightarrow> vault_index \<Rightarrow> 'w sys \<Rightarrow> 'w sys" where
  "vault_index_drop X idx s =
     (let wiped = vault_index_wipe idx
      in locked_secret_drop X (hmac_key wiped) (locked_secret_drop X (enc_key wiped) s))"

section \<open>The subkey containers\<close>

lemma container_create_eq:
  "locked_secret_new X b s = (r, s') \<Longrightarrow> container_create b (X, s) = (r, X, s')"
  by (simp add: container_create_def)

lemma container_inv_iff [simp]: "container_inv (X, s) \<longleftrightarrow> memsec_laws X \<and> mem_ok s"
  by (simp add: container_inv_def)

lemma container_contents_eq [simp]: "container_contents (X, s) = secret_bytes s"
  by (simp add: container_contents_def)

lemma container_release_eq [simp]: "container_release r (X, s) = (X, locked_secret_drop X r s)"
  by (simp add: container_release_def)

lemma lock_subkeys_ok:
  assumes "memsec_laws X" "mem_ok s" "lock_subkeys X a b s = (Inr (ek, hk), s')"
  shows "mem_ok s'" "ek \<noteq> hk" "secret_bytes s ek = None" "secret_bytes s hk = None"
    "secret_bytes s' = (secret_bytes s)(ek \<mapsto> a, hk \<mapsto> b)" "released s' = released s"
proof -
  obtain s1 where 1: "locked_secret_new X a s = (Inr ek, s1)"
    and 2: "locked_secret_new X b s1 = (Inr hk, s')"
    using assms(3) by (auto simp: lock_subkeys_def split: prod.splits sum.splits)
  note two = subkeys.create_two [OF _ container_create_eq [OF 1] container_create_eq [OF 2]]
  from two assms(1,2) show "mem_ok s'" "ek \<noteq> hk" "secret_bytes s ek = None"
    "secret_bytes s hk = None" "secret_bytes s' = (secret_bytes s)(ek \<mapsto> a, hk \<mapsto> b)" by simp_all
  from locked_secret_new_ok(5) [OF assms(1) 1] locked_secret_new_ok(5) [OF assms(1) 2]
  show "released s' = released s" by simp
qed

lemma lock_subkeys_err:
  assumes "memsec_laws X" "mem_ok s" "lock_subkeys X a b s = (Inl e, s')"
  shows "mem_ok s'" "secret_bytes s' = secret_bytes s"
proof -
  have "mem_ok s' \<and> secret_bytes s' = secret_bytes s"
  proof (cases "locked_secret_new X a s")
    case (Pair r s1)
    show ?thesis
    proof (cases r)
      case (Inl e1)
      with Pair assms subkeys.create_err [OF _ container_create_eq, of X s a e1 s1] show ?thesis
        by (simp add: lock_subkeys_def)
    next
      case (Inr ek)
      with Pair assms(3) obtain e2 s2 where 2: "locked_secret_new X b s1 = (Inl e2, s2)"
        and s': "s' = locked_secret_drop X ek s2"
        by (auto simp: lock_subkeys_def split: prod.splits sum.splits)
      from Pair Inr have 1: "locked_secret_new X a s = (Inr ek, s1)" by simp
      from subkeys.create_undo [OF _ container_create_eq [OF 1] container_create_eq [OF 2]]
        assms(1,2) s' show ?thesis by simp
    qed
  qed
  then show "mem_ok s'" "secret_bytes s' = secret_bytes s" by simp_all
qed

lemma vault_index_drop_effect:
  assumes "memsec_laws X" "mem_ok s"
  shows "mem_ok (vault_index_drop X idx s)"
    "secret_bytes (vault_index_drop X idx s) =
       (secret_bytes s)(enc_key idx := None, hmac_key idx := None)"
  using assms subkeys.release_two [of "(X, s)" "hmac_key idx" "enc_key idx"]
    subkeys.release_law [of "(X, s)" "enc_key idx"]
    subkeys.release_law [of "(X, locked_secret_drop X (enc_key idx) s)" "hmac_key idx"]
  by (simp_all add: vault_index_drop_def vault_index_wipe_def Let_def)

lemma vault_index_drop_released:
  assumes "secret_bytes s (enc_key idx) = Some k" "secret_bytes s (hmac_key idx) = Some h"
    and "enc_key idx \<noteq> hmac_key idx"
  shows "released (vault_index_drop X idx s) =
    released s @ [replicate (length k) 0, replicate (length h) 0]"
proof -
  have "secret_bytes (locked_secret_drop X (enc_key idx) s) (hmac_key idx) = Some h"
    using assms by (simp add: secret_bytes_def locked_secret_drop_effect secret_addr_inject)
  with assms(1) show ?thesis
    by (simp add: vault_index_drop_def vault_index_wipe_def locked_secret_drop_effect)
qed

section \<open>The contract of the capped map\<close>

locale capped_index =
  fixes inv :: "'s \<Rightarrow> bool"
    and find_entry :: "'s \<Rightarrow> 'k \<Rightarrow> 'v option"
    and put_entry :: "'s \<Rightarrow> 'k \<Rightarrow> 'v \<Rightarrow> ('e + unit) \<times> 's"
    and take_entry :: "'s \<Rightarrow> 'k \<Rightarrow> 'v option \<times> 's"
    and cap :: nat
  assumes bounded: "inv s \<Longrightarrow> finite (dom (find_entry s)) \<and> card (dom (find_entry s)) \<le> cap"
    and put_ok: "\<lbrakk>inv s; put_entry s k v = (Inr u, s')\<rbrakk> \<Longrightarrow>
      inv s' \<and> find_entry s' = (find_entry s)(k \<mapsto> v)"
    and put_err: "\<lbrakk>inv s; put_entry s k v = (Inl e, s')\<rbrakk> \<Longrightarrow>
      s' = s \<and> find_entry s k = None \<and> card (dom (find_entry s)) = cap"
    and take_law: "\<lbrakk>inv s; take_entry s k = (r, s')\<rbrakk> \<Longrightarrow>
      inv s' \<and> r = find_entry s k \<and> find_entry s' = (find_entry s)(k := None)"
begin

text \<open>Overwriting is always possible, also at the cap; so is inserting below the cap.\<close>

lemma overwrite_succeeds:
  "\<lbrakk>inv s; find_entry s k = Some w\<rbrakk> \<Longrightarrow> \<exists>s'. put_entry s k v = (Inr (), s')"
  by (cases "put_entry s k v"; cases "fst (put_entry s k v)") (auto dest: put_err)

lemma insert_below_cap_succeeds:
  "\<lbrakk>inv s; card (dom (find_entry s)) < cap\<rbrakk> \<Longrightarrow> \<exists>s'. put_entry s k v = (Inr (), s')"
  by (cases "put_entry s k v"; cases "fst (put_entry s k v)") (auto dest: put_err)

text \<open>An overwrite does not change the number of entries, an insertion adds one.\<close>

lemma put_card:
  assumes "inv s" "put_entry s k v = (Inr u, s')"
  shows "card (dom (find_entry s')) =
    (if find_entry s k = None then Suc (card (dom (find_entry s))) else card (dom (find_entry s)))"
  using put_ok [OF assms] bounded [OF assms(1)] by (auto simp: insert_absorb domIff)

text \<open>Removing an entry makes room for any other.\<close>

lemma take_makes_room:
  assumes "inv s" "take_entry s k = (Some w, s1)"
  shows "\<exists>s2. put_entry s1 j v = (Inr (), s2)"
proof (rule insert_below_cap_succeeds)
  from take_law [OF assms] have 1: "inv s1" "find_entry s k = Some w"
    "find_entry s1 = (find_entry s)(k := None)" by auto
  then have "dom (find_entry s1) \<subset> dom (find_entry s)" by auto
  then have "card (dom (find_entry s1)) < card (dom (find_entry s))"
    using bounded [OF assms(1)] by (intro psubset_card_mono) auto
  with bounded [OF assms(1)] show "card (dom (find_entry s1)) < cap" by simp
  show "inv s1" by (rule 1)
qed

end

definition index_map_ok :: "vault_index \<Rightarrow> bool" where
  "index_map_ok idx \<longleftrightarrow>
     distinct (map fst (files idx)) \<and> length (files idx) \<le> MAX_INDEX_ENTRIES"

lemma card_dom_map_of: "distinct (map fst m) \<Longrightarrow> card (dom (map_of m)) = length m"
  by (metis dom_map_of_conv_image_fst distinct_card length_map list.set_map)

interpretation idx: capped_index index_map_ok lookup_by_key insert_by_key remove_by_key
  MAX_INDEX_ENTRIES
proof unfold_locales
  fix s s' :: vault_index and k v u e r
  assume inv: "index_map_ok s"
  then have dist: "distinct (map fst (files s))" by (simp add: index_map_ok_def)
  have dom: "dom (lookup_by_key s) = dom (map_of (files s))"
    by (simp add: lookup_by_key_def dom_def)
  show "finite (dom (lookup_by_key s)) \<and> card (dom (lookup_by_key s)) \<le> MAX_INDEX_ENTRIES"
    using inv by (simp add: dom card_dom_map_of index_map_ok_def finite_dom_map_of)
  show "index_map_ok s' \<and> lookup_by_key s' = (lookup_by_key s)(k \<mapsto> v)"
    if "insert_by_key s k v = (Inr u, s')"
    using that inv
    by (auto simp: insert_by_key_def index_map_ok_def lookup_by_key_def hm_insert_def
        update_conv' length_alist_update distinct_update fun_eq_iff split: if_splits)
  show "s' = s \<and> lookup_by_key s k = None \<and> card (dom (lookup_by_key s)) = MAX_INDEX_ENTRIES"
    if "insert_by_key s k v = (Inl e, s')"
    using that inv dist
    by (fastforce simp: insert_by_key_def lookup_by_key_def dom card_dom_map_of
        index_map_ok_def map_of_eq_None_iff split: if_splits)
  show "index_map_ok s' \<and> r = lookup_by_key s k \<and> lookup_by_key s' = (lookup_by_key s)(k := None)"
    if "remove_by_key s k = (r, s')"
    using that inv length_delete_le [of k "files s"]
    by (auto simp: remove_by_key_def lookup_by_key_def index_map_ok_def delete_conv'
        distinct_delete fun_eq_iff split: option.splits)
qed

end
