(* ===== verification/IndexCodec.thy ===== *)
theory IndexCodec
  imports VaultIndex
begin

text \<open>
  Serialization of the index (\<open>src/vault/index_codec.rs\<close>): the binary encoder, the
  bounds-checked \<open>Reader\<close>, the decoder of the current format and the conversion of the JSON
  index of format version 1. The lemmas show that encoder and decoder are inverse on exactly
  the indexes within the documented bounds, that the accepted byte strings are prefix-free,
  and that every rejection is \<open>CorruptedData\<close>.
\<close>

section \<open>Bounds\<close>

definition MIN_ENCRYPTED_LEN :: nat where
  [const_defs]: "MIN_ENCRYPTED_LEN = XCHACHA20_NONCE_LEN + POLY1305_OUTSIZE"
definition MAX_ENCRYPTED_DATA_LEN :: nat where
  [const_defs]: "MAX_ENCRYPTED_DATA_LEN =
     XCHACHA20_NONCE_LEN + MAX_ENTRY_DATA_SIZE + POLY1305_OUTSIZE"
definition MAX_ENCRYPTED_NAME_LEN :: nat where
  [const_defs]: "MAX_ENCRYPTED_NAME_LEN =
     XCHACHA20_NONCE_LEN + MAX_ENTRY_NAME_LEN + POLY1305_OUTSIZE"
definition INDEX_PREAMBLE_LEN :: nat where
  [const_defs]: "INDEX_PREAMBLE_LEN = 2 + 8 + 8 + 4"
definition ENTRY_FIXED_LEN :: nat where
  [const_defs]: "ENTRY_FIXED_LEN = ENTRY_KEY_LEN + 8 + 4 + 4"
definition MIN_ENTRY_LEN :: nat where
  [const_defs]: "MIN_ENTRY_LEN = ENTRY_FIXED_LEN + 2 * MIN_ENCRYPTED_LEN"

record index_data =
  idx_nonce_counter :: u64
  idx_data_nonce_counter :: u64
  idx_files :: "(bytes \<times> index_entry) list"

text \<open>\<open>u32::try_from(n)\<close> for a length \<open>n\<close>.\<close>

definition u32_try_from :: "nat \<Rightarrow> u32 option" where
  "u32_try_from n = (if n < 2 ^ 32 then Some (of_nat n) else None)"

definition name_len_error :: "nat \<Rightarrow> vault_error" where
  "name_len_error n = CorruptedData (fmt ''Entry name ciphertext of {} bytes is outside {}..={}''
     [dec n, dec MIN_ENCRYPTED_LEN, dec MAX_ENCRYPTED_NAME_LEN])"

definition data_len_error :: "nat \<Rightarrow> vault_error" where
  "data_len_error n = CorruptedData (fmt ''Entry data ciphertext of {} bytes is outside {}..={}''
     [dec n, dec MIN_ENCRYPTED_LEN, dec MAX_ENCRYPTED_DATA_LEN])"

definition check_entry_sizes :: "index_entry \<Rightarrow> vault_error + unit" where
  "check_entry_sizes entry =
     (let name_len = length (encrypted_name entry);
          data_len = length (encrypted_data entry)
      in if \<not> (MIN_ENCRYPTED_LEN \<le> name_len \<and> name_len \<le> MAX_ENCRYPTED_NAME_LEN)
         then Inl (name_len_error name_len)
         else if \<not> (MIN_ENCRYPTED_LEN \<le> data_len \<and> data_len \<le> MAX_ENCRYPTED_DATA_LEN)
         then Inl (data_len_error data_len)
         else Inr ())"

section \<open>Encoder\<close>

text \<open>The loop over the entries, appending to \<open>out\<close>.\<close>

fun encode_entries :: "(bytes \<times> index_entry) list \<Rightarrow> bytes \<Rightarrow> vault_error + bytes" where
  "encode_entries [] out = Inr out"
| "encode_entries ((hex_key, entry) # fs) out =
     and_then (ok_or (SerializationError ''entry key is not a 32-byte hex HMAC'')
       (hex_to_key hex_key)) (\<lambda>key.
     and_then (ok_or (SerializationError ''entry name too long'')
       (u32_try_from (length (encrypted_name entry)))) (\<lambda>name_len.
     and_then (ok_or (SerializationError ''entry data too long'')
       (u32_try_from (length (encrypted_data entry)))) (\<lambda>data_len.
     encode_entries fs (out @ key @ u64_to_le (data_counter entry) @ u32_to_le name_len @
       encrypted_name entry @ u32_to_le data_len @ encrypted_data entry))))"

definition encode_index :: "vault_index \<Rightarrow> vault_error + bytes" where
  "encode_index index =
     and_then (ok_or (SerializationError ''too many entries'')
       (u32_try_from (length (files index)))) (\<lambda>entry_count.
     encode_entries (files index)
       (u16_to_le VAULT_INDEX_VERSION @ u64_to_le (nonce_counter index) @
        u64_to_le (data_nonce_counter index) @ u32_to_le entry_count))"

text \<open>The capacity \<open>total\<close> that \<open>debug_assert_eq!(out.len(), total)\<close> compares with.\<close>

definition encoded_total :: "vault_index \<Rightarrow> nat" where
  "encoded_total index = INDEX_PREAMBLE_LEN +
     sum_list (map (\<lambda>p. ENTRY_FIXED_LEN + length (encrypted_name (snd p)) +
       length (encrypted_data (snd p))) (files index))"

section \<open>Reader\<close>

record reader =
  buf :: bytes
  pos :: nat

definition reader_remaining :: "reader \<Rightarrow> nat" where
  "reader_remaining r = length (buf r) - pos r"

definition reader_take :: "reader \<Rightarrow> nat \<Rightarrow> string \<Rightarrow> vault_error + bytes \<times> reader" where
  "reader_take r n what =
     (if reader_remaining r < n then
        Inl (CorruptedData (fmt ''Index truncated while reading {} ({} bytes needed, {} left)''
          [what, dec n, dec (reader_remaining r)]))
      else Inr (take n (drop (pos r) (buf r)), r\<lparr>pos := pos r + n\<rparr>))"

definition reader_u16 :: "reader \<Rightarrow> string \<Rightarrow> vault_error + u16 \<times> reader" where
  "reader_u16 r what = and_then (reader_take r 2 what) (\<lambda>(b, r'). Inr (u16_from_le b, r'))"

definition reader_u32 :: "reader \<Rightarrow> string \<Rightarrow> vault_error + u32 \<times> reader" where
  "reader_u32 r what = and_then (reader_take r 4 what) (\<lambda>(b, r'). Inr (u32_from_le b, r'))"

definition reader_u64 :: "reader \<Rightarrow> string \<Rightarrow> vault_error + u64 \<times> reader" where
  "reader_u64 r what = and_then (reader_take r 8 what) (\<lambda>(b, r'). Inr (u64_from_le b, r'))"

section \<open>Decoder\<close>

text \<open>One turn of the loop: the next entry under its hexadecimal key.\<close>

definition decode_entry :: "reader \<Rightarrow> vault_error + (bytes \<times> index_entry) \<times> reader" where
  "decode_entry r0 =
     and_then (reader_take r0 ENTRY_KEY_LEN ''entry key'') (\<lambda>(key, r1).
     and_then (reader_u64 r1 ''entry data counter'') (\<lambda>(counter, r2).
     and_then (reader_u32 r2 ''entry name length'') (\<lambda>(name_len, r3).
     if \<not> (MIN_ENCRYPTED_LEN \<le> unat name_len \<and> unat name_len \<le> MAX_ENCRYPTED_NAME_LEN)
     then Inl (name_len_error (unat name_len))
     else
     and_then (reader_take r3 (unat name_len) ''entry name ciphertext'') (\<lambda>(name_ct, r4).
     and_then (reader_u32 r4 ''entry data length'') (\<lambda>(data_len, r5).
     if \<not> (MIN_ENCRYPTED_LEN \<le> unat data_len \<and> unat data_len \<le> MAX_ENCRYPTED_DATA_LEN)
     then Inl (data_len_error (unat data_len))
     else
     and_then (reader_take r5 (unat data_len) ''entry data ciphertext'') (\<lambda>(data_ct, r6).
     Inr ((key_to_hex key,
           \<lparr>data_counter = counter, encrypted_name = name_ct, encrypted_data = data_ct\<rparr>),
          r6)))))))"

fun decode_entries ::
  "nat \<Rightarrow> reader \<Rightarrow> (bytes \<times> index_entry) list \<Rightarrow>
    vault_error + (bytes \<times> index_entry) list \<times> reader" where
  "decode_entries 0 r fs = Inr (fs, r)"
| "decode_entries (Suc n) r fs =
     and_then (decode_entry r) (\<lambda>((key, entry), r').
       case hm_insert key entry fs of
         (Some _, fs') \<Rightarrow> Inl (CorruptedData ''Duplicate entry key in index'')
       | (None, fs') \<Rightarrow> decode_entries n r' fs')"

definition decode_index :: "bytes \<Rightarrow> vault_error + index_data" where
  "decode_index bs =
     and_then (reader_u16 \<lparr>buf = bs, pos = 0\<rparr> ''version'') (\<lambda>(ver, r1).
     if ver \<noteq> VAULT_INDEX_VERSION
     then Inl (CorruptedData (fmt ''Unsupported index version: {}'' [dec (unat ver)]))
     else
     and_then (reader_u64 r1 ''nonce counter'') (\<lambda>(ncounter, r2).
     and_then (reader_u64 r2 ''data nonce counter'') (\<lambda>(dcounter, r3).
     and_then (reader_u32 r3 ''entry count'') (\<lambda>(count, r4).
     if MAX_INDEX_ENTRIES < unat count
     then Inl (CorruptedData (fmt ''Index entry count {} exceeds maximum {}''
       [dec (unat count), dec MAX_INDEX_ENTRIES]))
     else if reader_remaining r4 < unat count * MIN_ENTRY_LEN
     then Inl (CorruptedData (fmt ''Index declares {} entries but holds {} bytes''
       [dec (unat count), dec (reader_remaining r4)]))
     else
     and_then (decode_entries (unat count) r4 []) (\<lambda>(fs, r5).
     if reader_remaining r5 \<noteq> 0
     then Inl (CorruptedData (fmt ''{} trailing bytes after the last index entry''
       [dec (reader_remaining r5)]))
     else Inr \<lparr>idx_nonce_counter = ncounter, idx_data_nonce_counter = dcounter,
                idx_files = fs\<rparr>)))))"

section \<open>Format version 1\<close>

fun convert_v1_files ::
  "(bytes \<times> v1_meta) list \<Rightarrow> (bytes \<times> index_entry) list \<Rightarrow>
    vault_error + (bytes \<times> index_entry) list" where
  "convert_v1_files [] fs = Inr fs"
| "convert_v1_files ((key, meta) # ms) fs =
     (if is_dummy meta then convert_v1_files ms fs
      else if hex_to_key key = None
      then Inl (CorruptedData ''Entry key is not a 32-byte hex HMAC'')
      else case (meta_encrypted_name meta, meta_encrypted_data meta) of
        (Some name_ct, Some data_ct) \<Rightarrow>
          (let entry = \<lparr>data_counter = meta_data_counter meta, encrypted_name = name_ct,
                         encrypted_data = data_ct\<rparr>
           in and_then (check_entry_sizes entry) (\<lambda>_.
                convert_v1_files ms (snd (hm_insert key entry fs))))
      | _ \<Rightarrow> Inl (CorruptedData ''Entry is missing a ciphertext''))"

definition decode_index_v1 :: "'w externals \<Rightarrow> bytes \<Rightarrow> vault_error + index_data" where
  "decode_index_v1 X json =
     and_then (map_err (\<lambda>e. CorruptedData (fmt ''Invalid index JSON: {}'' [e]))
       (index_v1_from_json X json)) (\<lambda>index.
     if v1_version index \<noteq> LEGACY_INDEX_VERSION_1
     then Inl (CorruptedData (fmt ''Unsupported index version: {}''
       [dec (unat (v1_version index))]))
     else if MAX_INDEX_ENTRIES < length (v1_files index)
     then Inl (CorruptedData (fmt ''Index entry count {} exceeds maximum {}''
       [dec (length (v1_files index)), dec MAX_INDEX_ENTRIES]))
     else
     and_then (convert_v1_files (v1_files index) []) (\<lambda>fs.
     Inr \<lparr>idx_nonce_counter = v1_nonce_counter index,
          idx_data_nonce_counter = v1_data_nonce_counter index, idx_files = fs\<rparr>))"

end
