(* ===== verification/CodecFacts.thy ===== *)
theory CodecFacts
  imports IndexCodec
begin

text \<open>
  Facts about the index codec. \<open>rest r\<close> abstracts a \<open>Reader\<close> to the bytes it has still to
  read; the locale \<open>field_reader\<close> is the contract of \<open>Reader::u16\<close>, \<open>Reader::u32\<close> and
  \<open>Reader::u64\<close>. Decoding an entry is shown to be the inverse of writing it
  (\<open>decode_entry_iff\<close>), and the theorems about whole indexes follow by induction on the
  number of entries.
\<close>

section \<open>The reader\<close>

definition rest :: "reader \<Rightarrow> bytes" where
  "rest r = drop (pos r) (buf r)"

lemma reader_remaining_rest: "reader_remaining r = length (rest r)"
  by (simp add: reader_remaining_def rest_def)

lemma reader_take_Inr_iff:
  "reader_take r n what = Inr (b, r') \<longleftrightarrow>
     n \<le> length (rest r) \<and> b = take n (rest r) \<and> r' = r\<lparr>pos := pos r + n\<rparr>"
  by (auto simp: reader_take_def reader_remaining_rest rest_def [symmetric])

lemma reader_take_Inl:
  "reader_take r n what = Inl e \<Longrightarrow> is_corrupted e \<and> length (rest r) < n"
  by (auto simp: reader_take_def reader_remaining_rest split: if_splits)

lemma rest_advance [simp]: "rest (r\<lparr>pos := pos r + n\<rparr>) = drop n (rest r)"
  by (simp add: rest_def add.commute)

lemma reader_take_append:
  assumes "rest r = b @ tail" "length b = n"
  shows "reader_take r n what = Inr (b, r\<lparr>pos := pos r + n\<rparr>)"
  using assms by (simp add: reader_take_Inr_iff)

text \<open>A position past the end never occurs: every successful read stays inside the buffer.\<close>

definition reader_inv :: "reader \<Rightarrow> bool" where
  "reader_inv r \<longleftrightarrow> pos r \<le> length (buf r)"

lemma reader_take_inv: "reader_inv r \<Longrightarrow> reader_take r n what = Inr (b, r') \<Longrightarrow> reader_inv r'"
  by (auto simp: reader_inv_def reader_take_def reader_remaining_def split: if_splits)

text \<open>A read that succeeds consumes exactly what it returns, whatever follows.\<close>

lemma reader_take_split:
  assumes "reader_take r n what = Inr (b, r')"
  shows "rest r = b @ rest r'" "length b = n"
  using assms by (auto simp: reader_take_Inr_iff)

locale field_reader = le_codec width enc decode
  for width :: nat and enc :: "'a \<Rightarrow> bytes" and decode :: "bytes \<Rightarrow> 'a" +
  fixes read_field :: "reader \<Rightarrow> string \<Rightarrow> vault_error + 'a \<times> reader"
  assumes read_field_eq:
    "read_field r what = and_then (reader_take r width what) (\<lambda>(b, r'). Inr (decode b, r'))"
begin

lemma read_enc:
  "rest r = enc x @ tail \<Longrightarrow> read_field r what = Inr (x, r\<lparr>pos := pos r + width\<rparr>)"
  by (simp add: read_field_eq reader_take_append [of r "enc x" tail] length_enc decode_enc)

lemma read_split: "read_field r what = Inr (x, r') \<Longrightarrow> rest r = enc x @ rest r'"
  using reader_take_split [of r width what]
  by (auto simp: read_field_eq and_then_Inr_iff enc_decode)

lemma read_iff:
  "read_field r what = Inr (x, r') \<longleftrightarrow>
     (\<exists>tail. rest r = enc x @ tail) \<and> r' = r\<lparr>pos := pos r + width\<rparr>"
  using read_enc read_split by fastforce

lemma read_err: "read_field r what = Inl e \<Longrightarrow> is_corrupted e"
  by (auto simp: read_field_eq and_then_Inl_iff dest: reader_take_Inl)

end

interpretation r16: field_reader 2 u16_to_le u16_from_le reader_u16
  by unfold_locales (simp add: reader_u16_def)

interpretation r32: field_reader 4 u32_to_le u32_from_le reader_u32
  by unfold_locales (simp add: reader_u32_def)

interpretation r64: field_reader 8 u64_to_le u64_from_le reader_u64
  by unfold_locales (simp add: reader_u64_def)

section \<open>Entries within the bounds\<close>

definition sizes_ok :: "index_entry \<Rightarrow> bool" where
  "sizes_ok e \<longleftrightarrow>
     MIN_ENCRYPTED_LEN \<le> length (encrypted_name e) \<and>
     length (encrypted_name e) \<le> MAX_ENCRYPTED_NAME_LEN \<and>
     MIN_ENCRYPTED_LEN \<le> length (encrypted_data e) \<and>
     length (encrypted_data e) \<le> MAX_ENCRYPTED_DATA_LEN"

definition file_ok :: "bytes \<times> index_entry \<Rightarrow> bool" where
  "file_ok f \<longleftrightarrow> is_hex_key (fst f) \<and> sizes_ok (snd f)"

text \<open>The files a decoded index may hold.\<close>

definition files_ok :: "(bytes \<times> index_entry) list \<Rightarrow> bool" where
  "files_ok fs \<longleftrightarrow>
     distinct (map fst fs) \<and> length fs \<le> MAX_INDEX_ENTRIES \<and> list_all file_ok fs"

lemma check_entry_sizes_iff: "check_entry_sizes e = Inr u \<longleftrightarrow> sizes_ok e"
  by (auto simp: check_entry_sizes_def sizes_ok_def Let_def)

lemma check_entry_sizes_err: "check_entry_sizes e = Inl d \<Longrightarrow> is_corrupted d"
  by (auto simp: check_entry_sizes_def name_len_error_def data_len_error_def Let_def
      split: if_splits)

text \<open>The layout of one entry, as the format description gives it.\<close>

definition entry_layout :: "bytes \<Rightarrow> index_entry \<Rightarrow> bytes" where
  "entry_layout key e =
     key @ u64_to_le (data_counter e) @
     u32_to_le (of_nat (length (encrypted_name e))) @ encrypted_name e @
     u32_to_le (of_nat (length (encrypted_data e))) @ encrypted_data e"

definition file_bytes :: "bytes \<times> index_entry \<Rightarrow> bytes" where
  "file_bytes f = (case hex_to_key (fst f) of
     None \<Rightarrow> [] | Some key \<Rightarrow> entry_layout key (snd f))"

definition index_layout ::
  "u64 \<Rightarrow> u64 \<Rightarrow> (bytes \<times> index_entry) list \<Rightarrow> bytes" where
  "index_layout nc dc fs =
     u16_to_le VAULT_INDEX_VERSION @ u64_to_le nc @ u64_to_le dc @
     u32_to_le (of_nat (length fs)) @ concat (map file_bytes fs)"

lemma sizes_ok_u32:
  assumes "sizes_ok e"
  shows "length (encrypted_name e) < 2 ^ 32" "length (encrypted_data e) < 2 ^ 32"
  using assms by (simp_all add: sizes_ok_def const_defs)

lemma unat_u32_of_nat: "n < 2 ^ 32 \<Longrightarrow> unat (of_nat n :: u32) = n"
  by (simp add: unat_of_nat)

lemma encode_entries_ok:
  "list_all file_ok fs \<Longrightarrow> encode_entries fs out = Inr (out @ concat (map file_bytes fs))"
proof (induction fs arbitrary: out)
  case Nil
  then show ?case by simp
next
  case (Cons f fs)
  then have f: "is_hex_key (fst f)" "sizes_ok (snd f)" by (simp_all add: file_ok_def)
  from f(1) obtain key where key: "hex_to_key (fst f) = Some key"
    using hex_to_key_is_hex_key by blast
  from Cons key sizes_ok_u32 [OF f(2)] show ?case
    by (cases f) (simp add: u32_try_from_def file_bytes_def entry_layout_def)
qed

lemma encode_index_ok:
  assumes "files_ok (files index)"
  shows "encode_index index =
    Inr (index_layout (nonce_counter index) (data_nonce_counter index) (files index))"
  using assms
  by (simp add: encode_index_def files_ok_def encode_entries_ok index_layout_def
      u32_try_from_def const_defs)

lemma length_entry_layout:
  "length key = ENTRY_KEY_LEN \<Longrightarrow> length (entry_layout key e) =
     ENTRY_FIXED_LEN + length (encrypted_name e) + length (encrypted_data e)"
  by (simp add: entry_layout_def const_defs)

lemma length_file_bytes:
  assumes "is_hex_key (fst f)"
  shows "length (file_bytes f) =
    ENTRY_FIXED_LEN + length (encrypted_name (snd f)) + length (encrypted_data (snd f))"
proof -
  obtain key where key: "hex_to_key (fst f) = Some key"
    using assms hex_to_key_is_hex_key by blast
  then have "length key = ENTRY_KEY_LEN" by (simp add: hex_to_key_Some_iff)
  with key show ?thesis by (simp add: file_bytes_def length_entry_layout)
qed

lemma length_index_layout:
  assumes "list_all file_ok fs"
  shows "length (index_layout nc dc fs) = INDEX_PREAMBLE_LEN +
    sum_list (map (\<lambda>p. ENTRY_FIXED_LEN + length (encrypted_name (snd p)) +
      length (encrypted_data (snd p))) fs)"
proof -
  have *: "map (length \<circ> file_bytes) fs = map (\<lambda>p. ENTRY_FIXED_LEN +
      length (encrypted_name (snd p)) + length (encrypted_data (snd p))) fs"
    using assms by (auto simp: list_all_iff file_ok_def length_file_bytes)
  show ?thesis
    by (simp add: index_layout_def length_concat * INDEX_PREAMBLE_LEN_def)
qed

section \<open>Decoding\<close>

text \<open>Decoding an entry succeeds exactly on the layout of an entry within the bounds.\<close>

lemma decode_entry_ok:
  assumes r: "rest r = entry_layout key e @ tail"
    and key: "length key = ENTRY_KEY_LEN" and e: "sizes_ok e"
  obtains r' where "decode_entry r = Inr ((key_to_hex key, e), r')" "rest r' = tail"
proof -
  let ?nl = "of_nat (length (encrypted_name e)) :: u32"
  let ?dl = "of_nat (length (encrypted_data e)) :: u32"
  note lens = sizes_ok_u32 [OF e, THEN unat_u32_of_nat]
  let ?adv = "\<lambda>r n. r\<lparr>pos := pos r + n\<rparr>"
  define r1 where "r1 = ?adv r ENTRY_KEY_LEN"
  define r2 where "r2 = ?adv r1 8"
  define r3 where "r3 = ?adv r2 4"
  define r4 where "r4 = ?adv r3 (length (encrypted_name e))"
  define r5 where "r5 = ?adv r4 4"
  define r6 where "r6 = ?adv r5 (length (encrypted_data e))"
  note adv = r1_def r2_def r3_def r4_def r5_def r6_def
  have rests: "rest r1 = drop ENTRY_KEY_LEN (rest r)" "rest r2 = drop 8 (rest r1)"
    "rest r3 = drop 4 (rest r2)" "rest r4 = drop (length (encrypted_name e)) (rest r3)"
    "rest r5 = drop 4 (rest r4)" "rest r6 = drop (length (encrypted_data e)) (rest r5)"
    by (simp_all only: adv rest_advance)
  have 1: "rest r1 = u64_to_le (data_counter e) @ u32_to_le ?nl @ encrypted_name e @
      u32_to_le ?dl @ encrypted_data e @ tail"
    using key by (simp add: rests r entry_layout_def)
  then have 2: "rest r2 = u32_to_le ?nl @ encrypted_name e @ u32_to_le ?dl @
      encrypted_data e @ tail" by (simp add: rests(2))
  then have 3: "rest r3 = encrypted_name e @ u32_to_le ?dl @ encrypted_data e @ tail"
    by (simp add: rests(3))
  then have 4: "rest r4 = u32_to_le ?dl @ encrypted_data e @ tail" by (simp add: rests(4))
  then have 5: "rest r5 = encrypted_data e @ tail" by (simp add: rests(5))
  then have 6: "rest r6 = tail" by (simp add: rests(6))
  have "reader_take r ENTRY_KEY_LEN ''entry key'' = Inr (key, r1)"
    unfolding r1_def by (rule reader_take_append) (use r key in \<open>simp_all add: entry_layout_def\<close>)
  moreover have "reader_u64 r1 what = Inr (data_counter e, r2)" for what
    unfolding r2_def using 1 by (rule r64.read_enc)
  moreover have "reader_u32 r2 what = Inr (?nl, r3)" for what
    unfolding r3_def using 2 by (rule r32.read_enc)
  moreover have "reader_take r3 (unat ?nl) what = Inr (encrypted_name e, r4)" for what
    unfolding r4_def lens by (rule reader_take_append [OF 3 refl])
  moreover have "reader_u32 r4 what = Inr (?dl, r5)" for what
    unfolding r5_def using 4 by (rule r32.read_enc)
  moreover have "reader_take r5 (unat ?dl) what = Inr (encrypted_data e, r6)" for what
    unfolding r6_def lens by (rule reader_take_append [OF 5 refl])
  ultimately have "decode_entry r = Inr ((key_to_hex key, e), r6)"
    using e by (simp add: decode_entry_def lens sizes_ok_def)
  then show thesis using 6 by (rule that)
qed

lemma decode_entry_inv:
  assumes "decode_entry r = Inr ((k, e), r')"
  obtains key where "k = key_to_hex key" "length key = ENTRY_KEY_LEN" "sizes_ok e"
    "rest r = entry_layout key e @ rest r'"
proof -
  from assms obtain key r1 counter r2 nl r3 r4 dl r5 where
    steps: "reader_take r ENTRY_KEY_LEN ''entry key'' = Inr (key, r1)"
      "reader_u64 r1 ''entry data counter'' = Inr (counter, r2)"
      "reader_u32 r2 ''entry name length'' = Inr (nl, r3)"
      "reader_take r3 (unat nl) ''entry name ciphertext'' = Inr (encrypted_name e, r4)"
      "reader_u32 r4 ''entry data length'' = Inr (dl, r5)"
      "reader_take r5 (unat dl) ''entry data ciphertext'' = Inr (encrypted_data e, r')"
    and bounds: "MIN_ENCRYPTED_LEN \<le> unat nl" "unat nl \<le> MAX_ENCRYPTED_NAME_LEN"
      "MIN_ENCRYPTED_LEN \<le> unat dl" "unat dl \<le> MAX_ENCRYPTED_DATA_LEN"
    and k: "k = key_to_hex key" and c: "counter = data_counter e"
    unfolding decode_entry_def and_then_Inr_iff
    by (auto simp: and_then_Inr_iff split: if_splits)
  note splits = reader_take_split [OF steps(1)] r64.read_split [OF steps(2)]
    r32.read_split [OF steps(3)] reader_take_split [OF steps(4)]
    r32.read_split [OF steps(5)] reader_take_split [OF steps(6)]
  have lens: "length (encrypted_name e) = unat nl" "length (encrypted_data e) = unat dl"
    by (rule splits)+
  have "rest r = entry_layout key e @ rest r'"
    using splits c by (simp add: entry_layout_def lens)
  moreover have "sizes_ok e" using bounds by (simp add: sizes_ok_def lens)
  ultimately show thesis using k splits(2) that by blast
qed

lemma decode_entry_err: "decode_entry r = Inl e \<Longrightarrow> is_corrupted e"
  unfolding decode_entry_def
  by (auto simp: and_then_Inl_iff name_len_error_def data_len_error_def split: if_splits
      dest: reader_take_Inl r64.read_err r32.read_err)

lemma file_ok_bytes:
  assumes "file_ok f"
  obtains key where "fst f = key_to_hex key" "length key = ENTRY_KEY_LEN" "sizes_ok (snd f)"
    "file_bytes f = entry_layout key (snd f)"
proof -
  from assms obtain key where key: "length key = ENTRY_KEY_LEN" "fst f = key_to_hex key"
    by (auto simp: file_ok_def elim: is_hex_key_obtain)
  then have "hex_to_key (fst f) = Some key" by (simp add: hex_to_key_Some_iff)
  with key assms show thesis by (intro that) (simp_all add: file_bytes_def file_ok_def)
qed

lemma file_ok_key_to_hex:
  "length key = ENTRY_KEY_LEN \<Longrightarrow> sizes_ok e \<Longrightarrow>
     file_ok (key_to_hex key, e) \<and> file_bytes (key_to_hex key, e) = entry_layout key e"
  using hex_to_key_Some_iff [of "key_to_hex key" key]
  by (simp add: file_ok_def file_bytes_def is_hex_key_key_to_hex)

lemma decode_entries_ok:
  assumes "list_all file_ok fs" "distinct (map fst (acc @ fs))"
    and "rest r = concat (map file_bytes fs) @ tail"
  shows "\<exists>r'. decode_entries (length fs) r acc = Inr (acc @ fs, r') \<and> rest r' = tail"
  using assms
proof (induction fs arbitrary: r acc)
  case Nil
  then show ?case by simp
next
  case (Cons f fs)
  obtain k e where f: "f = (k, e)" by (cases f)
  from Cons.prems(1) have "file_ok f" by simp
  then obtain key where key: "k = key_to_hex key" "length key = ENTRY_KEY_LEN" "sizes_ok e"
    "file_bytes f = entry_layout key e" by (auto simp: f elim: file_ok_bytes)
  with Cons.prems(3) obtain r1 where r1: "decode_entry r = Inr ((k, e), r1)"
    "rest r1 = concat (map file_bytes fs) @ tail"
    by (auto elim: decode_entry_ok [of r key e "concat (map file_bytes fs) @ tail"])
  have "k \<notin> fst ` set acc" using Cons.prems(2) f by auto
  then have fresh: "map_of acc k = None" by (simp add: map_of_eq_None_iff)
  have "\<exists>r'. decode_entries (length fs) r1 (acc @ [f]) = Inr ((acc @ [f]) @ fs, r') \<and> rest r' = tail"
    using Cons.prems r1(2) by (intro Cons.IH) auto
  with r1(1) fresh show ?case by (simp add: f hm_insert_def alist_update_fresh)
qed

lemma decode_entries_inv:
  assumes "decode_entries n r acc = Inr (fs, r')"
  shows "\<exists>new. fs = acc @ new \<and> length new = n \<and> list_all file_ok new \<and>
    rest r = concat (map file_bytes new) @ rest r' \<and>
    (distinct (map fst acc) \<longrightarrow> distinct (map fst fs))"
  using assms
proof (induction n arbitrary: r acc)
  case 0
  then show ?case by simp
next
  case (Suc n)
  from Suc.prems obtain k e r1 where 1: "decode_entry r = Inr ((k, e), r1)"
    and fresh: "map_of acc k = None"
    and 2: "decode_entries n r1 (acc @ [(k, e)]) = Inr (fs, r')"
    by (auto simp: and_then_Inr_iff hm_insert_def alist_update_fresh split: option.splits)
  from 1 obtain key where key: "k = key_to_hex key" "length key = ENTRY_KEY_LEN" "sizes_ok e"
    "rest r = entry_layout key e @ rest r1" by (rule decode_entry_inv)
  from Suc.IH [OF 2] obtain new where new: "fs = (acc @ [(k, e)]) @ new" "length new = n"
    "list_all file_ok new" "rest r1 = concat (map file_bytes new) @ rest r'"
    "distinct (map fst (acc @ [(k, e)])) \<longrightarrow> distinct (map fst fs)" by blast
  have "k \<notin> fst ` set acc" using fresh by (simp add: map_of_eq_None_iff)
  with new key file_ok_key_to_hex [OF key(2,3)] show ?case
    by (intro exI [of _ "(k, e) # new"]) auto
qed

lemma decode_entries_err: "decode_entries n r acc = Inl e \<Longrightarrow> is_corrupted e"
  by (induction n arbitrary: r acc)
    (auto simp: and_then_Inl_iff hm_insert_def dest: decode_entry_err split: option.splits)

lemma length_file_bytes_min: "file_ok f \<Longrightarrow> MIN_ENTRY_LEN \<le> length (file_bytes f)"
  by (simp add: file_ok_def length_file_bytes sizes_ok_def MIN_ENTRY_LEN_def)

lemma concat_file_bytes_min:
  "list_all file_ok fs \<Longrightarrow> length fs * MIN_ENTRY_LEN \<le> length (concat (map file_bytes fs))"
  by (induction fs) (auto dest: length_file_bytes_min)

text \<open>
  The decoder accepts exactly the layouts of indexes within the bounds, and returns the
  index it is the layout of.
\<close>

lemma decode_index_layout:
  assumes "files_ok fs"
  shows "decode_index (index_layout nc dc fs) =
    Inr \<lparr>idx_nonce_counter = nc, idx_data_nonce_counter = dc, idx_files = fs\<rparr>"
proof -
  let ?c = "of_nat (length fs) :: u32"
  let ?body = "concat (map file_bytes fs)"
  have fs: "distinct (map fst fs)" "length fs \<le> MAX_INDEX_ENTRIES" "list_all file_ok fs"
    using assms by (simp_all add: files_ok_def)
  then have c: "unat ?c = length fs" by (intro unat_u32_of_nat) (simp add: const_defs)
  define r0 where "r0 = \<lparr>buf = index_layout nc dc fs, pos = 0\<rparr>"
  define r1 where "r1 = r0\<lparr>pos := pos r0 + 2\<rparr>"
  define r2 where "r2 = r1\<lparr>pos := pos r1 + 8\<rparr>"
  define r3 where "r3 = r2\<lparr>pos := pos r2 + 8\<rparr>"
  define r4 where "r4 = r3\<lparr>pos := pos r3 + 4\<rparr>"
  have 0: "rest r0 = u16_to_le VAULT_INDEX_VERSION @ u64_to_le nc @ u64_to_le dc @
      u32_to_le ?c @ ?body" by (simp add: r0_def rest_def index_layout_def)
  then have 1: "rest r1 = u64_to_le nc @ u64_to_le dc @ u32_to_le ?c @ ?body"
    unfolding r1_def rest_advance by simp
  then have 2: "rest r2 = u64_to_le dc @ u32_to_le ?c @ ?body"
    unfolding r2_def rest_advance by simp
  then have 3: "rest r3 = u32_to_le ?c @ ?body"
    unfolding r3_def rest_advance by simp
  then have 4: "rest r4 = ?body @ []" unfolding r4_def rest_advance by simp
  note reads = r16.read_enc [OF 0, folded r1_def] r64.read_enc [OF 1, folded r2_def]
    r64.read_enc [OF 2, folded r3_def] r32.read_enc [OF 3, folded r4_def]
  obtain r5 where 5: "decode_entries (length fs) r4 [] = Inr (fs, r5)" "rest r5 = []"
    using decode_entries_ok [of fs "[]" r4 "[]"] fs 4 by auto
  have "length fs * MIN_ENTRY_LEN \<le> reader_remaining r4"
    using concat_file_bytes_min [OF fs(3)] 4 by (simp add: reader_remaining_rest)
  with reads 5 c fs(2) show ?thesis
    by (simp add: decode_index_def r0_def [symmetric] reader_remaining_rest)
qed

lemma decode_index_inv:
  assumes "decode_index bs = Inr d"
  shows "files_ok (idx_files d)"
    "bs = index_layout (idx_nonce_counter d) (idx_data_nonce_counter d) (idx_files d)"
proof -
  let ?r0 = "\<lparr>buf = bs, pos = 0\<rparr>"
  from assms obtain r1 nc r2 dc r3 c r4 fs r5 where
    steps: "reader_u16 ?r0 ''version'' = Inr (VAULT_INDEX_VERSION, r1)"
      "reader_u64 r1 ''nonce counter'' = Inr (nc, r2)"
      "reader_u64 r2 ''data nonce counter'' = Inr (dc, r3)"
      "reader_u32 r3 ''entry count'' = Inr (c, r4)"
      "decode_entries (unat c) r4 [] = Inr (fs, r5)"
    and c: "unat c \<le> MAX_INDEX_ENTRIES" and r5: "reader_remaining r5 = 0"
    and d: "d = \<lparr>idx_nonce_counter = nc, idx_data_nonce_counter = dc, idx_files = fs\<rparr>"
    unfolding decode_index_def and_then_Inr_iff
    by (auto simp: and_then_Inr_iff not_less split: if_splits)
  from decode_entries_inv [OF steps(5)] have fs: "length fs = unat c" "list_all file_ok fs"
    "rest r4 = concat (map file_bytes fs) @ rest r5" "distinct (map fst fs)" by auto
  have "rest r5 = []" using r5 by (simp add: reader_remaining_rest)
  with r16.read_split [OF steps(1)] r64.read_split [OF steps(2)] r64.read_split [OF steps(3)]
    r32.read_split [OF steps(4)] fs
  have "rest ?r0 = index_layout nc dc fs" by (simp add: index_layout_def)
  then show "bs = index_layout (idx_nonce_counter d) (idx_data_nonce_counter d) (idx_files d)"
    by (simp add: rest_def d)
  show "files_ok (idx_files d)" using fs c by (simp add: files_ok_def d)
qed

lemma decode_index_iff:
  "decode_index bs = Inr d \<longleftrightarrow> files_ok (idx_files d) \<and>
     bs = index_layout (idx_nonce_counter d) (idx_data_nonce_counter d) (idx_files d)"
  using decode_index_inv [of bs d] decode_index_layout [of "idx_files d"] by auto

lemma decode_index_err: "decode_index bs = Inl e \<Longrightarrow> is_corrupted e"
  unfolding decode_index_def
  by (auto simp: and_then_Inl_iff split: if_splits
      dest: r16.read_err r64.read_err r32.read_err decode_entries_err)

text \<open>No accepted index is a proper prefix of another.\<close>

lemma decode_index_prefix_free:
  assumes "decode_index bs = Inr d" "decode_index (bs @ x) = Inr d'"
  shows "x = []"
proof -
  let ?fs = "idx_files d" and ?fs' = "idx_files d'"
  from decode_index_inv [OF assms(1)] have 1: "files_ok ?fs"
    "bs = index_layout (idx_nonce_counter d) (idx_data_nonce_counter d) ?fs" .
  from decode_index_inv [OF assms(2)] have 2: "files_ok ?fs'"
    "bs @ x = index_layout (idx_nonce_counter d') (idx_data_nonce_counter d') ?fs'" .
  from 1(2) 2(2) have "index_layout (idx_nonce_counter d) (idx_data_nonce_counter d) ?fs @ x =
      index_layout (idx_nonce_counter d') (idx_data_nonce_counter d') ?fs'" by (simp only:)
  then have count: "(of_nat (length ?fs) :: u32) = of_nat (length ?fs')"
    and body: "concat (map file_bytes ?fs) @ x = concat (map file_bytes ?fs')"
    by (simp_all only: index_layout_def append_assoc le16.enc_append_inject
        le64.enc_append_inject le32.enc_append_inject)
  have "length ?fs < 2 ^ 32" "length ?fs' < 2 ^ 32"
    using 1(1) 2(1) by (simp_all add: files_ok_def const_defs)
  then have len: "length ?fs = length ?fs'" using count unat_u32_of_nat by metis
  let ?r = "\<lparr>buf = concat (map file_bytes ?fs'), pos = 0\<rparr>"
  have "rest ?r = concat (map file_bytes ?fs) @ x" "rest ?r = concat (map file_bytes ?fs') @ []"
    by (simp_all add: rest_def body)
  then have "\<exists>r'. decode_entries (length ?fs) ?r [] = Inr (?fs, r') \<and> rest r' = x"
    and "\<exists>r'. decode_entries (length ?fs') ?r [] = Inr (?fs', r') \<and> rest r' = []"
    using decode_entries_ok [of ?fs "[]" ?r x] decode_entries_ok [of ?fs' "[]" ?r "[]"] 1(1) 2(1)
    by (simp_all only: files_ok_def append_Nil simp_thms)
  then obtain r1 r2 where "decode_entries (length ?fs) ?r [] = Inr (?fs, r1)" "rest r1 = x"
    "decode_entries (length ?fs') ?r [] = Inr (?fs', r2)" "rest r2 = []" by blast
  with len show ?thesis by (metis Inr_inject prod.inject)
qed

section \<open>Format version 1\<close>

text \<open>The entry a legacy record stands for, and the records the conversion accepts.\<close>

definition v1_entry :: "v1_meta \<Rightarrow> index_entry option" where
  "v1_entry m = (case (meta_encrypted_name m, meta_encrypted_data m) of
     (Some n, Some d) \<Rightarrow>
       Some \<lparr>data_counter = meta_data_counter m, encrypted_name = n, encrypted_data = d\<rparr>
   | _ \<Rightarrow> None)"

definition v1_meta_ok :: "bytes \<times> v1_meta \<Rightarrow> bool" where
  "v1_meta_ok f \<longleftrightarrow> is_dummy (snd f) \<or>
     is_hex_key (fst f) \<and> (case v1_entry (snd f) of None \<Rightarrow> False | Some e \<Rightarrow> sizes_ok e)"

fun v1_entries :: "(bytes \<times> v1_meta) list \<Rightarrow> (bytes \<times> index_entry) list" where
  "v1_entries [] = []"
| "v1_entries ((k, m) # ms) =
     (if is_dummy m then v1_entries ms
      else case v1_entry m of None \<Rightarrow> v1_entries ms | Some e \<Rightarrow> (k, e) # v1_entries ms)"

lemma v1_entries_keys: "fst ` set (v1_entries ms) \<subseteq> fst ` set ms"
  by (induction ms rule: v1_entries.induct) (auto split: option.splits)

lemma length_v1_entries: "length (v1_entries ms) \<le> length ms"
proof (induction ms)
  case (Cons f ms)
  then show ?case by (cases f) (simp add: le_SucI split: option.split)
qed simp

lemma distinct_v1_entries:
  "distinct (map fst ms) \<Longrightarrow> distinct (map fst (v1_entries ms))"
proof (induction ms rule: v1_entries.induct)
  case (2 k m ms)
  with v1_entries_keys [of ms] show ?case by (auto split: option.splits)
qed simp

lemma v1_entries_ok: "list_all v1_meta_ok ms \<Longrightarrow> list_all file_ok (v1_entries ms)"
  by (induction ms rule: v1_entries.induct)
    (auto simp: v1_meta_ok_def file_ok_def split: option.splits)

lemma hex_to_key_None_iff: "hex_to_key k = None \<longleftrightarrow> \<not> is_hex_key k"
  using hex_to_key_is_hex_key [of k] by (cases "hex_to_key k") auto

lemma convert_v1_files_iff:
  assumes "distinct (map fst (acc @ v1_entries ms))" "distinct (map fst ms)"
  shows "convert_v1_files ms acc = Inr fs \<longleftrightarrow>
    list_all v1_meta_ok ms \<and> fs = acc @ v1_entries ms"
  using assms
proof (induction ms arbitrary: acc)
  case Nil
  then show ?case by auto
next
  case (Cons f ms)
  obtain k m where f: "f = (k, m)" by (cases f)
  note prems = Cons.prems [unfolded f]
  have "convert_v1_files ((k, m) # ms) acc = Inr fs \<longleftrightarrow>
      list_all v1_meta_ok ((k, m) # ms) \<and> fs = acc @ v1_entries ((k, m) # ms)"
  proof (cases "is_dummy m")
    case True
    then have "v1_meta_ok (k, m)" by (simp add: v1_meta_ok_def)
    with True Cons.IH prems show ?thesis by simp
  next
    case real: False
    show ?thesis
    proof (cases "v1_entry m")
      case None
      then show ?thesis
        using real by (auto simp: v1_meta_ok_def v1_entry_def split: option.splits)
    next
      case (Some e)
      then obtain n d where nd: "meta_encrypted_name m = Some n" "meta_encrypted_data m = Some d"
        "e = \<lparr>data_counter = meta_data_counter m, encrypted_name = n, encrypted_data = d\<rparr>"
        by (auto simp: v1_entry_def split: option.splits)
      have fresh: "map_of acc k = None"
        using prems(1) real Some by (auto simp: map_of_eq_None_iff)
      show ?thesis
      proof (cases "is_hex_key k")
        case False
        with real show ?thesis by (simp add: v1_meta_ok_def hex_to_key_None_iff)
      next
        case True
        have IH: "convert_v1_files ms (acc @ [(k, e)]) = Inr fs \<longleftrightarrow>
            list_all v1_meta_ok ms \<and> fs = (acc @ [(k, e)]) @ v1_entries ms"
          using prems real Some by (intro Cons.IH) auto
        have "convert_v1_files ((k, m) # ms) acc =
            and_then (check_entry_sizes e) (\<lambda>_. convert_v1_files ms (acc @ [(k, e)]))"
          using real True nd fresh
          by (simp add: hex_to_key_None_iff hm_insert_def alist_update_fresh Let_def)
        then show ?thesis
          using real True Some IH
          by (auto simp: v1_meta_ok_def and_then_Inr_iff check_entry_sizes_iff)
      qed
    qed
  qed
  then show ?case by (simp add: f)
qed

lemma convert_v1_files_err: "convert_v1_files ms acc = Inl e \<Longrightarrow> is_corrupted e"
  by (induction ms acc rule: convert_v1_files.induct)
    (auto simp: and_then_Inl_iff Let_def dest: check_entry_sizes_err
      split: if_splits option.splits)

lemma decode_index_v1_iff:
  assumes "json_laws X"
  shows "decode_index_v1 X json = Inr d \<longleftrightarrow>
    (\<exists>i. index_v1_from_json X json = Inr i \<and> v1_version i = LEGACY_INDEX_VERSION_1 \<and>
       length (v1_files i) \<le> MAX_INDEX_ENTRIES \<and> list_all v1_meta_ok (v1_files i) \<and>
       d = \<lparr>idx_nonce_counter = v1_nonce_counter i,
            idx_data_nonce_counter = v1_data_nonce_counter i,
            idx_files = v1_entries (v1_files i)\<rparr>)"
proof (cases "index_v1_from_json X json")
  case (Inl e)
  then show ?thesis by (simp add: decode_index_v1_def)
next
  case (Inr i)
  with assms have dist: "distinct (map fst (v1_files i))" unfolding json_laws_def by blast
  then have "convert_v1_files (v1_files i) [] = Inr fs \<longleftrightarrow>
      list_all v1_meta_ok (v1_files i) \<and> fs = v1_entries (v1_files i)" for fs
    using convert_v1_files_iff [of "[]" "v1_files i" fs] distinct_v1_entries [OF dist] by simp
  with Inr show ?thesis by (auto simp: decode_index_v1_def and_then_Inr_iff not_less)
qed

lemma decode_index_v1_files_ok:
  assumes "json_laws X" "decode_index_v1 X json = Inr d"
  shows "files_ok (idx_files d)"
proof -
  from assms obtain i where i: "index_v1_from_json X json = Inr i"
    "length (v1_files i) \<le> MAX_INDEX_ENTRIES" "list_all v1_meta_ok (v1_files i)"
    "idx_files d = v1_entries (v1_files i)"
    by (auto simp: decode_index_v1_iff)
  with assms(1) have "distinct (map fst (v1_files i))" unfolding json_laws_def by blast
  with i length_v1_entries [of "v1_files i"] show ?thesis
    by (simp add: files_ok_def distinct_v1_entries v1_entries_ok)
qed

lemma decode_index_v1_err: "decode_index_v1 X json = Inl e \<Longrightarrow> is_corrupted e"
  by (auto simp: decode_index_v1_def and_then_Inl_iff map_err_Inl_iff
      dest: convert_v1_files_err split: if_splits)

end
