(* ===== verification/Envelope.thy ===== *)
theory Envelope
  imports VaultHeader CodecFacts
begin

text \<open>
  The plaintext envelope of a vault file and the validation helpers of
  \<open>src/vault/facade.rs\<close>: \<open>parse_envelope\<close> with its checks in the order of the code,
  \<open>validate_password\<close>, \<open>validate_header\<close>, \<open>validate_export_size\<close>, \<open>split_nonce\<close>,
  \<open>build_entry_aad\<close>, and the assembly of the output of \<open>export\<close>. The lemmas show that the
  parser accepts exactly the canonical layouts within the bounds and that the associated
  data of an entry determines its key and counter.
\<close>

record envelope =
  env_header :: vault_header
  env_nonce :: bytes
  env_encrypted_index :: bytes

section \<open>Validation\<close>

definition validate_password :: "bytes \<Rightarrow> vault_error + unit" where
  "validate_password password =
     (if length password < MIN_PASSWORD_LEN
      then Inl (InvalidInput (fmt ''Password must be at least {} bytes'' [dec MIN_PASSWORD_LEN]))
      else Inr ())"

definition validate_header :: "vault_header \<Rightarrow> vault_error + unit" where
  "validate_header h =
     (if version h \<notin> set SUPPORTED_VAULT_VERSIONS
      then Inl (CorruptedData (fmt ''Unsupported vault version: {} (supported: [{}, {}])''
        (dec (unat (version h)) # map (\<lambda>v. dec (unat v)) SUPPORTED_VAULT_VERSIONS)))
      else if MAX_KDF_MEMORY < kdf_memory_cost h \<or> kdf_memory_cost h < MIN_KDF_MEMORY
      then Inl (CorruptedData (fmt ''KDF memory cost out of range: {} KiB (allowed {}-{})''
        [dec (unat (kdf_memory_cost h)), dec (unat MIN_KDF_MEMORY), dec (unat MAX_KDF_MEMORY)]))
      else if MAX_KDF_ITERATIONS < kdf_iterations h \<or> kdf_iterations h < MIN_KDF_ITERATIONS
      then Inl (CorruptedData (fmt ''KDF iterations out of range: {} (allowed {}-{})''
        [dec (unat (kdf_iterations h)), dec (unat MIN_KDF_ITERATIONS),
         dec (unat MAX_KDF_ITERATIONS)]))
      else if key_length h \<noteq> of_nat KEY_LEN
      then Inl (CorruptedData (fmt ''Invalid key length: {} (expected {})''
        [dec (unat (key_length h)), dec KEY_LEN]))
      else Inr ())"

definition validate_export_size :: "nat \<Rightarrow> vault_error + unit" where
  "validate_export_size len =
     (if MAX_VAULT_FILE_SIZE < len
      then Inl (SerializationError (fmt
        ''Exported vault is {} bytes, exceeding the maximum vault file size of {} bytes; remove entries before exporting''
        [dec len, dec MAX_VAULT_FILE_SIZE]))
      else Inr ())"

section \<open>Entry blobs and their associated data\<close>

definition split_nonce :: "bytes \<Rightarrow> vault_error + bytes \<times> bytes" where
  "split_nonce blob =
     (if length blob < XCHACHA20_NONCE_LEN
      then Inl (CorruptedData ''Encrypted entry too short for nonce'')
      else Inr (take XCHACHA20_NONCE_LEN blob, drop XCHACHA20_NONCE_LEN blob))"

definition build_entry_aad :: "bytes \<Rightarrow> u64 \<Rightarrow> bytes" where
  "build_entry_aad hex_key counter = hex_key @ u64_to_le counter"

section \<open>The parser\<close>

definition parse_envelope :: "'w externals \<Rightarrow> bytes \<Rightarrow> vault_error + envelope" where
  "parse_envelope X data =
     (if MAX_VAULT_FILE_SIZE < length data
      then Inl (CorruptedData (fmt ''Vault data of {} bytes exceeds maximum {}''
        [dec (length data), dec MAX_VAULT_FILE_SIZE]))
      else if length data < 4 then Inl (CorruptedData ''Data too short'')
      else
        let header_len = unat (u32_from_le (take 4 data)) in
        if MAX_HEADER_JSON_LEN < header_len
        then Inl (CorruptedData (fmt ''Header length {} exceeds maximum {}''
          [dec header_len, dec MAX_HEADER_JSON_LEN]))
        else
          let after_header = 4 + header_len in
          if length data < after_header + XCHACHA20_NONCE_LEN
          then Inl (CorruptedData ''Data too short for header and nonce'')
          else
            let header_bytes = take header_len (drop 4 data) in
            and_then (map_err (\<lambda>e. CorruptedData (fmt ''Invalid header JSON: {}'' [e]))
              (header_from_json X header_bytes)) (\<lambda>header.
            and_then (validate_header header) (\<lambda>_.
            and_then (to_aad_bytes X header) (\<lambda>canonical.
            if header_bytes \<noteq> canonical
            then Inl (CorruptedData ''Header JSON is not in canonical form'')
            else
              let n = take XCHACHA20_NONCE_LEN (drop after_header data);
                  index_start = after_header + XCHACHA20_NONCE_LEN in
              if version header = LEGACY_VAULT_VERSION_1
              then
                let index_start = index_start + 8 in
                if length data < index_start
                then Inl (CorruptedData ''Data too short for legacy counter'')
                else Inr \<lparr>env_header = header, env_nonce = n,
                           env_encrypted_index = drop index_start data\<rparr>
              else Inr \<lparr>env_header = header, env_nonce = n,
                         env_encrypted_index = drop index_start data\<rparr>))))"

text \<open>The bytes \<open>export\<close> assembles; the header length is cast with \<open>as u32\<close>.\<close>

definition assemble_envelope :: "bytes \<Rightarrow> bytes \<Rightarrow> bytes \<Rightarrow> bytes" where
  "assemble_envelope header_json n encrypted_index =
     u32_to_le (of_nat (length header_json)) @ header_json @ n @ encrypted_index"

section \<open>Facts\<close>

text \<open>The parameters an accepted header can have, whoever wrote it.\<close>

definition header_in_policy :: "vault_header \<Rightarrow> bool" where
  "header_in_policy h \<longleftrightarrow>
     (version h = LEGACY_VAULT_VERSION_1 \<or> version h = VAULT_VERSION) \<and>
     MIN_KDF_MEMORY \<le> kdf_memory_cost h \<and> kdf_memory_cost h \<le> MAX_KDF_MEMORY \<and>
     MIN_KDF_ITERATIONS \<le> kdf_iterations h \<and> kdf_iterations h \<le> MAX_KDF_ITERATIONS \<and>
     key_length h = of_nat KEY_LEN"

lemma validate_header_iff: "validate_header h = Inr u \<longleftrightarrow> header_in_policy h"
  by (auto simp: validate_header_def header_in_policy_def SUPPORTED_VAULT_VERSIONS_def not_less)

lemma validate_header_err: "validate_header h = Inl e \<Longrightarrow> is_corrupted e"
  by (auto simp: validate_header_def split: if_splits)

lemma generated_header_in_policy: "generated_header h \<Longrightarrow> header_in_policy h"
  by (auto simp: generated_header_def header_in_policy_def vault_header_new_def const_defs)

lemma generated_header_version: "generated_header h \<Longrightarrow> version h = VAULT_VERSION"
  by (auto simp: generated_header_def vault_header_new_def)

lemma generated_header_salt: "generated_header h \<Longrightarrow> length (kdf_salt h) = SALT_LEN"
  by (auto simp: generated_header_def vault_header_new_def)

lemma split_nonce_Inr_iff:
  "split_nonce blob = Inr (n, c) \<longleftrightarrow> length n = XCHACHA20_NONCE_LEN \<and> blob = n @ c"
  by (auto simp: split_nonce_def)

lemma split_nonce_err: "split_nonce blob = Inl e \<Longrightarrow> is_corrupted e"
  by (auto simp: split_nonce_def split: if_splits)

lemma build_entry_aad_inject:
  "build_entry_aad k c = build_entry_aad k' c' \<longleftrightarrow> k = k' \<and> c = c'"
proof
  assume "build_entry_aad k c = build_entry_aad k' c'"
  then have "k = k'" "u64_to_le c = u64_to_le c'"
    by (auto simp: build_entry_aad_def append_eq_append_conv)
  then show "k = k' \<and> c = c'" using le64.enc_inject by blast
qed simp

text \<open>The legacy counter bytes a version 1 file carries after the nonce.\<close>

definition legacy_gap :: "vault_header \<Rightarrow> nat" where
  "legacy_gap h = (if version h = LEGACY_VAULT_VERSION_1 then 8 else 0)"

text \<open>
  Every accepted input is the canonical layout of its header, its nonce, the legacy counter
  if the version asks for one, and the encrypted index.
\<close>

lemma parse_envelope_inv:
  assumes "parse_envelope X data = Inr env"
  obtains hj gap where "header_to_json X (env_header env) = Inr hj"
    "header_from_json X hj = Inr (env_header env)" "header_in_policy (env_header env)"
    "length hj \<le> MAX_HEADER_JSON_LEN" "length (env_nonce env) = XCHACHA20_NONCE_LEN"
    "length gap = legacy_gap (env_header env)" "length data \<le> MAX_VAULT_FILE_SIZE"
    "data = u32_to_le (of_nat (length hj)) @ hj @ env_nonce env @ gap @ env_encrypted_index env"
proof -
  let ?hl = "unat (u32_from_le (take 4 data))"
  let ?hj = "take ?hl (drop 4 data)"
  let ?n = "take XCHACHA20_NONCE_LEN (drop (4 + ?hl) data)"
  let ?tail = "drop (4 + ?hl + XCHACHA20_NONCE_LEN) data"
  from assms obtain h where
    len: "4 \<le> length data" "?hl \<le> MAX_HEADER_JSON_LEN"
      "4 + ?hl + XCHACHA20_NONCE_LEN \<le> length data" "length data \<le> MAX_VAULT_FILE_SIZE"
    and h: "header_from_json X ?hj = Inr h" "validate_header h = Inr ()"
      "to_aad_bytes X h = Inr ?hj"
    and gap: "version h = LEGACY_VAULT_VERSION_1 \<Longrightarrow>
      4 + ?hl + XCHACHA20_NONCE_LEN + 8 \<le> length data"
    and env: "env = \<lparr>env_header = h, env_nonce = ?n,
      env_encrypted_index = drop (4 + ?hl + XCHACHA20_NONCE_LEN + legacy_gap h) data\<rparr>"
    by (auto simp: parse_envelope_def Let_def and_then_Inr_iff legacy_gap_def not_less
        split: if_splits)
  let ?gap = "take (legacy_gap h) ?tail"
  have "length ?hj = ?hl" using len by simp
  then have "u32_to_le (of_nat (length ?hj)) = take 4 data"
    using len(1) by (simp add: le32.enc_decode)
  moreover note split_fields [of 4 data ?hl XCHACHA20_NONCE_LEN "legacy_gap h"]
  ultimately have "data = u32_to_le (of_nat (length ?hj)) @ ?hj @ env_nonce env @ ?gap @
      env_encrypted_index env"
    by (simp add: env)
  with len h gap show thesis
    by (intro that [of ?hj ?gap])
      (auto simp: env to_aad_bytes_def validate_header_iff legacy_gap_def const_defs)
qed

lemma parse_envelope_layout:
  assumes hj: "header_to_json X h = Inr hj" "header_from_json X hj = Inr h"
    and "header_in_policy h" "length hj \<le> MAX_HEADER_JSON_LEN"
    and "length n = XCHACHA20_NONCE_LEN" "length gap = legacy_gap h"
    and data: "data = u32_to_le (of_nat (length hj)) @ hj @ n @ gap @ c"
    and "length data \<le> MAX_VAULT_FILE_SIZE"
  shows "parse_envelope X data =
    Inr \<lparr>env_header = h, env_nonce = n, env_encrypted_index = c\<rparr>"
proof -
  have hl: "unat (u32_from_le (take 4 data)) = length hj"
    using assms(4) by (simp add: data unat_u32_of_nat const_defs)
  have parts: "take (length hj) (drop 4 data) = hj"
    "take XCHACHA20_NONCE_LEN (drop (4 + length hj) data) = n"
    "drop (4 + length hj + XCHACHA20_NONCE_LEN + legacy_gap h) data = c"
    "length data = 4 + length hj + XCHACHA20_NONCE_LEN + legacy_gap h + length c"
    using assms(5,6) by (simp_all add: data)
  from assms(3) have "validate_header h = Inr ()" by (simp add: validate_header_iff)
  with hj hl parts assms(4,8) show ?thesis
    by (cases "version h = LEGACY_VAULT_VERSION_1")
      (simp_all add: parse_envelope_def to_aad_bytes_def Let_def legacy_gap_def ac_simps)
qed

lemma parse_envelope_err:
  assumes "json_laws X" "parse_envelope X data = Inl e"
  shows "is_corrupted e"
proof -
  have aad: "\<exists>b. to_aad_bytes X h = Inr b" if "header_from_json X hj = Inr h" for h hj
    using assms(1) that unfolding json_laws_def to_aad_bytes_def by fastforce
  from assms(2) show ?thesis
    by (auto simp: parse_envelope_def Let_def and_then_Inl_iff map_err_Inl_iff
        split: if_splits dest: validate_header_err aad)
qed

end
