(* ===== verification/Vault.thy ===== *)
theory Vault
  imports Envelope Utf8
begin

text \<open>
  The facade (\<open>src/vault/facade.rs\<close>): \<open>create\<close>, \<open>open\<close>, \<open>store\<close>, \<open>retrieve\<close>,
  \<open>with_secret\<close>, \<open>remove\<close>, \<open>export\<close>, \<open>change_password\<close> and \<open>rekey\<close>. An operation on
  \<open>&mut self\<close> returns its result, the vault afterwards and the process state afterwards, on
  every path: what the code has changed before an early return is changed in the model. A
  value that goes out of scope on a path drops its locked regions there.
\<close>

record vault =
  header :: vault_header
  index :: vault_index

section \<open>Keys\<close>

definition derive_master_key :: "'w externals \<Rightarrow> bytes \<Rightarrow> vault_header \<Rightarrow> vault_error + bytes" where
  "derive_master_key X password h =
     (if version h = LEGACY_VAULT_VERSION_1 then
        map_err (\<lambda>e. CryptoError (fmt ''Argon2i derivation failed: {}'' [e]))
          (argon2i_derive X password (kdf_salt h) (kdf_iterations h) (kdf_memory_cost h) KEY_LEN)
      else
        and_then (map_err (\<lambda>e. CryptoError (fmt ''Argon2id parameters: {}'' [e]))
          (argon2_params_new X (kdf_memory_cost h) (kdf_iterations h) 1 (Some KEY_LEN)))
        (\<lambda>params.
          map_err (\<lambda>e. CryptoError (fmt ''Argon2id derivation failed: {}'' [e]))
            (argon2id_hash X params password (kdf_salt h) KEY_LEN
              (argon2_block_count X params))))"

definition extract_enc_key :: "'w sys \<Rightarrow> locked_secret \<Rightarrow> vault_error + bytes" where
  "extract_enc_key s enc_secret =
     with_bytes s enc_secret (\<lambda>b.
       if length b \<noteq> 32
       then Inl (CryptoError (fmt ''encryption subkey is {} bytes, expected 32'' [dec (length b)]))
       else Inr b)"

definition verify_password ::
  "'w externals \<Rightarrow> vault \<Rightarrow> 'w sys \<Rightarrow> bytes \<Rightarrow> vault_error + unit" where
  "verify_password X v s password =
     and_then (derive_master_key X password (header v)) (\<lambda>master_key.
     and_then (map_err from_index_error
       (derive_subkeys X master_key (kdf_salt (header v)))) (\<lambda>(enc_sub, hmac_sub).
     with_bytes s (enc_key (index v)) (\<lambda>stored.
       if secure_cmp X stored enc_sub then Inr () else Inl InvalidPassword)))"

section \<open>Creating and reading\<close>

definition create ::
  "'w externals \<Rightarrow> bytes \<Rightarrow> 'w sys \<Rightarrow> (vault_error + vault) \<times> 'w sys" where
  "create X password s =
     (case validate_password password of
        Inl e \<Rightarrow> (Inl e, s)
      | Inr _ \<Rightarrow>
     (case vault_header_generate X s of
        (Inl e, s1) \<Rightarrow> (Inl e, s1)
      | (Inr h, s1) \<Rightarrow>
     (case derive_master_key X password h of
        Inl e \<Rightarrow> (Inl e, s1)
      | Inr master_key \<Rightarrow>
     (case from_master_key X master_key (kdf_salt h) s1 of
        (Inl e, s2) \<Rightarrow> (Inl (from_index_error e), s2)
      | (Inr idx, s2) \<Rightarrow> (Inr \<lparr>header = h, index = idx\<rparr>, s2)))))"

definition decrypt_secret ::
  "'w externals \<Rightarrow> vault \<Rightarrow> 'w sys \<Rightarrow> bytes \<Rightarrow> vault_error + bytes option" where
  "decrypt_secret X v s name =
     and_then (map_err from_index_error (hmac_key_for_name X s (index v) name)) (\<lambda>hkey.
     case lookup_by_key (index v) hkey of
       None \<Rightarrow> Inr None
     | Some entry \<Rightarrow>
         and_then (split_nonce (encrypted_data entry)) (\<lambda>(n, ciphertext).
         let entry_aad = build_entry_aad hkey (data_counter entry) in
         and_then (extract_enc_key s (enc_key (index v))) (\<lambda>enc_key_bytes.
         and_then (map_err from_aad_aead_error
           (open_with_aad X enc_key_bytes n ciphertext entry_aad)) (\<lambda>plaintext.
         Inr (Some plaintext)))))"

definition retrieve ::
  "'w externals \<Rightarrow> vault \<Rightarrow> 'w sys \<Rightarrow> bytes \<Rightarrow> vault_error + bytes option" where
  "retrieve X v s name = decrypt_secret X v s name"

definition with_secret ::
  "'w externals \<Rightarrow> vault \<Rightarrow> 'w sys \<Rightarrow> bytes \<Rightarrow> (bytes \<Rightarrow> 'r) \<Rightarrow> vault_error + 'r option" where
  "with_secret X v s name f =
     and_then (decrypt_secret X v s name) (\<lambda>found.
     case found of Some plaintext \<Rightarrow> Inr (Some (f plaintext)) | None \<Rightarrow> Inr None)"

section \<open>Storing and removing\<close>

text \<open>The part of \<open>store\<close> that encrypts, once the key, the counter and the nonces are drawn.\<close>

definition seal_entry ::
  "'w externals \<Rightarrow> 'w sys \<Rightarrow> locked_secret \<Rightarrow> bytes \<Rightarrow> u64 \<Rightarrow> bytes \<Rightarrow> bytes \<Rightarrow> bytes \<Rightarrow>
    bytes \<Rightarrow> vault_error + index_entry" where
  "seal_entry X s enc_secret hkey counter data_nonce name_nonce name plaintext =
     (let entry_aad = build_entry_aad hkey counter in
      and_then (extract_enc_key s enc_secret) (\<lambda>enc_key_bytes.
      and_then (map_err from_aad_aead_error
        (seal_with_aad X enc_key_bytes data_nonce plaintext entry_aad)) (\<lambda>ciphertext.
      and_then (map_err from_aad_aead_error
        (seal_with_aad X enc_key_bytes name_nonce name entry_aad)) (\<lambda>name_ct.
      Inr \<lparr>data_counter = counter, encrypted_name = name_nonce @ name_ct,
           encrypted_data = data_nonce @ ciphertext\<rparr>))))"

definition store ::
  "'w externals \<Rightarrow> vault \<Rightarrow> 'w sys \<Rightarrow> bytes \<Rightarrow> bytes \<Rightarrow>
    (vault_error + unit) \<times> vault \<times> 'w sys" where
  "store X v s name plaintext =
     (if MAX_ENTRY_NAME_LEN < length name then
        (Inl (InvalidInput (fmt ''Entry name too long: {} bytes (max {})''
          [dec (length name), dec MAX_ENTRY_NAME_LEN])), v, s)
      else if MAX_ENTRY_DATA_SIZE < length plaintext then
        (Inl (InvalidInput (fmt ''Entry data too large: {} bytes (max {})''
          [dec (length plaintext), dec MAX_ENTRY_DATA_SIZE])), v, s)
      else
     (case hmac_key_for_name X s (index v) name of
        Inl e \<Rightarrow> (Inl (from_index_error e), v, s)
      | Inr hkey \<Rightarrow>
     (case next_data_nonce_counter (index v) of
        (Inl e, idx1) \<Rightarrow> (Inl (from_index_error e), v\<lparr>index := idx1\<rparr>, s)
      | (Inr counter, idx1) \<Rightarrow>
     (case secure_bytes_fill X XCHACHA20_NONCE_LEN s of
        (Inl e, s1) \<Rightarrow> (Inl (from_random_error e), v\<lparr>index := idx1\<rparr>, s1)
      | (Inr data_nonce, s1) \<Rightarrow>
     (case secure_bytes_fill X XCHACHA20_NONCE_LEN s1 of
        (Inl e, s2) \<Rightarrow> (Inl (from_random_error e), v\<lparr>index := idx1\<rparr>, s2)
      | (Inr name_nonce, s2) \<Rightarrow>
     (case seal_entry X s2 (enc_key idx1) hkey counter data_nonce name_nonce name plaintext of
        Inl e \<Rightarrow> (Inl e, v\<lparr>index := idx1\<rparr>, s2)
      | Inr entry \<Rightarrow>
          (case insert_by_key idx1 hkey entry of
             (Inl e, idx2) \<Rightarrow> (Inl (from_index_error e), v\<lparr>index := idx2\<rparr>, s2)
           | (Inr _, idx2) \<Rightarrow> (Inr (), v\<lparr>index := idx2\<rparr>, s2))))))))"

definition remove ::
  "'w externals \<Rightarrow> vault \<Rightarrow> 'w sys \<Rightarrow> bytes \<Rightarrow> (vault_error + bool) \<times> vault" where
  "remove X v s name =
     (case hmac_key_for_name X s (index v) name of
        Inl e \<Rightarrow> (Inl (from_index_error e), v)
      | Inr hkey \<Rightarrow>
          (case remove_by_key (index v) hkey of
             (found, idx1) \<Rightarrow> (Inr (found \<noteq> None), v\<lparr>index := idx1\<rparr>)))"

section \<open>Exporting\<close>

definition export ::
  "'w externals \<Rightarrow> vault \<Rightarrow> 'w sys \<Rightarrow> (vault_error + bytes) \<times> vault \<times> 'w sys" where
  "export X v s =
     (case advance_nonce X (index v) s of
        (Inl e, idx1, s1) \<Rightarrow> (Inl (from_index_error e), v\<lparr>index := idx1\<rparr>, s1)
      | (Inr _, idx1, s1) \<Rightarrow>
          (and_then (map_err SerializationError (header_to_json X (header v))) (\<lambda>header_json.
           and_then (encode_index idx1) (\<lambda>index_bytes.
           and_then (extract_enc_key s1 (enc_key idx1)) (\<lambda>enc_key_bytes.
           and_then (to_aad_bytes X (header v)) (\<lambda>aad.
           and_then (map_err from_aad_aead_error
             (seal_with_aad X enc_key_bytes (nonce idx1) index_bytes aad)) (\<lambda>encrypted_index.
           let output = assemble_envelope header_json (nonce idx1) encrypted_index in
           and_then (validate_export_size (length output)) (\<lambda>_. Inr output)))))),
           v\<lparr>index := idx1\<rparr>, s1))"

section \<open>Changing the password\<close>

text \<open>What the loop of \<open>rekey\<close> reads from one entry: the name and the secret.\<close>

definition decrypt_entry ::
  "'w externals \<Rightarrow> bytes \<Rightarrow> bytes \<Rightarrow> index_entry \<Rightarrow> vault_error + bytes \<times> bytes" where
  "decrypt_entry X old_enc_key old_hmac_key entry =
     (let old_aad = build_entry_aad old_hmac_key (data_counter entry) in
     and_then (split_nonce (encrypted_name entry)) (\<lambda>(name_nonce, name_ct).
     and_then (map_err from_aad_aead_error
       (open_with_aad X old_enc_key name_nonce name_ct old_aad)) (\<lambda>name_bytes.
     and_then (if utf8_valid name_bytes then Inr name_bytes
       else Inl (CorruptedData ''Invalid entry name'')) (\<lambda>plaintext_name.
     and_then (split_nonce (encrypted_data entry)) (\<lambda>(data_nonce, data_ct).
     and_then (map_err from_aad_aead_error
       (open_with_aad X old_enc_key data_nonce data_ct old_aad)) (\<lambda>plaintext.
     Inr (plaintext_name, plaintext)))))))"

fun rekey_entries ::
  "'w externals \<Rightarrow> bytes \<Rightarrow> (bytes \<times> index_entry) list \<Rightarrow> vault \<Rightarrow> 'w sys \<Rightarrow>
    (vault_error + unit) \<times> vault \<times> 'w sys" where
  "rekey_entries X old_enc_key [] new_vault s = (Inr (), new_vault, s)"
| "rekey_entries X old_enc_key ((old_hmac_key, entry) # fs) new_vault s =
     (case decrypt_entry X old_enc_key old_hmac_key entry of
        Inl e \<Rightarrow> (Inl e, new_vault, s)
      | Inr (plaintext_name, plaintext) \<Rightarrow>
          (case store X new_vault s plaintext_name plaintext of
             (Inl e, new_vault1, s1) \<Rightarrow> (Inl e, new_vault1, s1)
           | (Inr _, new_vault1, s1) \<Rightarrow> rekey_entries X old_enc_key fs new_vault1 s1))"

definition rekey ::
  "'w externals \<Rightarrow> vault \<Rightarrow> 'w sys \<Rightarrow> bytes \<Rightarrow> (vault_error + unit) \<times> vault \<times> 'w sys" where
  "rekey X v s password =
     (case vault_header_generate X s of
        (Inl e, s1) \<Rightarrow> (Inl e, v, s1)
      | (Inr new_header, s1) \<Rightarrow>
     (case derive_master_key X password new_header of
        Inl e \<Rightarrow> (Inl e, v, s1)
      | Inr new_master_key \<Rightarrow>
     (case from_master_key X new_master_key (kdf_salt new_header) s1 of
        (Inl e, s2) \<Rightarrow> (Inl (from_index_error e), v, s2)
      | (Inr new_index, s2) \<Rightarrow>
     (let new_vault = \<lparr>header = new_header, index = new_index\<rparr> in
      case extract_enc_key s2 (enc_key (index v)) of
        Inl e \<Rightarrow> (Inl e, v, vault_index_drop X (index new_vault) s2)
      | Inr old_enc_key \<Rightarrow>
          (case rekey_entries X old_enc_key (files (index v)) new_vault s2 of
             (Inl e, new_vault1, s3) \<Rightarrow> (Inl e, v, vault_index_drop X (index new_vault1) s3)
           | (Inr _, new_vault1, s3) \<Rightarrow>
               (Inr (), v\<lparr>header := header new_vault1, index := index new_vault1\<rparr>,
                vault_index_drop X (index v) s3))))))"

definition change_password ::
  "'w externals \<Rightarrow> vault \<Rightarrow> 'w sys \<Rightarrow> bytes \<Rightarrow> bytes \<Rightarrow>
    (vault_error + unit) \<times> vault \<times> 'w sys" where
  "change_password X v s current_password new_password =
     (case validate_password new_password of
        Inl e \<Rightarrow> (Inl e, v, s)
      | Inr _ \<Rightarrow>
     (case verify_password X v s current_password of
        Inl e \<Rightarrow> (Inl e, v, s)
      | Inr _ \<Rightarrow> rekey X v s new_password))"

section \<open>Opening\<close>

text \<open>The part of \<open>open\<close> that decrypts and decodes the index, after key derivation.\<close>

definition open_index ::
  "'w externals \<Rightarrow> envelope \<Rightarrow> bytes \<Rightarrow> vault_error + index_data" where
  "open_index X env enc_sub =
     and_then (to_aad_bytes X (env_header env)) (\<lambda>aad.
     and_then (map_err (\<lambda>_. InvalidPassword)
       (open_with_aad X enc_sub (env_nonce env) (env_encrypted_index env) aad)) (\<lambda>index_bytes.
     if version (env_header env) = LEGACY_VAULT_VERSION_1
     then decode_index_v1 X index_bytes
     else decode_index index_bytes))"

definition open_vault ::
  "'w externals \<Rightarrow> bytes \<Rightarrow> bytes \<Rightarrow> 'w sys \<Rightarrow> (vault_error + vault) \<times> 'w sys" where
  "open_vault X password data s =
     (case parse_envelope X data of
        Inl e \<Rightarrow> (Inl e, s)
      | Inr env \<Rightarrow>
     (case derive_master_key X password (env_header env) of
        Inl e \<Rightarrow> (Inl e, s)
      | Inr master_key \<Rightarrow>
     (case derive_subkeys X master_key (kdf_salt (env_header env)) of
        Inl e \<Rightarrow> (Inl (from_index_error e), s)
      | Inr (enc_sub, hmac_sub) \<Rightarrow>
     (case open_index X env enc_sub of
        Inl e \<Rightarrow> (Inl e, s)
      | Inr idx_data \<Rightarrow>
     (case from_subkeys_and_data X enc_sub hmac_sub (env_nonce env)
          (idx_nonce_counter idx_data) (idx_data_nonce_counter idx_data)
          (idx_files idx_data) s of
        (Inl e, s1) \<Rightarrow> (Inl (from_index_error e), s1)
      | (Inr idx, s1) \<Rightarrow>
     (let v = \<lparr>header = env_header env, index = idx\<rparr> in
      if version (header v) = LEGACY_VAULT_VERSION_1 then
        (case rekey X v s1 password of
           (Inl e, v1, s2) \<Rightarrow> (Inl e, vault_index_drop X (index v1) s2)
         | (Inr _, v1, s2) \<Rightarrow> (Inr v1, s2))
      else (Inr v, s1)))))))"

end
