(* ===== verification/VaultFacts.thy ===== *)
theory VaultFacts
  imports Vault
begin

text \<open>
  Facts about the operations of the facade on one vault. \<open>vault_ok\<close> is the invariant every
  vault the library hands out satisfies: the two subkeys are live locked regions of 32 bytes,
  the header is a current one inside the policy, the index holds at most 1024 entries of
  admissible sizes under distinct hexadecimal keys, and every stored data counter is below
  the next one. \<open>unlocked_by\<close> relates a vault to a password. Each operation is characterised
  on its success and on its error paths.
\<close>

section \<open>The subkeys\<close>

definition keys_live :: "'w sys \<Rightarrow> vault_index \<Rightarrow> bytes \<Rightarrow> bytes \<Rightarrow> bool" where
  "keys_live s idx ek hk \<longleftrightarrow>
     secret_bytes s (enc_key idx) = Some ek \<and> secret_bytes s (hmac_key idx) = Some hk \<and>
     enc_key idx \<noteq> hmac_key idx \<and> length ek = SUBKEY_LEN \<and> length hk = SUBKEY_LEN"

text \<open>Derivation of both subkeys from a password and a header.\<close>

definition password_keys ::
  "'w externals \<Rightarrow> bytes \<Rightarrow> vault_header \<Rightarrow> vault_error + bytes \<times> bytes" where
  "password_keys X password h =
     and_then (derive_master_key X password h) (\<lambda>master_key.
       map_err from_index_error (derive_subkeys X master_key (kdf_salt h)))"

definition unlocked_by :: "'w externals \<Rightarrow> bytes \<Rightarrow> 'w sys \<Rightarrow> vault \<Rightarrow> bool" where
  "unlocked_by X password s v \<longleftrightarrow>
     (\<exists>ek hk. password_keys X password (header v) = Inr (ek, hk) \<and> keys_live s (index v) ek hk)"

text \<open>The HMAC key of a name under the bytes of the HMAC subkey.\<close>

definition name_key :: "'w externals \<Rightarrow> bytes \<Rightarrow> bytes \<Rightarrow> index_error + bytes" where
  "name_key X hk name =
     and_then (map_err (\<lambda>_. Crypto ''HMAC key invalid'') (hmac_secret_key X hk)) (\<lambda>key.
     and_then (map_err (\<lambda>_. Crypto ''HMAC failed'') (hmac_sha256 X key name)) (\<lambda>tag.
     Inr (key_to_hex tag)))"

lemma derive_subkeys_length:
  assumes "hash_laws X" "derive_subkeys X mk salt = Inr (a, b)"
  shows "length a = SUBKEY_LEN" "length b = SUBKEY_LEN"
  using assms unfolding derive_subkeys_def and_then_Inr_iff map_err_Inr_iff hash_laws_def
  by blast+

lemma keys_live_hmac:
  "keys_live s idx ek hk \<Longrightarrow> hmac_key_for_name X s idx name = name_key X hk name"
  unfolding keys_live_def hmac_key_for_name_def name_key_def
  by (cases "hmac_secret_key X hk") simp_all

lemma keys_live_enc: "keys_live s idx ek hk \<Longrightarrow> extract_enc_key s (enc_key idx) = Inr ek"
  by (simp add: keys_live_def extract_enc_key_def SUBKEY_LEN_def)

lemma keys_live_cong:
  assumes "heap s' = heap s" "enc_key idx' = enc_key idx" "hmac_key idx' = hmac_key idx"
  shows "keys_live s' idx' ek hk \<longleftrightarrow> keys_live s idx ek hk"
  using assms by (simp add: keys_live_def secret_bytes_def)

lemma name_key_hex:
  assumes "hash_laws X" "name_key X hk name = Inr k"
  shows "is_hex_key k"
proof -
  from assms(2) obtain key t where "hmac_sha256 X key name = Inr t" "k = key_to_hex t"
    by (auto simp: name_key_def and_then_Inr_iff)
  moreover from this assms(1) have "length t = ENTRY_KEY_LEN"
    unfolding hash_laws_def ENTRY_KEY_LEN_def by blast
  ultimately show ?thesis by (simp add: is_hex_key_key_to_hex)
qed

section \<open>The invariant\<close>

definition counters_ok :: "vault_index \<Rightarrow> bool" where
  "counters_ok idx \<longleftrightarrow> list_all (\<lambda>f. data_counter (snd f) < data_nonce_counter idx) (files idx)"

definition index_ok :: "vault_index \<Rightarrow> bool" where
  "index_ok idx \<longleftrightarrow>
     files_ok (files idx) \<and> counters_ok idx \<and> length (nonce idx) = XCHACHA20_NONCE_LEN"

definition vault_ok :: "'w sys \<Rightarrow> vault \<Rightarrow> bool" where
  "vault_ok s v \<longleftrightarrow>
     mem_ok s \<and> index_ok (index v) \<and> (\<exists>ek hk. keys_live s (index v) ek hk) \<and>
     header_in_policy (header v) \<and> version (header v) = VAULT_VERSION \<and>
     length (kdf_salt (header v)) = SALT_LEN"

lemma index_ok_map: "index_ok idx \<Longrightarrow> index_map_ok idx"
  by (simp add: index_ok_def files_ok_def index_map_ok_def)

lemma list_all_alist_update:
  assumes "list_all P fs" "P (k, e)"
  shows "list_all P (AList.update k e fs)"
  using assms by (induction fs) auto

lemma files_ok_update:
  assumes "files_ok fs" "is_hex_key k" "sizes_ok e"
    and "map_of fs k \<noteq> None \<or> length fs < MAX_INDEX_ENTRIES"
  shows "files_ok (AList.update k e fs)"
  using assms
  by (auto simp: files_ok_def distinct_update length_alist_update file_ok_def
      intro!: list_all_alist_update)

lemma set_alist_delete: "set (AList.delete k fs) \<subseteq> set fs"
  by (auto simp: AList.delete_eq)

lemma files_ok_delete:
  assumes "files_ok fs"
  shows "files_ok (AList.delete k fs)"
proof -
  have "length (AList.delete k fs) \<le> MAX_INDEX_ENTRIES"
    using assms length_delete_le [of k fs] by (simp add: files_ok_def)
  with assms set_alist_delete [of k fs] show ?thesis
    by (auto simp: files_ok_def distinct_delete list_all_iff)
qed

lemma fold_max_ge: "(c :: u64) \<le> fold max cs c \<and> (\<forall>x \<in> set cs. x \<le> fold max cs c)"
proof (induction cs arbitrary: c)
  case (Cons d cs)
  from Cons [of "max d c"] show ?case by (auto intro: order_trans [rotated])
qed simp

lemma fold_max_in: "fold max cs (c :: u64) \<in> insert c (set cs)"
proof (induction cs arbitrary: c)
  case (Cons d cs)
  from Cons [of "max d c"] show ?case by (auto simp: max_def split: if_splits)
qed simp

text \<open>The check of \<open>from_subkeys_and_data\<close> is the counter part of the invariant.\<close>

lemma max_data_counter_iff:
  "(case max_data_counter fs of None \<Rightarrow> True | Some m \<Rightarrow> m < d) \<longleftrightarrow>
     list_all (\<lambda>f. data_counter (snd f) < d) fs"
proof (cases fs)
  case Nil
  then show ?thesis by (simp add: max_data_counter_def)
next
  case (Cons f fs')
  let ?cs = "map (\<lambda>p. data_counter (snd p)) fs'" and ?c = "data_counter (snd f)"
  have "fold max ?cs ?c < d \<longleftrightarrow> (\<forall>x \<in> insert ?c (set ?cs). x < d)"
    using fold_max_ge [of ?c ?cs] fold_max_in [of ?cs ?c] by (auto dest: le_less_trans)
  then show ?thesis by (simp add: Cons max_data_counter_def list_all_iff)
qed

section \<open>Storing\<close>

text \<open>Everything that can happen to a vault and to the process state in \<open>store\<close>.\<close>

lemma counter_step:
  "next_data_nonce_counter idx = (Inr c, idx1) \<Longrightarrow>
     c = data_nonce_counter idx \<and> unat (data_nonce_counter idx) + 1 < 2 ^ 64 \<and>
     idx1 = idx\<lparr>data_nonce_counter := data_nonce_counter idx + 1\<rparr>"
  "next_data_nonce_counter idx = (Inl e, idx1) \<Longrightarrow>
     idx1 = idx \<and> e = CounterOverflow ''data nonce counter'' \<and>
     unat (data_nonce_counter idx) + 1 = 2 ^ 64"
  using unat_bound [of "data_nonce_counter idx"]
  by (auto simp: next_data_nonce_counter_def u64_checked_add_def Let_def split: if_splits)

lemma u64_suc_less: "unat (c :: u64) + 1 < 2 ^ 64 \<Longrightarrow> c < c + 1"
  by (simp add: word_less_nat_alt unat_word_ariths)

text \<open>
  \<open>sealed_entry\<close> says that an entry holds a name and a secret under a key and a counter: both
  ciphertexts are a 24-byte nonce and a sealing with the associated data of the entry.
\<close>

definition sealed_entry ::
  "'w externals \<Rightarrow> bytes \<Rightarrow> bytes \<Rightarrow> bytes \<Rightarrow> bytes \<Rightarrow> index_entry \<Rightarrow> bool" where
  "sealed_entry X ek k name plaintext e \<longleftrightarrow>
     (\<exists>n1 c1 n2 c2. length n1 = XCHACHA20_NONCE_LEN \<and> length n2 = XCHACHA20_NONCE_LEN \<and>
        encrypted_data e = n1 @ c1 \<and> encrypted_name e = n2 @ c2 \<and>
        seal_with_aad X ek n1 plaintext (build_entry_aad k (data_counter e)) = Inr c1 \<and>
        seal_with_aad X ek n2 name (build_entry_aad k (data_counter e)) = Inr c2)"

lemma sealed_entry_sizes:
  assumes "aead_laws X" "length ek = SUBKEY_LEN" "sealed_entry X ek k name plaintext e"
    and "length name \<le> MAX_ENTRY_NAME_LEN" "length plaintext \<le> MAX_ENTRY_DATA_SIZE"
  shows "sizes_ok e"
proof -
  from assms(3) obtain n1 c1 n2 c2 where
    n: "length n1 = XCHACHA20_NONCE_LEN" "length n2 = XCHACHA20_NONCE_LEN"
    and e: "encrypted_data e = n1 @ c1" "encrypted_name e = n2 @ c2"
    and c: "seal_with_aad X ek n1 plaintext (build_entry_aad k (data_counter e)) = Inr c1"
      "seal_with_aad X ek n2 name (build_entry_aad k (data_counter e)) = Inr c2"
    unfolding sealed_entry_def by blast
  have "length ek = 32" using assms(2) by (simp add: SUBKEY_LEN_def)
  from seal_with_aad_length [OF assms(1) this n(1) c(1)]
    seal_with_aad_length [OF assms(1) this n(2) c(2)] n assms(4,5)
  show ?thesis
    by (simp add: sizes_ok_def e MIN_ENCRYPTED_LEN_def MAX_ENCRYPTED_NAME_LEN_def
        MAX_ENCRYPTED_DATA_LEN_def)
qed

lemma secure_bytes_fill_ext:
  "secure_bytes_fill X n s = (r, s') \<Longrightarrow> \<exists>w. s' = s\<lparr>ext := w\<rparr>"
  by (cases s) (auto simp: secure_bytes_fill_def split: if_splits prod.splits option.splits)

lemma seal_entry_ok:
  assumes "extract_enc_key s es = Inr ek"
    and "length n1 = XCHACHA20_NONCE_LEN" "length n2 = XCHACHA20_NONCE_LEN"
    and "seal_entry X s es k c n1 n2 name p = Inr e"
  shows "sealed_entry X ek k name p e" "data_counter e = c"
proof -
  from assms(1,4) obtain x y where
    "seal_with_aad X ek n1 p (build_entry_aad k c) = Inr x"
    "seal_with_aad X ek n2 name (build_entry_aad k c) = Inr y"
    "e = \<lparr>data_counter = c, encrypted_name = n2 @ y, encrypted_data = n1 @ x\<rparr>"
    by (auto simp: seal_entry_def Let_def and_then_Inr_iff)
  with assms(2,3) show "data_counter e = c" "sealed_entry X ek k name p e"
    by (simp, unfold sealed_entry_def)
      (rule exI [of _ n1], rule exI [of _ x], rule exI [of _ n2], rule exI [of _ y], simp)
qed

lemma extract_enc_key_err: "extract_enc_key s k = Inl e \<Longrightarrow> is_crypto_error e"
  by (auto simp: extract_enc_key_def with_bytes_def split: if_splits)

lemma seal_entry_err: "seal_entry X s es k c n1 n2 name p = Inl e \<Longrightarrow> is_crypto_error e"
  by (auto simp: seal_entry_def Let_def and_then_Inl_iff map_err_Inl_iff from_aad_aead_error_def
      dest: extract_enc_key_err)

text \<open>The body of \<open>store\<close> after its checks, in the order of the code.\<close>

lemma store_body:
  assumes "length name \<le> MAX_ENTRY_NAME_LEN" "length p \<le> MAX_ENTRY_DATA_SIZE"
    and "hmac_key_for_name X s (index v) name = Inr k"
    and "next_data_nonce_counter (index v) = (Inr c, idx1)"
    and "secure_bytes_fill X XCHACHA20_NONCE_LEN s = (Inr n1, s1)"
    and "secure_bytes_fill X XCHACHA20_NONCE_LEN s1 = (Inr n2, s2)"
    and "seal_entry X s2 (enc_key idx1) k c n1 n2 name p = Inr e"
    and "insert_by_key idx1 k e = (r, idx2)"
  shows "store X v s name p = (map_err from_index_error r, v\<lparr>index := idx2\<rparr>, s2)"
  using assms by (cases r) (simp_all add: store_def)

lemma store_ok:
  assumes "rng_laws X" "keys_live s (index v) ek hk" "store X v s name p = (Inr u, v', s')"
  obtains k e where "name_key X hk name = Inr k" "sealed_entry X ek k name p e"
    "data_counter e = data_nonce_counter (index v)"
    "unat (data_nonce_counter (index v)) + 1 < 2 ^ 64"
    "length name \<le> MAX_ENTRY_NAME_LEN" "length p \<le> MAX_ENTRY_DATA_SIZE"
    "map_of (files (index v)) k \<noteq> None \<or> length (files (index v)) < MAX_INDEX_ENTRIES"
    "v' = v\<lparr>index := (index v)\<lparr>data_nonce_counter := data_nonce_counter (index v) + 1,
       files := AList.update k e (files (index v))\<rparr>\<rparr>"
    "\<exists>w. s' = s\<lparr>ext := w\<rparr>"
proof -
  let ?i = "index v"
  from assms(3) obtain k c idx1 n1 s1 n2 e idx2 where
    len: "length name \<le> MAX_ENTRY_NAME_LEN" "length p \<le> MAX_ENTRY_DATA_SIZE"
    and k: "hmac_key_for_name X s ?i name = Inr k"
    and c: "next_data_nonce_counter ?i = (Inr c, idx1)"
    and n1: "secure_bytes_fill X XCHACHA20_NONCE_LEN s = (Inr n1, s1)"
    and n2: "secure_bytes_fill X XCHACHA20_NONCE_LEN s1 = (Inr n2, s')"
    and e: "seal_entry X s' (enc_key idx1) k c n1 n2 name p = Inr e"
    and ins: "insert_by_key idx1 k e = (Inr (), idx2)" and v': "v' = v\<lparr>index := idx2\<rparr>"
    by (auto simp: store_def not_less split: if_splits prod.splits sum.splits)
  from counter_step(1) [OF c] have idx1: "c = data_nonce_counter ?i"
    "unat (data_nonce_counter ?i) + 1 < 2 ^ 64"
    "idx1 = ?i\<lparr>data_nonce_counter := data_nonce_counter ?i + 1\<rparr>" by auto
  from secure_bytes_fill_ext [OF n1] secure_bytes_fill_ext [OF n2]
  have s': "\<exists>w. s' = s\<lparr>ext := w\<rparr>" by auto
  then have "keys_live s' idx1 ek hk"
    using assms(2) by (auto simp: idx1(3) keys_live_def secret_bytes_def)
  from seal_entry_ok [OF keys_live_enc [OF this] _ _ e]
  have e': "sealed_entry X ek k name p e" "data_counter e = c"
    using secure_bytes_fill_length [OF assms(1) n1] secure_bytes_fill_length [OF assms(1) n2]
    by auto
  from ins have ins': "map_of (files ?i) k \<noteq> None \<or> length (files ?i) < MAX_INDEX_ENTRIES"
    "idx2 = idx1\<lparr>files := AList.update k e (files ?i)\<rparr>"
    by (auto simp: insert_by_key_def hm_insert_def idx1(3) split: if_splits)
  show thesis
    using k e' len s' ins'(1) idx1
    by (intro that [of k e]) (simp_all add: keys_live_hmac [OF assms(2)] v' ins'(2))
qed

lemma name_key_err: "hmac_key_for_name X s idx name = Inl e \<Longrightarrow> \<exists>m. e = Crypto m"
  by (auto simp: hmac_key_for_name_def with_bytes_def and_then_Inl_iff map_err_Inl_iff)

text \<open>
  A failing \<open>store\<close> leaves every entry as it was; at most a counter value is used up. The
  error is \<open>InvalidInput\<close> or \<open>CryptoError\<close>.
\<close>

lemma store_err:
  assumes "store X v s name p = (Inl e, v', s')"
  shows "\<exists>w. s' = s\<lparr>ext := w\<rparr>"
    "v' = v \<or> unat (data_nonce_counter (index v)) + 1 < 2 ^ 64 \<and>
       v' = v\<lparr>index := (index v)\<lparr>data_nonce_counter := data_nonce_counter (index v) + 1\<rparr>\<rparr>"
    "is_invalid_input e \<or> is_crypto_error e"
proof -
  have same: "\<exists>w. s = s\<lparr>ext := w\<rparr>" by (rule exI [of _ "ext s"]) simp
  show "\<exists>w. s' = s\<lparr>ext := w\<rparr>"
    using assms same
    by (auto simp: store_def split: if_splits prod.splits sum.splits dest!: secure_bytes_fill_ext)
  show "v' = v \<or> unat (data_nonce_counter (index v)) + 1 < 2 ^ 64 \<and>
       v' = v\<lparr>index := (index v)\<lparr>data_nonce_counter := data_nonce_counter (index v) + 1\<rparr>\<rparr>"
    using assms
    by (auto simp: store_def insert_by_key_def split: if_splits prod.splits sum.splits
        dest!: counter_step)
  show "is_invalid_input e \<or> is_crypto_error e"
    using assms
    by (auto simp: store_def insert_by_key_def from_random_error_def
        split: if_splits prod.splits sum.splits
        dest!: counter_step(2) name_key_err dest: seal_entry_err)
qed

section \<open>Reading\<close>

text \<open>Decryption of one field of an entry, and what a read returns, from the key bytes alone.\<close>

definition open_blob ::
  "'w externals \<Rightarrow> bytes \<Rightarrow> bytes \<Rightarrow> bytes \<Rightarrow> vault_error + bytes" where
  "open_blob X ek aad blob =
     and_then (split_nonce blob) (\<lambda>(n, c). map_err from_aad_aead_error (open_with_aad X ek n c aad))"

definition read_secret ::
  "'w externals \<Rightarrow> bytes \<Rightarrow> bytes \<Rightarrow> (bytes \<times> index_entry) list \<Rightarrow> bytes \<Rightarrow>
    vault_error + bytes option" where
  "read_secret X ek hk fs name =
     and_then (map_err from_index_error (name_key X hk name)) (\<lambda>k.
     case map_of fs k of
       None \<Rightarrow> Inr None
     | Some e \<Rightarrow> and_then (open_blob X ek (build_entry_aad k (data_counter e)) (encrypted_data e))
         (\<lambda>p. Inr (Some p)))"

lemma decrypt_secret_eq:
  assumes "keys_live s (index v) ek hk"
  shows "decrypt_secret X v s name = read_secret X ek hk (files (index v)) name"
proof (cases "name_key X hk name")
  case (Inl e)
  then show ?thesis by (simp add: decrypt_secret_def read_secret_def keys_live_hmac [OF assms])
next
  case (Inr k)
  show ?thesis
  proof (cases "map_of (files (index v)) k")
    case None
    with Inr show ?thesis
      by (simp add: decrypt_secret_def read_secret_def keys_live_hmac [OF assms] lookup_by_key_def)
  next
    case (Some e)
    with Inr show ?thesis
      by (cases "split_nonce (encrypted_data e)")
        (simp_all add: decrypt_secret_def read_secret_def keys_live_hmac [OF assms]
          lookup_by_key_def keys_live_enc [OF assms] open_blob_def Let_def split: prod.splits)
  qed
qed

lemma open_blob_sealed:
  assumes "aead_laws X" "length ek = SUBKEY_LEN" "sealed_entry X ek k name p e"
  shows "open_blob X ek (build_entry_aad k (data_counter e)) (encrypted_data e) = Inr p"
    and "open_blob X ek (build_entry_aad k (data_counter e)) (encrypted_name e) = Inr name"
proof -
  have ek: "length ek = 32" using assms(2) by (simp add: SUBKEY_LEN_def)
  from assms(3) obtain n1 c1 n2 c2 where
    n: "length n1 = XCHACHA20_NONCE_LEN" "length n2 = XCHACHA20_NONCE_LEN"
    and e: "encrypted_data e = n1 @ c1" "encrypted_name e = n2 @ c2"
    and c: "seal_with_aad X ek n1 p (build_entry_aad k (data_counter e)) = Inr c1"
      "seal_with_aad X ek n2 name (build_entry_aad k (data_counter e)) = Inr c2"
    unfolding sealed_entry_def by blast
  have split: "split_nonce (encrypted_data e) = Inr (n1, c1)"
    "split_nonce (encrypted_name e) = Inr (n2, c2)"
    using n by (simp_all add: split_nonce_Inr_iff e)
  show "open_blob X ek (build_entry_aad k (data_counter e)) (encrypted_data e) = Inr p"
    "open_blob X ek (build_entry_aad k (data_counter e)) (encrypted_name e) = Inr name"
    using open_seal_with_aad [OF assms(1) ek n(1) c(1)] open_seal_with_aad [OF assms(1) ek n(2) c(2)]
    by (simp_all add: open_blob_def split)
qed

lemma read_sealed:
  assumes "aead_laws X" "length ek = SUBKEY_LEN" "sealed_entry X ek k name p e"
    and "name_key X hk n = Inr k" "map_of fs k = Some e"
  shows "read_secret X ek hk fs n = Inr (Some p)"
  using assms(4,5) open_blob_sealed(1) [OF assms(1-3)] by (simp add: read_secret_def)

text \<open>A read depends on the entry under the key of the name only.\<close>

lemma read_secret_cong:
  assumes "\<And>k. name_key X hk n = Inr k \<Longrightarrow> map_of fs k = map_of fs' k"
  shows "read_secret X ek hk fs n = read_secret X ek hk fs' n"
  using assms by (cases "name_key X hk n") (simp_all add: read_secret_def)

text \<open>What is read opens under the associated data of the entry: there is no other source.\<close>

lemma read_secret_SomeD:
  assumes "read_secret X ek hk fs n = Inr (Some p)"
  obtains k e where "name_key X hk n = Inr k" "map_of fs k = Some e"
    "open_blob X ek (build_entry_aad k (data_counter e)) (encrypted_data e) = Inr p"
  using assms by (auto simp: read_secret_def and_then_Inr_iff split: option.splits)

section \<open>Effects of \<open>store\<close> and \<open>remove\<close>\<close>

definition same_names_apart ::
  "'w externals \<Rightarrow> bytes \<Rightarrow> bytes \<Rightarrow> bytes \<Rightarrow> bool" where
  "same_names_apart X hk a b \<longleftrightarrow>
     (\<forall>k. name_key X hk a = Inr k \<longrightarrow> name_key X hk b = Inr k \<longrightarrow> a = b)"

lemma keys_live_ext: "\<exists>w. s' = s\<lparr>ext := w\<rparr> \<Longrightarrow>
    enc_key i' = enc_key i \<Longrightarrow> hmac_key i' = hmac_key i \<Longrightarrow>
    keys_live s' i' ek hk \<longleftrightarrow> keys_live s i ek hk"
  by (rule keys_live_cong) auto

lemma store_keys:
  assumes "store X v s name p = (r, v', s')"
  shows "keys_live s' (index v') ek hk \<longleftrightarrow> keys_live s (index v) ek hk"
    "header v' = header v" "\<exists>w. s' = s\<lparr>ext := w\<rparr>"
proof -
  have *: "enc_key (index v') = enc_key (index v) \<and> hmac_key (index v') = hmac_key (index v) \<and>
      header v' = header v"
    using assms
    by (auto simp: store_def insert_by_key_def split: if_splits prod.splits sum.splits
        dest!: counter_step)
  show w: "\<exists>w. s' = s\<lparr>ext := w\<rparr>"
    using assms exI [of "\<lambda>w. s = s\<lparr>ext := w\<rparr>" "ext s"]
    by (auto simp: store_def split: if_splits prod.splits sum.splits dest!: secure_bytes_fill_ext)
  show "keys_live s' (index v') ek hk \<longleftrightarrow> keys_live s (index v) ek hk" "header v' = header v"
    using keys_live_ext [OF w] * by simp_all
qed

lemma counters_ok_less:
  "list_all (\<lambda>f. data_counter (snd f) < d) fs \<Longrightarrow> d < d' \<Longrightarrow>
     list_all (\<lambda>f. data_counter (snd f) < d') fs"
  by (erule list.pred_mono_strong) (erule order.strict_trans)

lemma store_index_ok:
  assumes "rng_laws X" "aead_laws X" "hash_laws X" "keys_live s (index v) ek hk"
    and "index_ok (index v)" "store X v s name p = (r, v', s')"
  shows "index_ok (index v')"
proof (cases r)
  case (Inl e)
  from store_err(2) [OF assms(6) [unfolded Inl]] show ?thesis
  proof
    assume "unat (data_nonce_counter (index v)) + 1 < 2 ^ 64 \<and>
      v' = v\<lparr>index := (index v)\<lparr>data_nonce_counter := data_nonce_counter (index v) + 1\<rparr>\<rparr>"
    with assms(5) u64_suc_less [of "data_nonce_counter (index v)"] show ?thesis
      by (auto simp: index_ok_def counters_ok_def intro: counters_ok_less)
  qed (use assms(5) in simp)
next
  case (Inr u)
  
  obtain k e where
    k: "name_key X hk name = Inr k" and e: "sealed_entry X ek k name p e"
    and c: "data_counter e = data_nonce_counter (index v)"
    and d: "unat (data_nonce_counter (index v)) + 1 < 2 ^ 64"
    and len: "length name \<le> MAX_ENTRY_NAME_LEN" "length p \<le> MAX_ENTRY_DATA_SIZE"
    and room: "map_of (files (index v)) k \<noteq> None \<or> length (files (index v)) < MAX_INDEX_ENTRIES"
    and v': "v' = v\<lparr>index := (index v)\<lparr>data_nonce_counter := data_nonce_counter (index v) + 1,
       files := AList.update k e (files (index v))\<rparr>\<rparr>"
    and "\<exists>w. s' = s\<lparr>ext := w\<rparr>"
    by (rule store_ok [OF assms(1,4) assms(6) [unfolded Inr]])
  have "length ek = SUBKEY_LEN" using assms(4) by (simp add: keys_live_def)
  from sealed_entry_sizes [OF assms(2) this e len] have "sizes_ok e" .
  with name_key_hex [OF assms(3) k] room assms(5)
  have "files_ok (AList.update k e (files (index v)))"
    by (simp add: files_ok_update index_ok_def)
  moreover have "list_all (\<lambda>f. data_counter (snd f) < (data_nonce_counter (index v)) + 1) (AList.update k e (files (index v)))"
    using assms(5) u64_suc_less [OF d]
    by (intro list_all_alist_update)
      (auto simp only: index_ok_def counters_ok_def c snd_conv intro: counters_ok_less)
  ultimately show ?thesis
    using assms(5) by (simp add: index_ok_def counters_ok_def v')
qed

lemma store_vault_ok:
  assumes "ext_laws X" "vault_ok s v" "store X v s name p = (r, v', s')"
  shows "vault_ok s' v'"
proof -
  from assms(2) obtain ek hk where live: "keys_live s (index v) ek hk"
    by (auto simp: vault_ok_def)
  have "index_ok (index v')"
    using store_index_ok [OF _ _ _ live _ assms(3)] ext_lawsD [OF assms(1)] assms(2)
    by (simp add: vault_ok_def)
  moreover have "mem_ok s'" using store_keys(3) [OF assms(3)] assms(2)
    by (auto simp: vault_ok_def mem_ok_def)
  moreover have "keys_live s' (index v') ek hk" using live store_keys(1) [OF assms(3)] by blast
  ultimately show ?thesis using assms(2) store_keys(2) [OF assms(3)]
    by (auto simp: vault_ok_def)
qed

lemma store_read_same:
  assumes "ext_laws X" "keys_live s (index v) ek hk" "store X v s name p = (Inr u, v', s')"
  shows "read_secret X ek hk (files (index v')) name = Inr (Some p)"
proof -
  obtain k e where
    k: "name_key X hk name = Inr k" and e: "sealed_entry X ek k name p e"
    and c: "data_counter e = data_nonce_counter (index v)"
    and d: "unat (data_nonce_counter (index v)) + 1 < 2 ^ 64"
    and len: "length name \<le> MAX_ENTRY_NAME_LEN" "length p \<le> MAX_ENTRY_DATA_SIZE"
    and room: "map_of (files (index v)) k \<noteq> None \<or> length (files (index v)) < MAX_INDEX_ENTRIES"
    and v': "v' = v\<lparr>index := (index v)\<lparr>data_nonce_counter := data_nonce_counter (index v) + 1,
       files := AList.update k e (files (index v))\<rparr>\<rparr>"
    and "\<exists>w. s' = s\<lparr>ext := w\<rparr>"
    by (rule store_ok [OF ext_lawsD(1) [OF assms(1)] assms(2,3)])
  have "length ek = SUBKEY_LEN" using assms(2) by (simp add: keys_live_def)
  with e k show ?thesis
    by (intro read_sealed [OF ext_lawsD(3) [OF assms(1)]]) (auto simp: v' update_conv')
qed

lemma store_read_other:
  assumes "ext_laws X" "keys_live s (index v) ek hk" "store X v s name p = (r, v', s')"
    and "same_names_apart X hk name n" "n \<noteq> name \<or> (\<exists>e. r = Inl e)"
  shows "read_secret X ek hk (files (index v')) n = read_secret X ek hk (files (index v)) n"
proof (cases r)
  case (Inl e)
  with store_err(2) [of X v s name p e v' s'] assms(3) have "files (index v') = files (index v)"
    by auto
  then show ?thesis by simp
next
  case (Inr u)
  obtain k e where
    k: "name_key X hk name = Inr k" and e: "sealed_entry X ek k name p e"
    and c: "data_counter e = data_nonce_counter (index v)"
    and d: "unat (data_nonce_counter (index v)) + 1 < 2 ^ 64"
    and len: "length name \<le> MAX_ENTRY_NAME_LEN" "length p \<le> MAX_ENTRY_DATA_SIZE"
    and room: "map_of (files (index v)) k \<noteq> None \<or> length (files (index v)) < MAX_INDEX_ENTRIES"
    and v': "v' = v\<lparr>index := (index v)\<lparr>data_nonce_counter := data_nonce_counter (index v) + 1,
       files := AList.update k e (files (index v))\<rparr>\<rparr>"
    and "\<exists>w. s' = s\<lparr>ext := w\<rparr>"
    by (rule store_ok [OF ext_lawsD(1) [OF assms(1)] assms(2) assms(3) [unfolded Inr]])
  show ?thesis
  proof (rule read_secret_cong)
    fix k' assume "name_key X hk n = Inr k'"
    with k assms(4,5) Inr have "k' \<noteq> k" by (auto simp: same_names_apart_def)
    then show "map_of (files (index v')) k' = map_of (files (index v)) k'"
      by (simp add: v' update_conv')
  qed
qed

lemma remove_cases:
  assumes "keys_live s (index v) ek hk" "remove X v s name = (r, v')"
  obtains (err) e where "name_key X hk name = Inl e" "r = Inl (from_index_error e)" "v' = v"
  | (ok) k where "name_key X hk name = Inr k" "r = Inr (map_of (files (index v)) k \<noteq> None)"
      "v' = v\<lparr>index := (index v)\<lparr>files := AList.delete k (files (index v))\<rparr>\<rparr>"
proof (cases "name_key X hk name")
  case (Inl e)
  with assms show thesis
    by (intro err) (auto simp: remove_def keys_live_hmac [OF assms(1)])
next
  case (Inr k)
  show thesis
  proof (cases "map_of (files (index v)) k")
    case None
    then have "AList.delete k (files (index v)) = files (index v)"
      by (simp add: delete_id map_of_eq_None_iff)
    with None Inr assms(2) show thesis
      by (intro ok) (auto simp: remove_def remove_by_key_def keys_live_hmac [OF assms(1)])
  next
    case (Some e)
    with Inr assms(2) show thesis
      by (intro ok) (auto simp: remove_def remove_by_key_def keys_live_hmac [OF assms(1)])
  qed
qed

lemma remove_index_ok:
  assumes "keys_live s (index v) ek hk" "index_ok (index v)" "remove X v s name = (r, v')"
  shows "index_ok (index v')"
  using assms(1,3)
proof (cases rule: remove_cases)
  case (ok k)
  with assms(2) show ?thesis
    using files_ok_delete [of "files (index v)" k] set_alist_delete [of k "files (index v)"]
    by (auto simp: index_ok_def counters_ok_def list_all_iff)
qed (use assms(2) in simp)

lemma remove_keys:
  assumes "remove X v s name = (r, v')"
  shows "keys_live s (index v') ek hk \<longleftrightarrow> keys_live s (index v) ek hk" "header v' = header v"
    "data_nonce_counter (index v') = data_nonce_counter (index v)"
    "nonce_counter (index v') = nonce_counter (index v)"
  using assms
  by (auto simp: remove_def remove_by_key_def keys_live_def split: prod.splits sum.splits option.splits)

lemma remove_vault_ok:
  assumes "vault_ok s v" "remove X v s name = (r, v')"
  shows "vault_ok s v'"
proof -
  from assms(1) obtain ek hk where live: "keys_live s (index v) ek hk"
    by (auto simp: vault_ok_def)
  moreover from live have "keys_live s (index v') ek hk" using remove_keys(1) [OF assms(2)] by blast
  ultimately show ?thesis
    using assms(1) remove_index_ok [OF live _ assms(2)] remove_keys(2) [OF assms(2)]
    by (auto simp: vault_ok_def)
qed

lemma remove_read:
  assumes "keys_live s (index v) ek hk" "remove X v s name = (Inr b, v')"
  shows "read_secret X ek hk (files (index v')) name = Inr None"
    and "b \<longleftrightarrow> read_secret X ek hk (files (index v)) name \<noteq> Inr None"
    and "same_names_apart X hk name n \<Longrightarrow> n \<noteq> name \<Longrightarrow>
      read_secret X ek hk (files (index v')) n = read_secret X ek hk (files (index v)) n"
proof -
  obtain k where k: "name_key X hk name = Inr k"
    and b: "b \<longleftrightarrow> map_of (files (index v)) k \<noteq> None"
    and v': "v' = v\<lparr>index := (index v)\<lparr>files := AList.delete k (files (index v))\<rparr>\<rparr>"
    using assms by (cases rule: remove_cases) auto
  show "read_secret X ek hk (files (index v')) name = Inr None"
    using k by (simp add: read_secret_def v' delete_conv')
  show "b \<longleftrightarrow> read_secret X ek hk (files (index v)) name \<noteq> Inr None"
    using k b by (auto simp: read_secret_def and_then_Inr_iff split: option.splits)
  show "read_secret X ek hk (files (index v')) n = read_secret X ek hk (files (index v)) n"
    if "same_names_apart X hk name n" "n \<noteq> name"
  proof (rule read_secret_cong)
    fix k' assume "name_key X hk n = Inr k'"
    with k that have "k' \<noteq> k" by (auto simp: same_names_apart_def)
    then show "map_of (files (index v')) k' = map_of (files (index v)) k'"
      by (simp add: v' delete_conv')
  qed
qed

end
