(* ===== verification/Lifecycle.thy ===== *)
theory Lifecycle
  imports VaultFacts
begin

text \<open>
  Facts about the operations that make a vault and write one out: \<open>create\<close>, \<open>export\<close> and the
  part of \<open>open\<close> for the current format. The process memory is followed through every path: a
  success adds the two locked regions of the new vault to the live ones, a failure leaves the
  live regions as they were.
\<close>

section \<open>A fresh index\<close>

lemma secret_bytes_ext [simp]: "secret_bytes (s\<lparr>ext := w\<rparr>) = secret_bytes s"
  by (simp add: secret_bytes_def fun_eq_iff)

lemma mem_ok_ext [simp]: "mem_ok (s\<lparr>ext := w\<rparr>) = mem_ok s"
  by (simp add: mem_ok_def)

text \<open>The live regions of \<open>s'\<close> are those of \<open>s\<close> and the two of the index \<open>idx\<close>.\<close>

definition adds_keys ::
  "'w sys \<Rightarrow> vault_index \<Rightarrow> bytes \<Rightarrow> bytes \<Rightarrow> 'w sys \<Rightarrow> bool" where
  "adds_keys s idx ek hk s' \<longleftrightarrow>
     mem_ok s' \<and> keys_live s' idx ek hk \<and>
     secret_bytes s (enc_key idx) = None \<and> secret_bytes s (hmac_key idx) = None \<and>
     secret_bytes s' = (secret_bytes s)(enc_key idx \<mapsto> ek, hmac_key idx \<mapsto> hk) \<and>
     released s' = released s"

lemma lock_subkeys_adds:
  assumes "memsec_laws X" "mem_ok s" "lock_subkeys X a b s = (Inr (ek, hk), s')"
    and "length a = SUBKEY_LEN" "length b = SUBKEY_LEN" "enc_key idx = ek" "hmac_key idx = hk"
  shows "adds_keys s idx a b s'"
  using lock_subkeys_ok [OF assms(1-3)] assms(4-) by (simp add: adds_keys_def keys_live_def)

lemma from_master_key_ok:
  assumes "ext_laws X" "mem_ok s" "from_master_key X mk salt s = (Inr idx, s')"
  obtains ek hk where "derive_subkeys X mk salt = Inr (ek, hk)" "adds_keys s idx ek hk s'"
    "index_ok idx" "files idx = []" "nonce_counter idx = 0" "data_nonce_counter idx = 0"
proof -
  from assms(3) obtain a b n s1 ek hk where
    sub: "derive_subkeys X mk salt = Inr (a, b)"
    and n: "secure_bytes_fill X XCHACHA20_NONCE_LEN s = (Inr n, s1)"
    and lock: "lock_subkeys X a b s1 = (Inr (ek, hk), s')"
    and idx: "idx = \<lparr>nonce = n, nonce_counter = 0, data_nonce_counter = 0, files = [],
      enc_key = ek, hmac_key = hk\<rparr>"
    by (auto simp: from_master_key_def split: prod.splits sum.splits)
  from secure_bytes_fill_ext [OF n] obtain w where s1: "s1 = s\<lparr>ext := w\<rparr>" by blast
  have len: "length a = SUBKEY_LEN" "length b = SUBKEY_LEN"
    using derive_subkeys_length [OF ext_lawsD(4) [OF assms(1)] sub] by simp_all
  have "mem_ok s1" using assms(2) by (simp add: s1)
  from lock_subkeys_adds [OF ext_lawsD(2) [OF assms(1)] this lock len, of idx]
  have "adds_keys s1 idx a b s'" by (simp add: idx)
  then have "adds_keys s idx a b s'" by (simp add: adds_keys_def s1)
  moreover have "index_ok idx"
    using secure_bytes_fill_length [OF ext_lawsD(1) [OF assms(1)] n]
    by (simp add: index_ok_def files_ok_def counters_ok_def idx)
  ultimately show thesis using sub by (intro that [of a b]) (simp_all add: idx)
qed

lemma from_master_key_err:
  assumes "ext_laws X" "mem_ok s" "from_master_key X mk salt s = (Inl e, s')"
  shows "mem_ok s' \<and> secret_bytes s' = secret_bytes s"
proof (cases "derive_subkeys X mk salt")
  case (Inl d)
  with assms(2,3) show ?thesis by (simp add: from_master_key_def)
next
  case (Inr ab)
  obtain a b where ab: "ab = (a, b)" by (cases ab)
  obtain r s1 where n: "secure_bytes_fill X XCHACHA20_NONCE_LEN s = (r, s1)" by fastforce
  from secure_bytes_fill_ext [OF n] obtain w where s1: "s1 = s\<lparr>ext := w\<rparr>" by blast
  have "mem_ok s1" using assms(2) by (simp add: s1)
  with lock_subkeys_err [OF ext_lawsD(2) [OF assms(1)], of s1 a b e s'] assms(2,3) Inr ab n
  show ?thesis
    by (auto simp: from_master_key_def s1 split: prod.splits sum.splits)
qed

section \<open>\<open>create\<close>\<close>

lemma vault_header_generate_ext:
  "vault_header_generate X s = (r, s') \<Longrightarrow> \<exists>w. s' = s\<lparr>ext := w\<rparr>"
  by (auto simp: vault_header_generate_def dest: secure_bytes_fill_ext
      split: prod.splits sum.splits)

text \<open>What a fresh vault for a password is: also what \<open>rekey\<close> starts from.\<close>

definition fresh_vault ::
  "'w externals \<Rightarrow> bytes \<Rightarrow> 'w sys \<Rightarrow> vault \<Rightarrow> bytes \<Rightarrow> bytes \<Rightarrow> 'w sys \<Rightarrow> bool" where
  "fresh_vault X password s v ek hk s' \<longleftrightarrow>
     generated_header (header v) \<and> password_keys X password (header v) = Inr (ek, hk) \<and>
     adds_keys s (index v) ek hk s' \<and> index_ok (index v) \<and> files (index v) = [] \<and>
     nonce_counter (index v) = 0 \<and> data_nonce_counter (index v) = 0"

lemma fresh_vaultI:
  assumes "ext_laws X" "mem_ok s" "vault_header_generate X s = (Inr h, s1)"
    and "derive_master_key X password h = Inr mk"
    and "from_master_key X mk (kdf_salt h) s1 = (Inr idx, s2)"
  obtains ek hk where "fresh_vault X password s \<lparr>header = h, index = idx\<rparr> ek hk s2"
proof -
  from vault_header_generate_ext [OF assms(3)] obtain w where s1: "s1 = s\<lparr>ext := w\<rparr>" by blast
  then have "mem_ok s1" using assms(2) by simp
  then obtain ek hk where "derive_subkeys X mk (kdf_salt h) = Inr (ek, hk)"
    "adds_keys s1 idx ek hk s2" "index_ok idx" "files idx = []" "nonce_counter idx = 0"
    "data_nonce_counter idx = 0"
    by (rule from_master_key_ok [OF assms(1) _ assms(5)])
  with assms(4) vault_header_generate_ok [OF ext_lawsD(1) [OF assms(1)] assms(3)] show thesis
    by (intro that [of ek hk]) (simp_all add: fresh_vault_def password_keys_def adds_keys_def s1)
qed

lemma fresh_vault_ok:
  assumes "fresh_vault X password s v ek hk s'"
  shows "vault_ok s' v" "unlocked_by X password s' v"
  using assms generated_header_in_policy [of "header v"] generated_header_version [of "header v"]
    generated_header_salt [of "header v"]
  by (auto simp: fresh_vault_def vault_ok_def unlocked_by_def adds_keys_def)

lemma create_ok:
  assumes "ext_laws X" "mem_ok s" "create X password s = (Inr v, s')"
  obtains ek hk where "fresh_vault X password s v ek hk s'" "MIN_PASSWORD_LEN \<le> length password"
proof -
  from assms(3) obtain h s1 mk idx where
    "validate_password password = Inr ()" "vault_header_generate X s = (Inr h, s1)"
    "derive_master_key X password h = Inr mk"
    "from_master_key X mk (kdf_salt h) s1 = (Inr idx, s')" "v = \<lparr>header = h, index = idx\<rparr>"
    by (auto simp: create_def split: prod.splits sum.splits)
  then show thesis
    using fresh_vaultI [OF assms(1,2)] that
    by (metis validate_password_def Inl_not_Inr not_less)
qed

lemma create_err:
  assumes "ext_laws X" "mem_ok s" "create X password s = (Inl e, s')"
  shows "mem_ok s' \<and> secret_bytes s' = secret_bytes s"
proof (cases "validate_password password")
  case (Inl d)
  with assms show ?thesis by (simp add: create_def)
next
  case (Inr u)
  obtain r s1 where g: "vault_header_generate X s = (r, s1)" by fastforce
  from vault_header_generate_ext [OF g] obtain w where s1: "s1 = s\<lparr>ext := w\<rparr>" by blast
  have "mem_ok s1" using assms(2) by (simp add: s1)
  with from_master_key_err [OF assms(1), of s1] assms(2,3) Inr g show ?thesis
    by (fastforce simp: create_def s1 split: prod.splits sum.splits)
qed

section \<open>\<open>export\<close>\<close>

lemma advance_nonce_ok:
  assumes "advance_nonce X idx s = (Inr u, idx', s')"
  obtains n where "unat (nonce_counter idx) + 1 < 2 ^ 64"
    "idx' = idx\<lparr>nonce := n, nonce_counter := nonce_counter idx + 1\<rparr>"
    "secure_bytes_fill X XCHACHA20_NONCE_LEN s = (Inr n, s')"
  using assms
  by (auto simp: advance_nonce_def u64_checked_add_def Let_def split: if_splits prod.splits sum.splits)

lemma advance_nonce_err:
  assumes "advance_nonce X idx s = (Inl e, idx', s')"
  shows "idx' = idx \<or> unat (nonce_counter idx) + 1 < 2 ^ 64 \<and>
      idx' = idx\<lparr>nonce_counter := nonce_counter idx + 1\<rparr>"
    "\<exists>w. s' = s\<lparr>ext := w\<rparr>" "is_crypto_error (from_index_error e)"
proof -
  have same: "\<exists>w. s = s\<lparr>ext := w\<rparr>" by (rule exI [of _ "ext s"]) simp
  show "idx' = idx \<or> unat (nonce_counter idx) + 1 < 2 ^ 64 \<and>
      idx' = idx\<lparr>nonce_counter := nonce_counter idx + 1\<rparr>"
    "\<exists>w. s' = s\<lparr>ext := w\<rparr>" "is_crypto_error (from_index_error e)"
    using assms same
    by (auto simp: advance_nonce_def u64_checked_add_def Let_def
        dest: secure_bytes_fill_ext split: if_splits prod.splits sum.splits)
qed

text \<open>The part of \<open>export\<close> after the nonce has been advanced.\<close>

lemma export_ok:
  assumes "ext_laws X" "index_ok (index v)" "keys_live s (index v) ek hk"
    and "export X v s = (Inr out, v', s')"
  obtains hj n c where "unat (nonce_counter (index v)) + 1 < 2 ^ 64"
    "v' = v\<lparr>index := (index v)\<lparr>nonce := n, nonce_counter := nonce_counter (index v) + 1\<rparr>\<rparr>"
    "length n = XCHACHA20_NONCE_LEN" "header_to_json X (header v) = Inr hj"
    "seal_with_aad X ek n (index_layout (nonce_counter (index v) + 1)
       (data_nonce_counter (index v)) (files (index v))) hj = Inr c"
    "out = assemble_envelope hj n c" "length out \<le> MAX_VAULT_FILE_SIZE"
    "\<exists>w. s' = s\<lparr>ext := w\<rparr>"
proof -
  from assms(4) obtain idx1 where adv: "advance_nonce X (index v) s = (Inr (), idx1, s')"
    and v': "v' = v\<lparr>index := idx1\<rparr>"
    by (auto simp: export_def split: prod.splits sum.splits)
  from adv obtain n where
    nc: "unat (nonce_counter (index v)) + 1 < 2 ^ 64"
    and idx1: "idx1 = (index v)\<lparr>nonce := n, nonce_counter := nonce_counter (index v) + 1\<rparr>"
    and n: "secure_bytes_fill X XCHACHA20_NONCE_LEN s = (Inr n, s')"
    by (rule advance_nonce_ok)
  from secure_bytes_fill_ext [OF n] have w: "\<exists>w. s' = s\<lparr>ext := w\<rparr>" .
  have live: "keys_live s' idx1 ek hk"
    using assms(3) keys_live_ext [OF w, of idx1 "index v"] by (simp add: idx1)
  have enc: "encode_index idx1 = Inr (index_layout (nonce_counter (index v) + 1)
      (data_nonce_counter (index v)) (files (index v)))"
    using encode_index_ok [of idx1] assms(2) by (simp add: index_ok_def idx1)
  have nn: "nonce idx1 = n" by (simp add: idx1)
  from assms(4) adv obtain hj c where "header_to_json X (header v) = Inr hj"
    "seal_with_aad X ek n (index_layout (nonce_counter (index v) + 1)
       (data_nonce_counter (index v)) (files (index v))) hj = Inr c"
    "out = assemble_envelope hj n c" "length out \<le> MAX_VAULT_FILE_SIZE"
    by (auto simp: export_def Let_def and_then_Inr_iff enc keys_live_enc [OF live] to_aad_bytes_def
        validate_export_size_def nn not_less split: if_splits)
  with nc w secure_bytes_fill_length [OF ext_lawsD(1) [OF assms(1)] n] show thesis
    by (intro that [of n hj c]) (simp_all add: v' idx1)
qed

lemma export_effect:
  assumes "export X v s = (r, v', s')"
  shows "header v' = header v" "files (index v') = files (index v)"
    "data_nonce_counter (index v') = data_nonce_counter (index v)"
    "enc_key (index v') = enc_key (index v)" "hmac_key (index v') = hmac_key (index v)"
    "nonce_counter (index v') = nonce_counter (index v) \<or>
       nonce_counter (index v') = nonce_counter (index v) + 1 \<and>
       unat (nonce_counter (index v)) + 1 < 2 ^ 64"
    "\<exists>w. s' = s\<lparr>ext := w\<rparr>"
proof -
  obtain a idx1 s1 where adv: "advance_nonce X (index v) s = (a, idx1, s1)"
    by (cases "advance_nonce X (index v) s") auto
  with assms have v': "v' = v\<lparr>index := idx1\<rparr>" "s' = s1"
    by (auto simp: export_def split: sum.splits)
  have "header v' = header v \<and> files (index v') = files (index v) \<and>
    data_nonce_counter (index v') = data_nonce_counter (index v) \<and>
    enc_key (index v') = enc_key (index v) \<and> hmac_key (index v') = hmac_key (index v) \<and>
    (nonce_counter (index v') = nonce_counter (index v) \<or>
       nonce_counter (index v') = nonce_counter (index v) + 1 \<and>
       unat (nonce_counter (index v)) + 1 < 2 ^ 64) \<and> (\<exists>w. s' = s\<lparr>ext := w\<rparr>)"
  proof (cases a)
    case (Inl e)
    from advance_nonce_err [OF adv [unfolded Inl]] show ?thesis by (auto simp: v')
  next
    case (Inr u)
    from advance_nonce_ok [OF adv [unfolded Inr]] obtain n where
      "unat (nonce_counter (index v)) + 1 < 2 ^ 64"
      "idx1 = (index v)\<lparr>nonce := n, nonce_counter := nonce_counter (index v) + 1\<rparr>"
      "secure_bytes_fill X XCHACHA20_NONCE_LEN s = (Inr n, s1)" .
    then show ?thesis by (auto simp: v' dest: secure_bytes_fill_ext)
  qed
  then show "header v' = header v" "files (index v') = files (index v)"
    "data_nonce_counter (index v') = data_nonce_counter (index v)"
    "enc_key (index v') = enc_key (index v)" "hmac_key (index v') = hmac_key (index v)"
    "nonce_counter (index v') = nonce_counter (index v) \<or>
       nonce_counter (index v') = nonce_counter (index v) + 1 \<and>
       unat (nonce_counter (index v)) + 1 < 2 ^ 64"
    "\<exists>w. s' = s\<lparr>ext := w\<rparr>" by simp_all
qed

lemma export_nonce_length:
  assumes "rng_laws X" "length (nonce (index v)) = XCHACHA20_NONCE_LEN"
    and "export X v s = (r, v', s')"
  shows "length (nonce (index v')) = XCHACHA20_NONCE_LEN"
proof -
  obtain a idx1 s1 where adv: "advance_nonce X (index v) s = (a, idx1, s1)"
    by (cases "advance_nonce X (index v) s") auto
  with assms(3) have v': "index v' = idx1" by (auto simp: export_def split: sum.splits)
  show ?thesis
  proof (cases a)
    case (Inl e)
    from advance_nonce_err(1) [OF adv [unfolded Inl]] assms(2) show ?thesis by (auto simp: v')
  next
    case (Inr u)
    from advance_nonce_ok [OF adv [unfolded Inr]] obtain n where
      "idx1 = (index v)\<lparr>nonce := n, nonce_counter := nonce_counter (index v) + 1\<rparr>"
      "secure_bytes_fill X XCHACHA20_NONCE_LEN s = (Inr n, s1)" .
    with secure_bytes_fill_length [OF assms(1)] show ?thesis by (simp add: v')
  qed
qed

lemma export_vault_ok:
  assumes "ext_laws X" "vault_ok s v" "export X v s = (r, v', s')"
  shows "vault_ok s' v'"
proof -
  note eff = export_effect [OF assms(3)]
  have "index_ok (index v')"
    using assms(2) export_nonce_length [OF ext_lawsD(1) [OF assms(1)] _ assms(3)] eff(2,3)
    by (simp add: vault_ok_def index_ok_def counters_ok_def)
  moreover have "keys_live s' (index v') ek hk" if "keys_live s (index v) ek hk" for ek hk
    using that keys_live_ext [OF eff(7) eff(4,5)] by simp
  moreover have "mem_ok s'" using assms(2) eff(7) by (auto simp: vault_ok_def)
  ultimately show ?thesis using assms(2) eff(1) by (auto simp: vault_ok_def)
qed

section \<open>\<open>open\<close>\<close>

text \<open>
  What \<open>open\<close> accepts: an envelope whose index opens under the key derived from the password
  and decodes, with every stored counter below the next one.
\<close>

definition opens_to ::
  "'w externals \<Rightarrow> bytes \<Rightarrow> bytes \<Rightarrow> envelope \<Rightarrow> bytes \<Rightarrow> bytes \<Rightarrow> index_data \<Rightarrow> bool" where
  "opens_to X password data env ek hk d \<longleftrightarrow>
     parse_envelope X data = Inr env \<and> password_keys X password (env_header env) = Inr (ek, hk) \<and>
     open_index X env ek = Inr d \<and>
     list_all (\<lambda>f. data_counter (snd f) < idx_data_nonce_counter d) (idx_files d)"

text \<open>The vault \<open>open\<close> builds from it, before a possible upgrade.\<close>

definition loaded_vault ::
  "envelope \<Rightarrow> index_data \<Rightarrow> locked_secret \<Rightarrow> locked_secret \<Rightarrow> vault" where
  "loaded_vault env d ek hk =
     \<lparr>header = env_header env,
      index = \<lparr>nonce = env_nonce env, nonce_counter = idx_nonce_counter d,
        data_nonce_counter = idx_data_nonce_counter d, files = idx_files d,
        enc_key = ek, hmac_key = hk\<rparr>\<rparr>"

lemma password_keys_length:
  assumes "hash_laws X" "password_keys X password h = Inr (ek, hk)"
  shows "length ek = SUBKEY_LEN" "length hk = SUBKEY_LEN"
  using assms derive_subkeys_length [OF assms(1)]
  by (auto simp: password_keys_def and_then_Inr_iff)

text \<open>\<open>from_subkeys_and_data\<close> succeeds only on consistent counters.\<close>

lemma from_subkeys_and_data_eq:
  "from_subkeys_and_data X es hs n nc dc fs s =
     (if list_all (\<lambda>f. data_counter (snd f) < dc) fs then
        (case lock_subkeys X es hs s of
           (Inl e, s1) \<Rightarrow> (Inl e, s1)
         | (Inr (ek, hk), s1) \<Rightarrow>
             (Inr \<lparr>nonce = n, nonce_counter = nc, data_nonce_counter = dc, files = fs,
                   enc_key = ek, hmac_key = hk\<rparr>, s1))
      else (Inl (Inconsistent (fmt
         ''data_nonce_counter ({}) must exceed the largest stored data_counter ({})''
         [dec (unat dc), dec (unat (the (max_data_counter fs)))])), s))"
  using max_data_counter_iff [where fs = fs and d = dc]
  by (auto simp: from_subkeys_and_data_def Let_def not_less split: option.splits)

lemma open_index_files_ok:
  assumes "json_laws X" "open_index X env ek = Inr d"
  shows "files_ok (idx_files d)"
  using assms decode_index_v1_files_ok [OF assms(1)] decode_index_inv(1)
  by (auto simp: open_index_def and_then_Inr_iff split: if_splits)

lemma open_vault_rejects:
  assumes "\<not> (\<exists>env ek hk d. opens_to X password data env ek hk d)"
  obtains e where "open_vault X password data s = (Inl e, s)"
proof (cases "parse_envelope X data")
  case (Inl e)
  then show thesis by (intro that) (simp add: open_vault_def)
next
  case env: (Inr env)
  show thesis
  proof (cases "password_keys X password (env_header env)")
    case (Inl e)
    with env show thesis
      by (intro that [of e])
        (auto simp: open_vault_def password_keys_def and_then_Inl_iff map_err_Inl_iff)
  next
    case (Inr ks)
    obtain ek hk where ks: "ks = (ek, hk)" by (cases ks)
    with Inr obtain mk where mk: "derive_master_key X password (env_header env) = Inr mk"
      "derive_subkeys X mk (kdf_salt (env_header env)) = Inr (ek, hk)"
      by (auto simp: password_keys_def and_then_Inr_iff)
    show thesis
    proof (cases "open_index X env ek")
      case (Inl e)
      with env mk show thesis by (intro that [of e]) (simp add: open_vault_def)
    next
      case d: (Inr d)
      with assms env Inr ks
      have "\<not> list_all (\<lambda>f. data_counter (snd f) < idx_data_nonce_counter d) (idx_files d)"
        by (auto simp: opens_to_def)
      with env mk d show thesis
        by (intro that) (auto simp: open_vault_def from_subkeys_and_data_eq)
    qed
  qed
qed

lemma open_vault_loads:
  assumes "opens_to X password data env ek hk d"
  shows "open_vault X password data s =
    (case lock_subkeys X ek hk s of
       (Inl e, s1) \<Rightarrow> (Inl (from_index_error e), s1)
     | (Inr (es, hs), s1) \<Rightarrow>
         (let v = loaded_vault env d es hs in
          if version (env_header env) = LEGACY_VAULT_VERSION_1 then
            (case rekey X v s1 password of
               (Inl e, v1, s2) \<Rightarrow> (Inl e, vault_index_drop X (index v1) s2)
             | (Inr _, v1, s2) \<Rightarrow> (Inr v1, s2))
          else (Inr v, s1)))"
proof -
  from assms obtain mk where "derive_master_key X password (env_header env) = Inr mk"
    "derive_subkeys X mk (kdf_salt (env_header env)) = Inr (ek, hk)"
    by (auto simp: opens_to_def password_keys_def and_then_Inr_iff)
  with assms show ?thesis
    by (cases "lock_subkeys X ek hk s")
      (auto simp: opens_to_def open_vault_def from_subkeys_and_data_eq loaded_vault_def Let_def
        split: sum.splits)
qed

lemma loaded_vault_index_ok:
  assumes "ext_laws X" "opens_to X password data env ek hk d"
  shows "index_ok (index (loaded_vault env d es hs))"
proof -
  from assms(2) have "parse_envelope X data = Inr env" "open_index X env ek = Inr d"
    "list_all (\<lambda>f. data_counter (snd f) < idx_data_nonce_counter d) (idx_files d)"
    by (simp_all add: opens_to_def)
  with open_index_files_ok [OF ext_lawsD(5) [OF assms(1)]] show ?thesis
    by (auto simp: index_ok_def counters_ok_def loaded_vault_def elim: parse_envelope_inv)
qed

lemma loaded_vault_ok:
  assumes "ext_laws X" "mem_ok s" "opens_to X password data env ek hk d"
    and "lock_subkeys X ek hk s = (Inr (es, hs), s1)"
  defines "v \<equiv> loaded_vault env d es hs"
  shows "adds_keys s (index v) ek hk s1" "unlocked_by X password s1 v" "index_ok (index v)"
    "version (header v) \<noteq> LEGACY_VAULT_VERSION_1 \<Longrightarrow> vault_ok s1 v"
proof -
  from assms(3) have env: "parse_envelope X data = Inr env"
    and keys: "password_keys X password (env_header env) = Inr (ek, hk)"
    by (simp_all add: opens_to_def)
  note len = password_keys_length [OF ext_lawsD(4) [OF assms(1)] keys]
  show adds: "adds_keys s (index v) ek hk s1"
    by (rule lock_subkeys_adds [OF ext_lawsD(2) [OF assms(1)] assms(2,4) len])
      (simp_all add: v_def loaded_vault_def)
  show idx: "index_ok (index v)"
    unfolding v_def by (rule loaded_vault_index_ok [OF assms(1,3)])
  show "unlocked_by X password s1 v"
    using adds keys by (auto simp: unlocked_by_def adds_keys_def v_def loaded_vault_def)
  assume v2: "version (header v) \<noteq> LEGACY_VAULT_VERSION_1"
  from env obtain hj where "header_from_json X hj = Inr (env_header env)"
    "header_in_policy (env_header env)" by (rule parse_envelope_inv)
  moreover from this(1) ext_lawsD(5) [OF assms(1)]
  have "length (kdf_salt (env_header env)) = SALT_LEN" by (auto simp: json_laws_def)
  ultimately show "vault_ok s1 v"
    using adds idx v2 by (auto simp: vault_ok_def adds_keys_def v_def loaded_vault_def
        header_in_policy_def)
qed

text \<open>What \<open>export\<close> wrote is accepted, and stands for the header, counters and entries written.\<close>

lemma export_opens_to:
  assumes "ext_laws X" "vault_ok s v" "password_keys X password (header v) = Inr (ek, hk)"
    and "keys_live s (index v) ek hk" "export X v s = (Inr out, v', s')"
  shows "opens_to X password out
    \<lparr>env_header = header v, env_nonce = nonce (index v'),
     env_encrypted_index = drop (4 + length (projr (header_to_json X (header v))) +
       XCHACHA20_NONCE_LEN) out\<rparr> ek hk
    \<lparr>idx_nonce_counter = nonce_counter (index v) + 1,
     idx_data_nonce_counter = data_nonce_counter (index v), idx_files = files (index v)\<rparr>"
proof -
  have idx: "index_ok (index v)" and pol: "header_in_policy (header v)"
    and ver: "version (header v) = VAULT_VERSION" and salt: "length (kdf_salt (header v)) = SALT_LEN"
    using assms(2) by (simp_all add: vault_ok_def)
  obtain hj n c where
    v': "v' = v\<lparr>index := (index v)\<lparr>nonce := n, nonce_counter := nonce_counter (index v) + 1\<rparr>\<rparr>"
    and n: "length n = XCHACHA20_NONCE_LEN" and hj: "header_to_json X (header v) = Inr hj"
    and c: "seal_with_aad X ek n (index_layout (nonce_counter (index v) + 1)
       (data_nonce_counter (index v)) (files (index v))) hj = Inr c"
    and out: "out = assemble_envelope hj n c" "length out \<le> MAX_VAULT_FILE_SIZE"
    by (rule export_ok [OF assms(1) idx assms(4,5)])
  obtain hj' where "header_to_json X (header v) = Inr hj'" "length hj' \<le> MAX_HEADER_JSON_LEN"
    "header_from_json X hj' = Inr (header v)"
    by (rule to_aad_bytes_ok [OF ext_lawsD(5) [OF assms(1)] salt])
  with hj have json: "header_from_json X hj = Inr (header v)" "length hj \<le> MAX_HEADER_JSON_LEN"
    by simp_all
  let ?env = "\<lparr>env_header = header v, env_nonce = n, env_encrypted_index = c\<rparr>"
  have drop: "drop (4 + length hj + XCHACHA20_NONCE_LEN) out = c"
    using n by (simp add: out assemble_envelope_def)
  have gap: "legacy_gap (header v) = 0" by (simp add: legacy_gap_def ver const_defs)
  have env: "parse_envelope X out = Inr ?env"
    using out(2)
    by (intro parse_envelope_layout [OF hj json(1) pol json(2) n, of "[]"])
      (simp_all add: gap out(1) assemble_envelope_def)
  have ek: "length ek = 32" using assms(4) by (simp add: keys_live_def SUBKEY_LEN_def)
  have "open_index X ?env ek = decode_index (index_layout (nonce_counter (index v) + 1)
      (data_nonce_counter (index v)) (files (index v)))"
    using open_seal_with_aad [OF ext_lawsD(3) [OF assms(1)] ek n c] ver
    by (simp add: open_index_def to_aad_bytes_def hj const_defs)
  with decode_index_layout [of "files (index v)"] idx env assms(3) show ?thesis
    by (simp add: opens_to_def index_ok_def counters_ok_def v' hj drop)
qed

end
