(* ===== verification/Rekeying.thy ===== *)
theory Rekeying
  imports Lifecycle
begin

text \<open>
  Facts about \<open>rekey\<close> and \<open>change_password\<close>: a failure leaves the vault and the live regions
  as they were, a success moves every entry under keys derived from the new password and
  wipes the old keys. They complete the facts about \<open>open\<close>, which upgrades a version 1 vault
  by re-keying it.
\<close>

section \<open>Re-encrypting the entries\<close>

lemma rekey_entries_frame:
  assumes "rekey_entries X oek fs w s = (r, w', s')"
  shows "header w' = header w \<and> (\<exists>x. s' = s\<lparr>ext := x\<rparr>) \<and>
    enc_key (index w') = enc_key (index w) \<and> hmac_key (index w') = hmac_key (index w)"
  using assms
proof (induction fs arbitrary: w s)
  case Nil
  then show ?case using exI [of "\<lambda>x. s = s\<lparr>ext := x\<rparr>" "ext s"] by auto
next
  case (Cons f fs)
  obtain k e where f: "f = (k, e)" by (cases f)
  show ?case
  proof (cases "decrypt_entry X oek k e")
    case (Inl d)
    with Cons.prems show ?thesis using exI [of "\<lambda>x. s = s\<lparr>ext := x\<rparr>" "ext s"] by (auto simp: f)
  next
    case (Inr np)
    obtain n p where np: "np = (n, p)" by (cases np)
    obtain q w1 s1 where st: "store X w s n p = (q, w1, s1)" by (cases "store X w s n p") auto
    have keys: "enc_key (index w1) = enc_key (index w) \<and> hmac_key (index w1) = hmac_key (index w)"
      using st by (auto simp: store_def insert_by_key_def split: if_splits prod.splits sum.splits
          dest!: counter_step)
    show ?thesis
    proof (cases q)
      case (Inl d)
      with Cons.prems Inr st store_keys(2,3) [OF st] keys show ?thesis by (simp add: f np)
    next
      case (Inr u)
      with Cons.prems \<open>decrypt_entry X oek k e = Inr np\<close> st
      have "rekey_entries X oek fs w1 s1 = (r, w', s')" by (simp add: f np)
      from Cons.IH [OF this] store_keys(2,3) [OF st] keys show ?thesis by auto
    qed
  qed
qed

lemma rekey_entries_nonce:
  "rekey_entries X oek fs w s = (r, w', s') \<Longrightarrow>
     nonce_counter (index w') = nonce_counter (index w)"
proof (induction fs arbitrary: w s)
  case (Cons f fs)
  obtain k e where f: "f = (k, e)" by (cases f)
  have step: "nonce_counter (index w1) = nonce_counter (index w)"
    if "store X w s n p = (q, w1, s1)" for n p q w1 s1
    using that by (auto simp: store_def insert_by_key_def dest!: counter_step
        split: if_splits prod.splits sum.splits)
  with Cons show ?case by (auto simp: f split: sum.splits prod.splits)
qed simp

text \<open>Every entry was written by \<open>store\<close> under these keys.\<close>

definition all_sealed ::
  "'w externals \<Rightarrow> bytes \<Rightarrow> bytes \<Rightarrow> (bytes \<times> index_entry) list \<Rightarrow> bool" where
  "all_sealed X ek hk fs \<longleftrightarrow>
     (\<forall>f \<in> set fs. \<exists>n p. name_key X hk n = Inr (fst f) \<and> sealed_entry X ek (fst f) n p (snd f))"

definition names_apart :: "'w externals \<Rightarrow> bytes \<Rightarrow> bytes set \<Rightarrow> bool" where
  "names_apart X hk N \<longleftrightarrow>
     (\<forall>n \<in> N. \<exists>k. name_key X hk n = Inr k) \<and>
     (\<forall>a \<in> N. \<forall>b \<in> N. name_key X hk a = name_key X hk b \<longrightarrow> a = b)"

lemma names_apart_same:
  "names_apart X hk N \<Longrightarrow> a \<in> N \<Longrightarrow> b \<in> N \<Longrightarrow> same_names_apart X hk a b"
  by (auto simp: names_apart_def same_names_apart_def)

lemma store_all_sealed:
  assumes "ext_laws X" "keys_live s (index v) ek hk" "distinct (map fst (files (index v)))"
    and "all_sealed X ek hk (files (index v))" "store X v s name p = (r, v', s')"
  shows "all_sealed X ek hk (files (index v'))"
proof (cases r)
  case (Inl e)
  with store_err(2) [of X v s name p e v' s'] assms(4,5) show ?thesis by auto
next
  case (Inr u)
  obtain k e where k: "name_key X hk name = Inr k" "sealed_entry X ek k name p e"
    and "data_counter e = data_nonce_counter (index v)"
    and "unat (data_nonce_counter (index v)) + 1 < 2 ^ 64"
    and "length name \<le> MAX_ENTRY_NAME_LEN" "length p \<le> MAX_ENTRY_DATA_SIZE"
    and "map_of (files (index v)) k \<noteq> None \<or> length (files (index v)) < MAX_INDEX_ENTRIES"
    and v': "v' = v\<lparr>index := (index v)\<lparr>data_nonce_counter := data_nonce_counter (index v) + 1,
       files := AList.update k e (files (index v))\<rparr>\<rparr>"
    and "\<exists>w. s' = s\<lparr>ext := w\<rparr>"
    by (rule store_ok [OF ext_lawsD(1) [OF assms(1)] assms(2) assms(5) [unfolded Inr]])
  with assms(4) show ?thesis
    by (auto simp: all_sealed_def v' set_alist_update [OF assms(3)])
qed

lemma remove_all_sealed:
  assumes "keys_live s (index v) ek hk" "all_sealed X ek hk (files (index v))"
    and "remove X v s name = (r, v')"
  shows "all_sealed X ek hk (files (index v'))"
  using assms(1,3)
proof (cases rule: remove_cases)
  case (ok k)
  with assms(2) set_alist_delete [of k "files (index v)"] show ?thesis
    by (auto simp: all_sealed_def)
qed (use assms(2) in simp)

text \<open>The entries \<open>fs\<close> decrypt, in order, to the names and secrets \<open>ps\<close>.\<close>

definition decrypts_to ::
  "'w externals \<Rightarrow> bytes \<Rightarrow> (bytes \<times> index_entry) list \<Rightarrow> (bytes \<times> bytes) list \<Rightarrow> bool" where
  "decrypts_to X oek fs ps \<longleftrightarrow>
     list_all2 (\<lambda>f np. decrypt_entry X oek (fst f) (snd f) = Inr np) fs ps"

lemma rekey_entries_ok:
  assumes "ext_laws X" "keys_live s (index w) ek hk" "index_ok (index w)"
    and "all_sealed X ek hk (files (index w))"
    and "rekey_entries X oek fs w s = (Inr u, w', s')"
  shows "\<exists>ps. decrypts_to X oek fs ps \<and> index_ok (index w') \<and>
    all_sealed X ek hk (files (index w')) \<and>
    unat (data_nonce_counter (index w')) = unat (data_nonce_counter (index w)) + length fs \<and>
    (\<forall>N. names_apart X hk N \<longrightarrow> fst ` set ps \<subseteq> N \<longrightarrow>
       (\<forall>n \<in> N. read_secret X ek hk (files (index w')) n =
          (case map_of (rev ps) n of Some p \<Rightarrow> Inr (Some p)
           | None \<Rightarrow> read_secret X ek hk (files (index w)) n)))"
  using assms(2-)
proof (induction fs arbitrary: w s)
  case Nil
  then show ?case by (auto simp: decrypts_to_def intro!: exI [of _ "[]"])
next
  case (Cons f fs)
  obtain k e where f: "f = (k, e)" by (cases f)
  note laws = ext_lawsD [OF assms(1)]
  from Cons.prems(4) obtain n p w1 s1 where
    d: "decrypt_entry X oek k e = Inr (n, p)" and st: "store X w s n p = (Inr (), w1, s1)"
    and rec: "rekey_entries X oek fs w1 s1 = (Inr u, w', s')"
    by (auto simp: f split: sum.splits prod.splits)
  have live: "keys_live s1 (index w1) ek hk" using Cons.prems(1) store_keys(1) [OF st] by blast
  have ok: "index_ok (index w1)"
    by (rule store_index_ok [OF laws(1,3,4) Cons.prems(1,2) st])
  have dist: "distinct (map fst (files (index w)))"
    using Cons.prems(2) by (simp add: index_ok_def files_ok_def)
  have sealed: "all_sealed X ek hk (files (index w1))"
    by (rule store_all_sealed [OF assms(1) Cons.prems(1) dist Cons.prems(3) st])
  have cnt: "unat (data_nonce_counter (index w1)) = Suc (unat (data_nonce_counter (index w)))"
    by (rule store_ok [OF laws(1) Cons.prems(1) st]) (simp add: unat_word_ariths)
  from Cons.IH [OF live ok sealed rec] obtain ps where ps: "decrypts_to X oek fs ps"
    "index_ok (index w')" "all_sealed X ek hk (files (index w'))"
    "unat (data_nonce_counter (index w')) = unat (data_nonce_counter (index w1)) + length fs"
    and reads: "\<And>N. names_apart X hk N \<Longrightarrow> fst ` set ps \<subseteq> N \<Longrightarrow>
      \<forall>n \<in> N. read_secret X ek hk (files (index w')) n =
        (case map_of (rev ps) n of Some p \<Rightarrow> Inr (Some p)
         | None \<Rightarrow> read_secret X ek hk (files (index w1)) n)" by blast
  have "\<forall>m \<in> N. read_secret X ek hk (files (index w')) m =
      (case map_of (rev ((n, p) # ps)) m of Some p \<Rightarrow> Inr (Some p)
       | None \<Rightarrow> read_secret X ek hk (files (index w)) m)"
    if N: "names_apart X hk N" "fst ` set ((n, p) # ps) \<subseteq> N" for N
  proof
    fix m assume m: "m \<in> N"
    have n: "n \<in> N" using N(2) by simp
    have "read_secret X ek hk (files (index w1)) m =
        (if m = n then Inr (Some p) else read_secret X ek hk (files (index w)) m)"
      using store_read_same [OF assms(1) Cons.prems(1) st]
        store_read_other [OF assms(1) Cons.prems(1) st names_apart_same [OF N(1) n m]] by auto
    with reads [OF N(1)] N(2) m show "read_secret X ek hk (files (index w')) m =
      (case map_of (rev ((n, p) # ps)) m of Some p \<Rightarrow> Inr (Some p)
       | None \<Rightarrow> read_secret X ek hk (files (index w)) m)"
      by (auto simp: map_add_def split: option.splits)
  qed
  with ps cnt d show ?case
    by (intro exI [of _ "(n, p) # ps"]) (auto simp: decrypts_to_def f)
qed

section \<open>\<open>rekey\<close>\<close>

text \<open>Dropping an index that owns the only regions added since \<open>s\<close> restores the live regions.\<close>

lemma adds_keys_drop:
  assumes "memsec_laws X" "adds_keys s idx ek hk s1" "\<exists>w. s2 = s1\<lparr>ext := w\<rparr>"
    and "enc_key idx' = enc_key idx" "hmac_key idx' = hmac_key idx"
  shows "mem_ok (vault_index_drop X idx' s2)"
    "secret_bytes (vault_index_drop X idx' s2) = secret_bytes s"
proof -
  from assms(2,3) have ok: "mem_ok s2"
    and sb: "secret_bytes s2 = (secret_bytes s)(enc_key idx \<mapsto> ek, hmac_key idx \<mapsto> hk)"
    and fresh: "secret_bytes s (enc_key idx) = None" "secret_bytes s (hmac_key idx) = None"
    by (auto simp: adds_keys_def)
  from vault_index_drop_effect [OF assms(1) ok, of idx'] fresh
  show "mem_ok (vault_index_drop X idx' s2)"
    "secret_bytes (vault_index_drop X idx' s2) = secret_bytes s"
    by (auto simp: sb assms(4,5) fun_eq_iff)
qed

text \<open>The stages of \<open>rekey\<close> that can fail before the new vault exists.\<close>

lemma rekey_starts:
  assumes "ext_laws X" "mem_ok s"
  obtains (err) e s1 where "rekey X v s password = (Inl e, v, s1)" "mem_ok s1"
      "secret_bytes s1 = secret_bytes s"
  | (fresh) w ek hk s2 where "fresh_vault X password s w ek hk s2"
      "rekey X v s password =
        (case extract_enc_key s2 (enc_key (index v)) of
           Inl e \<Rightarrow> (Inl e, v, vault_index_drop X (index w) s2)
         | Inr old_enc_key \<Rightarrow>
             (case rekey_entries X old_enc_key (files (index v)) w s2 of
                (Inl e, w1, s3) \<Rightarrow> (Inl e, v, vault_index_drop X (index w1) s3)
              | (Inr _, w1, s3) \<Rightarrow>
                  (Inr (), v\<lparr>header := header w1, index := index w1\<rparr>,
                   vault_index_drop X (index v) s3)))"
proof -
  obtain g s1 where g: "vault_header_generate X s = (g, s1)" by fastforce
  from vault_header_generate_ext [OF g] obtain x where s1: "s1 = s\<lparr>ext := x\<rparr>" by blast
  have ok1: "mem_ok s1" using assms(2) by (simp add: s1)
  show thesis
  proof (cases g)
    case (Inl e)
    with g ok1 show thesis by (intro err [of e s1]) (simp_all add: rekey_def s1)
  next
    case h: (Inr h)
    show thesis
    proof (cases "derive_master_key X password h")
      case (Inl e)
      with g h ok1 show thesis by (intro err [of e s1]) (simp_all add: rekey_def s1)
    next
      case mk: (Inr mk)
      obtain m s2 where m: "from_master_key X mk (kdf_salt h) s1 = (m, s2)" by fastforce
      show thesis
      proof (cases m)
        case (Inl e)
        with from_master_key_err [OF assms(1) ok1, of mk "kdf_salt h" e s2] m g h mk
        show thesis by (intro err [of "from_index_error e" s2]) (simp_all add: rekey_def s1)
      next
        case (Inr idx)
        then obtain ek hk where "fresh_vault X password s \<lparr>header = h, index = idx\<rparr> ek hk s2"
          using fresh_vaultI [OF assms g [unfolded h] mk] m by blast
        then show thesis
          by (rule fresh) (simp add: rekey_def g h mk m Inr Let_def)
      qed
    qed
  qed
qed

lemma rekey_err:
  assumes "ext_laws X" "mem_ok s" "rekey X v s password = (Inl e, v', s')"
  shows "v' = v" "mem_ok s'" "secret_bytes s' = secret_bytes s"
proof -
  have "v' = v \<and> mem_ok s' \<and> secret_bytes s' = secret_bytes s"
    using assms(1,2)
  proof (cases rule: rekey_starts [where v = v and password = password])
    case (err e s1)
    with assms(3) show ?thesis by simp
  next
    case (fresh w ek hk s2)
    then have adds: "adds_keys s (index w) ek hk s2" by (simp add: fresh_vault_def)
    note drop = adds_keys_drop [OF ext_lawsD(2) [OF assms(1)] adds]
    show ?thesis
    proof (cases "extract_enc_key s2 (enc_key (index v))")
      case (Inl d)
      with assms(3) fresh(2) drop [of s2 "index w"] exI [of "\<lambda>x. s2 = s2\<lparr>ext := x\<rparr>" "ext s2"]
      show ?thesis by auto
    next
      case (Inr oek)
      obtain q w1 s3 where q: "rekey_entries X oek (files (index v)) w s2 = (q, w1, s3)"
        by (cases "rekey_entries X oek (files (index v)) w s2") auto
      with assms(3) fresh(2) Inr rekey_entries_frame [OF q] drop [of s3 "index w1"]
      show ?thesis by (auto split: sum.splits)
    qed
  qed
  then show "v' = v" "mem_ok s'" "secret_bytes s' = secret_bytes s" by simp_all
qed

text \<open>
  \<open>moves_keys\<close>: between \<open>s\<close> and \<open>s'\<close> the two regions of \<open>idx\<close> were wiped and released and the
  two of \<open>idx'\<close> were added; no other region changed.
\<close>

definition moves_keys ::
  "'w sys \<Rightarrow> vault_index \<Rightarrow> vault_index \<Rightarrow> bytes \<Rightarrow> bytes \<Rightarrow> 'w sys \<Rightarrow> bool" where
  "moves_keys s idx idx' ek hk s' \<longleftrightarrow>
     mem_ok s' \<and> keys_live s' idx' ek hk \<and>
     secret_bytes s' = (secret_bytes s)
       (enc_key idx := None, hmac_key idx := None, enc_key idx' \<mapsto> ek, hmac_key idx' \<mapsto> hk) \<and>
     released s' = released s @ [replicate SUBKEY_LEN 0, replicate SUBKEY_LEN 0]"

lemma moves_keysI:
  assumes "memsec_laws X" "keys_live s idx oek ohk" "adds_keys s idx1 ek hk s2"
    and "\<exists>x. s3 = s2\<lparr>ext := x\<rparr>" "enc_key idx' = enc_key idx1" "hmac_key idx' = hmac_key idx1"
  shows "moves_keys s idx idx' ek hk (vault_index_drop X idx s3)"
proof -
  from assms(3,4) have ok: "mem_ok s3"
    and sb: "secret_bytes s3 = (secret_bytes s)(enc_key idx1 \<mapsto> ek, hmac_key idx1 \<mapsto> hk)"
    and fresh: "secret_bytes s (enc_key idx1) = None" "secret_bytes s (hmac_key idx1) = None"
    and neq: "enc_key idx1 \<noteq> hmac_key idx1" "length ek = SUBKEY_LEN" "length hk = SUBKEY_LEN"
    and rel: "released s3 = released s"
    by (auto simp: adds_keys_def keys_live_def)
  have old: "secret_bytes s (enc_key idx) = Some oek" "secret_bytes s (hmac_key idx) = Some ohk"
    "enc_key idx \<noteq> hmac_key idx" "length oek = SUBKEY_LEN" "length ohk = SUBKEY_LEN"
    using assms(2) by (simp_all add: keys_live_def)
  with fresh have sep: "enc_key idx1 \<noteq> enc_key idx" "enc_key idx1 \<noteq> hmac_key idx"
    "hmac_key idx1 \<noteq> enc_key idx" "hmac_key idx1 \<noteq> hmac_key idx" by auto
  note eff = vault_index_drop_effect [OF assms(1) ok, of idx]
  have old3: "secret_bytes s3 (enc_key idx) = Some oek" "secret_bytes s3 (hmac_key idx) = Some ohk"
    using old(1,2) sep by (auto simp: sb)
  from vault_index_drop_released [OF old3 old(3)]
  have "released (vault_index_drop X idx s3) =
      released s @ [replicate SUBKEY_LEN 0, replicate SUBKEY_LEN 0]"
    by (simp add: rel old(4,5))
  moreover have "secret_bytes (vault_index_drop X idx s3) = (secret_bytes s)
      (enc_key idx := None, hmac_key idx := None, enc_key idx' \<mapsto> ek, hmac_key idx' \<mapsto> hk)"
    using sep by (auto simp: eff(2) sb assms(5,6) fun_eq_iff)
  moreover from this have "keys_live (vault_index_drop X idx s3) idx' ek hk"
    using neq by (simp add: keys_live_def assms(5,6))
  ultimately show ?thesis using eff(1) by (simp add: moves_keys_def)
qed

lemma rekey_ok:
  assumes "ext_laws X" "mem_ok s" "keys_live s (index v) oek ohk"
    and "rekey X v s password = (Inr u, v', s')"
  obtains ek hk ps where "generated_header (header v')"
    "password_keys X password (header v') = Inr (ek, hk)"
    "moves_keys s (index v) (index v') ek hk s'" "index_ok (index v')"
    "nonce_counter (index v') = 0" "unat (data_nonce_counter (index v')) = length (files (index v))"
    "decrypts_to X oek (files (index v)) ps" "all_sealed X ek hk (files (index v'))"
    "\<And>N n. names_apart X hk N \<Longrightarrow> fst ` set ps \<subseteq> N \<Longrightarrow> n \<in> N \<Longrightarrow>
       read_secret X ek hk (files (index v')) n = Inr (map_of (rev ps) n)"
  using assms(1,2)
proof (cases rule: rekey_starts [where v = v and password = password])
  case (err e s1)
  with assms(4) show thesis by simp
next
  case (fresh w ek hk s2)
  note w = fresh(1) [unfolded fresh_vault_def]
  from w have adds: "adds_keys s (index w) ek hk s2" by simp
  then have live: "keys_live s2 (index w) ek hk" by (simp add: adds_keys_def)
  have "keys_live s2 (index v) oek ohk"
    using adds assms(3) by (auto simp: adds_keys_def keys_live_def)
  from keys_live_enc [OF this] fresh(2) assms(4) obtain w1 s3 where
    run: "rekey_entries X oek (files (index v)) w s2 = (Inr (), w1, s3)"
    and v': "v' = v\<lparr>header := header w1, index := index w1\<rparr>"
    and s': "s' = vault_index_drop X (index v) s3"
    by (auto split: prod.splits sum.splits)
  note frame = rekey_entries_frame [OF run]
  have nc: "nonce_counter (index w1) = nonce_counter (index w)"
    by (rule rekey_entries_nonce [OF run])
  have "all_sealed X ek hk (files (index w))" using w by (simp add: all_sealed_def)
  with rekey_entries_ok [OF assms(1) live _ _ run] w obtain ps where
    ps: "decrypts_to X oek (files (index v)) ps" "index_ok (index w1)"
      "all_sealed X ek hk (files (index w1))"
      "unat (data_nonce_counter (index w1)) = length (files (index v))"
    and reads: "\<And>N n. names_apart X hk N \<Longrightarrow> fst ` set ps \<subseteq> N \<Longrightarrow> n \<in> N \<Longrightarrow>
      read_secret X ek hk (files (index w1)) n =
        (case map_of (rev ps) n of Some p \<Rightarrow> Inr (Some p)
         | None \<Rightarrow> read_secret X ek hk (files (index w)) n)" by auto
  have moves: "moves_keys s (index v) (index w1) ek hk s'"
    unfolding s' using frame
    by (intro moves_keysI [OF ext_lawsD(2) [OF assms(1)] assms(3) adds]) auto
  have empty: "read_secret X ek hk (files (index w)) n = Inr None"
    if "names_apart X hk N" "n \<in> N" for N n
    using that w by (auto simp: names_apart_def read_secret_def)
  show thesis
  proof (rule that [of ek hk ps])
    show "read_secret X ek hk (files (index v')) n = Inr (map_of (rev ps) n)"
      if "names_apart X hk N" "fst ` set ps \<subseteq> N" "n \<in> N" for N n
      using reads [OF that] empty [OF that(1,3)] by (simp add: v' split: option.split)
  qed (use w frame ps moves nc in \<open>simp_all add: v'\<close>)
qed

text \<open>The header of the new vault is one \<open>generate\<close> call away from the state before.\<close>

lemma rekey_draws_salt:
  assumes "rekey X v s password = (Inr u, v', s')"
  shows "fst (os_rng_fill X SALT_LEN (ext s)) = Some (kdf_salt (header v'))"
proof -
  from assms obtain h s1 w fs idx s2 s3 where
    gen: "vault_header_generate X s = (Inr h, s1)"
    and run: "rekey_entries X fs (files (index v)) \<lparr>header = h, index = idx\<rparr> s2 = (Inr (), w, s3)"
    and v': "header v' = header w"
    by (auto simp: rekey_def Let_def split: prod.splits sum.splits)
  from rekey_entries_frame [OF run] have "header w = h" by simp
  with vault_header_generate_draws [OF gen] show ?thesis by (simp add: v')
qed

section \<open>Names survive a re-keying\<close>

text \<open>Every entry was stored under a name of \<open>N\<close>.\<close>

definition sealed_for ::
  "'w externals \<Rightarrow> bytes \<Rightarrow> bytes \<Rightarrow> bytes set \<Rightarrow> (bytes \<times> index_entry) list \<Rightarrow> bool" where
  "sealed_for X ek hk N fs \<longleftrightarrow>
     (\<forall>f \<in> set fs. \<exists>n \<in> N. \<exists>p. name_key X hk n = Inr (fst f) \<and>
        sealed_entry X ek (fst f) n p (snd f))"

lemma decrypt_entry_sealed:
  assumes "aead_laws X" "length ek = SUBKEY_LEN" "sealed_entry X ek k n p e"
    and "decrypt_entry X ek k e = Inr np"
  shows "np = (n, p)"
  using assms(4) open_blob_sealed [OF assms(1-3)]
  by (auto simp: decrypt_entry_def open_blob_def Let_def and_then_Inr_iff
      split: prod.splits if_splits)

lemma decrypt_entry_of_sealed:
  assumes "aead_laws X" "length ek = SUBKEY_LEN" "sealed_entry X ek k n p e" "utf8_valid n"
  shows "decrypt_entry X ek k e = Inr (n, p)"
  using assms(4) open_blob_sealed [OF assms(1-3)]
  by (auto simp: decrypt_entry_def open_blob_def Let_def and_then_Inr_iff)

lemma decrypts_to_keys:
  assumes "ext_laws X" "length ek = SUBKEY_LEN" "names_apart X hk N" "sealed_for X ek hk N fs"
    and "decrypts_to X ek fs ps" "distinct (map fst fs)"
  shows "fst ` set ps \<subseteq> N \<and> distinct (map fst ps) \<and>
    (\<forall>(n, p) \<in> set ps. name_key X hk n \<in> Inr ` fst ` set fs) \<and>
    (\<forall>n \<in> N. read_secret X ek hk fs n = Inr (map_of ps n))"
  using assms(5,4,6) unfolding decrypts_to_def
proof (induction fs ps rule: list_all2_induct)
  case Nil
  have "read_secret X ek hk [] n = Inr None" if "n \<in> N" for n
    using assms(3) that by (auto simp: names_apart_def read_secret_def)
  then show ?case by simp
next
  case (Cons f fs np ps)
  obtain k e where f: "f = (k, e)" by (cases f)
  from Cons.prems(1) obtain n p where n: "n \<in> N" "name_key X hk n = Inr k"
    and sealed: "sealed_entry X ek k n p e" by (auto simp: sealed_for_def f)
  have np: "np = (n, p)"
    by (rule decrypt_entry_sealed [OF ext_lawsD(3) [OF assms(1)] assms(2) sealed])
      (use Cons.hyps(1) in \<open>simp add: f\<close>)
  have IH: "fst ` set ps \<subseteq> N" "distinct (map fst ps)"
    "\<forall>(n, p) \<in> set ps. name_key X hk n \<in> Inr ` fst ` set fs"
    "\<forall>n \<in> N. read_secret X ek hk fs n = Inr (map_of ps n)"
    using Cons.IH Cons.prems by (auto simp: sealed_for_def)
  have k: "k \<notin> fst ` set fs" using Cons.prems(2) by (simp add: f)
  have fresh: "n \<notin> fst ` set ps"
  proof
    assume "n \<in> fst ` set ps"
    then have "name_key X hk n \<in> Inr ` fst ` set fs" using IH(3) by auto
    with n(2) k show False by auto
  qed
  have "read_secret X ek hk (f # fs) m = Inr (map_of (np # ps) m)" if m: "m \<in> N" for m
  proof (cases "m = n")
    case True
    then show ?thesis
      using read_sealed [OF ext_lawsD(3) [OF assms(1)] assms(2) sealed n(2), of "f # fs"]
      by (simp add: f np)
  next
    case False
    then have "name_key X hk m \<noteq> Inr k"
      using assms(3) n m by (auto simp: names_apart_def)
    then have "read_secret X ek hk (f # fs) m = read_secret X ek hk fs m"
      by (intro read_secret_cong) (auto simp: f)
    with IH(4) m False show ?thesis by (simp add: np)
  qed
  moreover have "\<forall>(n, p) \<in> set (np # ps). name_key X hk n \<in> Inr ` fst ` set (f # fs)"
    using IH(3) n(2) by (auto simp: f np)
  ultimately show ?case using IH(1,2) fresh n(1) by (auto simp: np)
qed

lemma rekey_reads:
  assumes "ext_laws X" "mem_ok s" "keys_live s (index v) oek ohk"
    and "distinct (map fst (files (index v)))" "sealed_for X oek ohk N (files (index v))"
    and "names_apart X ohk N" "rekey X v s password = (Inr u, v', s')"
    and "keys_live s' (index v') ek hk" "names_apart X hk N" "n \<in> N"
  shows "read_secret X ek hk (files (index v')) n = read_secret X oek ohk (files (index v)) n"
  using assms(1-3,7)
proof (rule rekey_ok)
  fix ek' hk' ps
  assume new: "moves_keys s (index v) (index v') ek' hk' s'"
    and ps: "decrypts_to X oek (files (index v)) ps"
    and reads: "\<And>N n. names_apart X hk' N \<Longrightarrow> fst ` set ps \<subseteq> N \<Longrightarrow> n \<in> N \<Longrightarrow>
       read_secret X ek' hk' (files (index v')) n = Inr (map_of (rev ps) n)"
  have eq: "ek' = ek" "hk' = hk"
    using new assms(8) by (auto simp: moves_keys_def keys_live_def)
  have "length oek = SUBKEY_LEN" using assms(3) by (simp add: keys_live_def)
  from decrypts_to_keys [OF assms(1) this assms(6,5) ps assms(4)]
  have "fst ` set ps \<subseteq> N" "distinct (map fst ps)"
    "read_secret X oek ohk (files (index v)) n = Inr (map_of ps n)" using assms(10) by auto
  with reads [of N n] assms(9,10) eq show ?thesis by (simp add: map_of_rev_distinct)
qed

section \<open>\<open>change_password\<close>\<close>

lemma verify_password_iff:
  assumes "hash_laws X" "keys_live s (index v) ek hk"
  shows "verify_password X v s password = Inr u \<longleftrightarrow>
    (\<exists>h. password_keys X password (header v) = Inr (ek, h))"
  using assms
  by (auto simp: verify_password_def password_keys_def and_then_Inr_iff keys_live_def
      hash_laws_def split: if_splits)

lemma verify_password_wrong:
  assumes "hash_laws X" "keys_live s (index v) ek hk"
    and "password_keys X password (header v) = Inr (a, b)" "a \<noteq> ek"
  shows "verify_password X v s password = Inl InvalidPassword"
  using assms
  by (auto simp: verify_password_def password_keys_def and_then_Inr_iff keys_live_def
      hash_laws_def)

lemma change_password_err:
  assumes "ext_laws X" "mem_ok s" "change_password X v s old new = (Inl e, v', s')"
  shows "v' = v" "mem_ok s'" "secret_bytes s' = secret_bytes s"
  using assms rekey_err [OF assms(1,2), of v new e v' s']
  by (auto simp: change_password_def split: sum.splits)

lemma change_password_ok:
  assumes "change_password X v s old new = (Inr u, v', s')"
  shows "MIN_PASSWORD_LEN \<le> length new" "verify_password X v s old = Inr ()"
    "rekey X v s new = (Inr (), v', s')"
  using assms
  by (auto simp: change_password_def validate_password_def split: sum.splits if_splits)

lemma rekey_vault_ok:
  assumes "ext_laws X" "vault_ok s v \<or> mem_ok s \<and> keys_live s (index v) a b"
    and "rekey X v s password = (Inr u, v', s')"
  shows "vault_ok s' v'" "unlocked_by X password s' v'"
proof -
  obtain oek ohk where live: "mem_ok s" "keys_live s (index v) oek ohk"
    using assms(2) by (auto simp: vault_ok_def)
  obtain ek hk where "generated_header (header v')"
    "password_keys X password (header v') = Inr (ek, hk)"
    "moves_keys s (index v) (index v') ek hk s'" "index_ok (index v')"
    by (rule rekey_ok [OF assms(1) live assms(3)])
  then show "vault_ok s' v'" "unlocked_by X password s' v'"
    using generated_header_in_policy [of "header v'"] generated_header_version [of "header v'"]
      generated_header_salt [of "header v'"]
    by (auto simp: vault_ok_def unlocked_by_def moves_keys_def)
qed

section \<open>\<open>open\<close>, with the upgrade\<close>

lemma open_vault_err:
  assumes "ext_laws X" "mem_ok s" "open_vault X password data s = (Inl e, s')"
  shows "mem_ok s' \<and> secret_bytes s' = secret_bytes s"
proof (cases "\<exists>env ek hk d. opens_to X password data env ek hk d")
  case False
  then obtain e' where "open_vault X password data s = (Inl e', s)" by (rule open_vault_rejects)
  with assms(2,3) show ?thesis by simp
next
  case True
  then obtain env ek hk d where o: "opens_to X password data env ek hk d" by blast
  obtain l s1 where l: "lock_subkeys X ek hk s = (l, s1)" by fastforce
  show ?thesis
  proof (cases l)
    case (Inl d)
    with lock_subkeys_err [OF ext_lawsD(2) [OF assms(1)] assms(2), of ek hk d s1] assms(3) l
    show ?thesis by (simp add: open_vault_loads [OF o])
  next
    case (Inr eh)
    obtain es hs where eh: "eh = (es, hs)" by (cases eh)
    let ?v = "loaded_vault env d es hs"
    note loaded = loaded_vault_ok [OF assms(1,2) o l [unfolded Inr eh]]
    have ok1: "mem_ok s1" using loaded(1) by (simp add: adds_keys_def)
    from assms(3) obtain v1 s2 where r: "rekey X ?v s1 password = (Inl e, v1, s2)"
      and s': "s' = vault_index_drop X (index v1) s2"
      by (auto simp: open_vault_loads [OF o] l Inr eh Let_def
          split: if_splits prod.splits sum.splits)
    note err = rekey_err [OF assms(1) ok1 r]
    from loaded(1) have adds: "secret_bytes s1 =
        (secret_bytes s)(enc_key (index ?v) \<mapsto> ek, hmac_key (index ?v) \<mapsto> hk)"
      "secret_bytes s (enc_key (index ?v)) = None" "secret_bytes s (hmac_key (index ?v)) = None"
      by (simp_all add: adds_keys_def)
    from vault_index_drop_effect [OF ext_lawsD(2) [OF assms(1)] err(2), of "index v1"] adds
    show ?thesis by (auto simp: s' err(1,3) fun_eq_iff)
  qed
qed

lemma open_vault_ok:
  assumes "ext_laws X" "mem_ok s" "open_vault X password data s = (Inr v, s')"
  obtains env ek hk d where "opens_to X password data env ek hk d" "vault_ok s' v"
    "unlocked_by X password s' v"
    "version (env_header env) \<noteq> LEGACY_VAULT_VERSION_1 \<Longrightarrow>
       (\<exists>es hs. v = loaded_vault env d es hs) \<and> adds_keys s (index v) ek hk s'"
    "version (env_header env) = LEGACY_VAULT_VERSION_1 \<Longrightarrow>
       (\<exists>es hs s1. rekey X (loaded_vault env d es hs) s1 password = (Inr (), v, s') \<and>
          lock_subkeys X ek hk s = (Inr (es, hs), s1))"
proof -
  have "\<exists>env ek hk d. opens_to X password data env ek hk d"
    using assms(3) open_vault_rejects [of X password data s] by fastforce
  then obtain env ek hk d where o: "opens_to X password data env ek hk d" by blast
  from assms(3) obtain es hs s1 where l: "lock_subkeys X ek hk s = (Inr (es, hs), s1)"
    by (auto simp: open_vault_loads [OF o] split: prod.splits sum.splits)
  let ?v = "loaded_vault env d es hs"
  have h: "header ?v = env_header env" by (simp add: loaded_vault_def)
  note loaded = loaded_vault_ok [OF assms(1,2) o l, unfolded h]
  show thesis
  proof (cases "version (env_header env) = LEGACY_VAULT_VERSION_1")
    case False
    with assms(3) have "v = ?v" "s' = s1"
      by (simp_all add: open_vault_loads [OF o] l Let_def)
    with loaded False show thesis by (intro that [OF o]) auto
  next
    case True
    with assms(3) have r: "rekey X ?v s1 password = (Inr (), v, s')"
      by (auto simp: open_vault_loads [OF o] l Let_def split: prod.splits sum.splits)
    from loaded(1) have "mem_ok s1 \<and> keys_live s1 (index ?v) ek hk" by (simp add: adds_keys_def)
    with rekey_vault_ok [OF assms(1) _ r] have "vault_ok s' v" "unlocked_by X password s' v"
      by blast+
    with True r l show thesis by (intro that [OF o]) auto
  qed
qed

end
