(* ===== verification/Persistence.thy ===== *)
theory Persistence
  imports Rekeying
begin

text \<open>
  \<open>Vault::save\<close> and \<open>Vault::load\<close> (\<open>src/vault/facade.rs\<close>) over a model of the file
  operations of the standard library they use. A file system maps resolved paths to files;
  \<open>io_plan\<close> says which of the calls fail, and how much of a failing write reaches the file,
  so every error path is a path of the model. Beside the files as the process sees them, the
  model has what the disk may hold: contents reach it with the \<open>fsync\<close> of a file, directory entries
  with that of the directory. The history of a file system lists both after every call, which is
  what a crash of the process or a loss of power can leave. Links are outside the model.
\<close>

section \<open>Paths\<close>

datatype path = Path (absolute: bool) (components: "string list")

definition path_parent :: "path \<Rightarrow> path option" where
  "path_parent p = (if components p = [] then None
     else Some (Path (absolute p) (butlast (components p))))"

definition path_is_empty :: "path \<Rightarrow> bool" where
  "path_is_empty p \<longleftrightarrow> \<not> absolute p \<and> components p = []"

definition path_join :: "path \<Rightarrow> string \<Rightarrow> path" where
  "path_join p name = Path (absolute p) (components p @ [name])"

definition current_dir :: path where
  "current_dir = Path False [''.'']"

text \<open>The file a path names: \<open>.\<close> components do not matter.\<close>

definition resolve :: "path \<Rightarrow> path" where
  "resolve p = Path (absolute p) (filter (\<lambda>c. c \<noteq> ''.'') (components p))"

section \<open>Files\<close>

record file_node =
  contents :: bytes
  mode :: nat
  synced :: bool    \<comment> \<open>the disk holds the contents\<close>

type_synonym tree = "path \<rightharpoonup> file_node"

text \<open>\<open>on_disk\<close> lists the versions of the directories the disk may hold, the current one last;
  \<open>history\<close> has one such list for every call.\<close>

record file_system =
  tree :: tree
  on_disk :: "tree list"
  history :: "tree list list"

record io_plan =
  open_fault :: "io_error option"
  read_fault :: "io_error option"
  create_fault :: "io_error option"
  write_fault :: "(nat \<times> io_error) option"
  sync_fault :: "io_error option"
  rename_fault :: "io_error option"
  open_dir_fault :: "io_error option"
  sync_dir_fault :: "io_error option"
  remove_fault :: "io_error option"

definition no_faults :: io_plan where
  "no_faults = \<lparr>open_fault = None, read_fault = None, create_fault = None, write_fault = None,
     sync_fault = None, rename_fault = None, open_dir_fault = None, sync_dir_fault = None,
     remove_fault = None\<rparr>"

definition fs_step :: "tree \<Rightarrow> file_system \<Rightarrow> file_system" where
  "fs_step t fs =
     (let ds = on_disk fs @ [t] in fs\<lparr>tree := t, on_disk := ds, history := history fs @ [ds]\<rparr>)"

definition fs_create_new ::
  "io_plan \<Rightarrow> path \<Rightarrow> nat \<Rightarrow> file_system \<Rightarrow> (io_error + unit) \<times> file_system" where
  "fs_create_new io p m fs =
     (case create_fault io of
        Some e \<Rightarrow> (Inl e, fs)
      | None \<Rightarrow>
          if tree fs (resolve p) \<noteq> None then (Inl ''File exists'', fs)
          else (Inr (), fs_step ((tree fs)(resolve p \<mapsto>
                 \<lparr>contents = [], mode = m, synced = False\<rparr>)) fs))"

definition fs_write_all ::
  "io_plan \<Rightarrow> path \<Rightarrow> bytes \<Rightarrow> file_system \<Rightarrow> (io_error + unit) \<times> file_system" where
  "fs_write_all io p data fs =
     (case tree fs (resolve p) of
        None \<Rightarrow> (Inl ''No such file or directory'', fs)
      | Some f \<Rightarrow>
          (let written = (\<lambda>b. fs_step ((tree fs)(resolve p \<mapsto>
                 f\<lparr>contents := contents f @ b, synced := False\<rparr>)) fs)
           in case write_fault io of
                Some (n, e) \<Rightarrow> (Inl e, written (take n data))
              | None \<Rightarrow> (Inr (), written data)))"

definition fs_sync_all ::
  "io_plan \<Rightarrow> path \<Rightarrow> file_system \<Rightarrow> (io_error + unit) \<times> file_system" where
  "fs_sync_all io p fs =
     (case sync_fault io of
        Some e \<Rightarrow> (Inl e, fs)
      | None \<Rightarrow>
          (case tree fs (resolve p) of
             None \<Rightarrow> (Inl ''No such file or directory'', fs)
           | Some f \<Rightarrow> (Inr (), fs_step ((tree fs)(resolve p \<mapsto> f\<lparr>synced := True\<rparr>)) fs)))"

definition fs_remove_file :: "io_plan \<Rightarrow> path \<Rightarrow> file_system \<Rightarrow> file_system" where
  "fs_remove_file io p fs =
     (case remove_fault io of
        Some e \<Rightarrow> fs
      | None \<Rightarrow> fs_step ((tree fs)(resolve p := None)) fs)"

definition fs_rename ::
  "io_plan \<Rightarrow> path \<Rightarrow> path \<Rightarrow> file_system \<Rightarrow> (io_error + unit) \<times> file_system" where
  "fs_rename io p q fs =
     (case rename_fault io of
        Some e \<Rightarrow> (Inl e, fs)
      | None \<Rightarrow>
          (case tree fs (resolve p) of
             None \<Rightarrow> (Inl ''No such file or directory'', fs)
           | Some f \<Rightarrow>
               (Inr (), fs_step ((tree fs)(resolve p := None, resolve q \<mapsto> f)) fs)))"

text \<open>The \<open>fsync\<close> of a directory brings its entries to disk, those of no other directory.\<close>

definition with_directory :: "path \<Rightarrow> tree \<Rightarrow> tree \<Rightarrow> tree" where
  "with_directory dir t d = (\<lambda>q. if path_parent q = Some (resolve dir) then t q else d q)"

definition fs_sync_dir :: "io_plan \<Rightarrow> path \<Rightarrow> file_system \<Rightarrow> file_system" where
  "fs_sync_dir io dir fs =
     (case open_dir_fault io of
        Some e \<Rightarrow> fs
      | None \<Rightarrow>
          (case sync_dir_fault io of
             Some e \<Rightarrow> fs
           | None \<Rightarrow>
               (let ds = map (with_directory dir (tree fs)) (on_disk fs)
                in fs\<lparr>on_disk := ds, history := history fs @ [ds]\<rparr>)))"

text \<open>
  What may be found after a loss of power: every entry is as in one of the versions the disk may
  hold, independently of the others, and a file that was not synced may have any contents.
\<close>

definition power_loss :: "tree list \<Rightarrow> tree \<Rightarrow> bool" where
  "power_loss ds t \<longleftrightarrow>
     (\<forall>q. \<exists>d \<in> set ds. case d q of
        None \<Rightarrow> t q = None
      | Some f \<Rightarrow> (\<exists>g. t q = Some g \<and> (synced f \<longrightarrow> g = f)))"

section \<open>\<open>save\<close> and \<open>load\<close>\<close>

definition save_dir :: "path \<Rightarrow> path" where
  "save_dir p =
     (case path_parent p of
        Some parent \<Rightarrow> if \<not> path_is_empty parent then parent else current_dir
      | None \<Rightarrow> current_dir)"

definition save_tmp_path :: "path \<Rightarrow> bytes \<Rightarrow> path" where
  "save_tmp_path p suffix =
     path_join (save_dir p)
       (''.memseal_tmp_'' @ map (\<lambda>b. char_of (unat b)) (key_to_hex suffix))"

text \<open>
  The file operations of \<open>save\<close>: create, write, sync, rename, and the removal of the temporary
  file when one of the last three fails. The result of the final \<open>fsync\<close> of the directory is
  discarded.
\<close>

definition replace_file ::
  "io_plan \<Rightarrow> path \<Rightarrow> path \<Rightarrow> bytes \<Rightarrow> file_system \<Rightarrow> (vault_error + unit) \<times> file_system" where
  "replace_file io tmp p data fs =
     (case fs_create_new io tmp 384 fs of
        (Inl e, fs1) \<Rightarrow> (Inl (IoError e), fs1)
      | (Inr _, fs1) \<Rightarrow>
     (case (case fs_write_all io tmp data fs1 of
              (Inl e, fs2) \<Rightarrow> (Inl e, fs2)
            | (Inr _, fs2) \<Rightarrow> fs_sync_all io tmp fs2) of
        (Inl e, fs3) \<Rightarrow> (Inl (IoError e), fs_remove_file io tmp fs3)
      | (Inr _, fs3) \<Rightarrow>
     (case fs_rename io tmp p fs3 of
        (Inl e, fs4) \<Rightarrow> (Inl (IoError e), fs_remove_file io tmp fs4)
      | (Inr _, fs4) \<Rightarrow> (Inr (), fs_sync_dir io (save_dir p) fs4))))"

definition save ::
  "'w externals \<Rightarrow> io_plan \<Rightarrow> vault \<Rightarrow> 'w sys \<Rightarrow> file_system \<Rightarrow> path \<Rightarrow>
    (vault_error + unit) \<times> vault \<times> 'w sys \<times> file_system" where
  "save X io v s fs p =
     (case export X v s of
        (Inl e, v1, s1) \<Rightarrow> (Inl e, v1, s1, fs)
      | (Inr data, v1, s1) \<Rightarrow>
     (case secure_bytes_fill X 8 s1 of
        (Inl e, s2) \<Rightarrow> (Inl (from_random_error e), v1, s2, fs)
      | (Inr suffix, s2) \<Rightarrow>
     (case replace_file io (save_tmp_path p suffix) p data fs of
        (r, fs1) \<Rightarrow> (r, v1, s2, fs1))))"

definition load_vault ::
  "'w externals \<Rightarrow> io_plan \<Rightarrow> file_system \<Rightarrow> path \<Rightarrow> bytes \<Rightarrow> 'w sys \<Rightarrow>
    (vault_error + vault) \<times> 'w sys" where
  "load_vault X io fs p password s =
     (case open_fault io of
        Some e \<Rightarrow> (Inl (IoError e), s)
      | None \<Rightarrow>
     (case tree fs (resolve p) of
        None \<Rightarrow> (Inl (IoError ''No such file or directory''), s)
      | Some f \<Rightarrow>
     (case read_fault io of
        Some e \<Rightarrow> (Inl (IoError e), s)
      | None \<Rightarrow>
          (let data = take (MAX_VAULT_FILE_SIZE + 1) (contents f)
           in if MAX_VAULT_FILE_SIZE < length data
              then (Inl (CorruptedData (fmt ''Vault file too large (max {} bytes)''
                [dec MAX_VAULT_FILE_SIZE])), s)
              else open_vault X password data s))))"

section \<open>Facts\<close>

lemmas fs_defs = fs_step_def fs_create_new_def fs_write_all_def fs_sync_all_def
  fs_remove_file_def fs_rename_def fs_sync_dir_def

text \<open>What the disk may hold after each call between two file systems, and what the process sees.\<close>

definition disks_between :: "file_system \<Rightarrow> file_system \<Rightarrow> tree list list" where
  "disks_between fs fs' = drop (length (history fs)) (history fs')"

definition trees_between :: "file_system \<Rightarrow> file_system \<Rightarrow> tree list" where
  "trees_between fs fs' = map last (disks_between fs fs')"

lemma with_directory_same [simp]: "with_directory dir t t = t"
  by (simp add: with_directory_def)

lemma replace_file_create_err:
  assumes "fs_create_new io tmp m fs = (Inl e, fs1)"
  shows "fs1 = fs"
  using assms by (auto simp: fs_create_new_def split: option.splits if_splits)

text \<open>The disk after calls that touched one entry only.\<close>

definition touched :: "file_system \<Rightarrow> path \<Rightarrow> tree list \<Rightarrow> bool" where
  "touched fs q ds \<longleftrightarrow>
     (\<exists>ts. ts \<noteq> [] \<and> ds = on_disk fs @ ts \<and> (\<forall>t \<in> set ts. \<exists>x. t = (tree fs)(q := x)))"

definition dir_synced :: "io_plan \<Rightarrow> bool" where
  "dir_synced io \<longleftrightarrow> open_dir_fault io = None \<and> sync_dir_fault io = None"

text \<open>The three ways \<open>replace_file\<close> ends, with the states it goes through.\<close>

lemma replace_file_cases:
  assumes "replace_file io tmp p data fs = (r, fs')"
  obtains (create) e where "r = Inl (IoError e)" "fs' = fs"
  | (undone) e f where "r = Inl (IoError e)" "tree fs (resolve tmp) = None"
      "tree fs' = (if remove_fault io = None then tree fs else (tree fs)(resolve tmp \<mapsto> f))"
      "\<forall>ds \<in> set (disks_between fs fs'). touched fs (resolve tmp) ds"
      "touched fs (resolve tmp) (on_disk fs')"
  | (replaced) us ts ds where "r = Inr ()" "tree fs (resolve tmp) = None"
      "tree fs' = (tree fs)(resolve tmp := None,
         resolve p \<mapsto> \<lparr>contents = data, mode = 384, synced = True\<rparr>)"
      "\<forall>u \<in> set us. touched fs (resolve tmp) u"
      "ds = on_disk fs @ ts @ [tree fs']" "\<forall>t \<in> set ts. \<exists>x. t = (tree fs)(resolve tmp := x)"
      "disks_between fs fs' = us @ ds #
         (if dir_synced io then [map (with_directory (save_dir p) (tree fs')) ds] else [])"
      "on_disk fs' = (if dir_synced io then map (with_directory (save_dir p) (tree fs')) ds else ds)"
      "rename_fault io = None" "write_fault io = None" "sync_fault io = None"
proof (cases "create_fault io \<noteq> None \<or> tree fs (resolve tmp) \<noteq> None")
  case True
  then obtain e where "fs_create_new io tmp 384 fs = (Inl e, fs)"
    by (cases "create_fault io") (auto simp: fs_create_new_def)
  with assms show thesis by (intro create [of e]) (simp_all add: replace_file_def)
next
  case False
  let ?q = "resolve tmp"
  let ?t = "\<lambda>b y. (tree fs)(?q \<mapsto> \<lparr>contents = b, mode = 384, synced = y\<rparr>)"
  define fs1 where "fs1 = fs_step (?t [] False) fs"
  have new: "tree fs ?q = None" using False by simp
  have create: "fs_create_new io tmp 384 fs = (Inr (), fs1)"
    using False by (simp add: fs_create_new_def fs1_def)
  have idem: "(tree fs)(?q := None) = tree fs" using new by auto
  have same: "\<exists>x. ?t b y = (tree fs)(?q := x)" "\<exists>x. tree fs = (tree fs)(?q := x)" for b y
    using idem by metis+
  have touch: "touched fs ?q (on_disk fs @ t # ts)"
    if "\<forall>t \<in> set (t # ts). \<exists>x. t = (tree fs)(?q := x)" for t ts
    using that unfolding touched_def by blast
  note steps = replace_file_def fs_defs fs1_def disks_between_def Let_def new idem
  show thesis
  proof (cases "write_fault io")
    case (Some ne)
    obtain n e where ne: "ne = (n, e)" by (cases ne)
    show thesis
      using assms create Some
      by (intro undone [of e "\<lparr>contents = take n data, mode = 384, synced = False\<rparr>"])
        (auto simp: steps ne same intro!: touch split: option.splits)
  next
    case wr: None
    show thesis
    proof (cases "sync_fault io")
      case (Some e)
      show thesis
        using assms create Some wr
        by (intro undone [of e "\<lparr>contents = data, mode = 384, synced = False\<rparr>"])
          (auto simp: steps same intro!: touch split: option.splits)
    next
      case sy: None
      show thesis
      proof (cases "rename_fault io")
        case (Some e)
        show thesis
          using assms create Some wr sy
          by (intro undone [of e "\<lparr>contents = data, mode = 384, synced = True\<rparr>"])
            (auto simp: steps same intro!: touch split: option.splits)
      next
        case None
        let ?ts = "[?t [] False, ?t data False, ?t data True]"
        show thesis
          using assms create None wr sy
          by (intro replaced [where ts = ?ts and ds = "on_disk fs @ ?ts @ [tree fs']"
                and us = "map (\<lambda>n. on_disk fs @ take (Suc n) ?ts) [0..<3]"])
            (auto simp: steps same dir_synced_def numeral_3_eq_3 intro!: touch split: option.splits)
      qed
    qed
  qed
qed

lemma touched_last:
  assumes "touched fs q ds"
  shows "\<exists>x. last ds = (tree fs)(q := x)"
  using assms by (auto simp: touched_def)

text \<open>The trees the process goes through: one with a temporary file, or the final one.\<close>

lemma replace_file_trees:
  assumes "replace_file io tmp p data fs = (r, fs')" "t \<in> set (trees_between fs fs')"
  shows "(\<exists>x. t = (tree fs)(resolve tmp := x)) \<or>
    t = (tree fs)(resolve tmp := None, resolve p \<mapsto> \<lparr>contents = data, mode = 384, synced = True\<rparr>)"
  using assms(1)
proof (cases rule: replace_file_cases)
  case create
  with assms(2) show ?thesis by (simp add: trees_between_def disks_between_def)
next
  case (undone e f)
  with assms(2) show ?thesis by (auto simp: trees_between_def dest: touched_last)
next
  case (replaced us ts ds)
  from replaced(5) have "last ds = tree fs'" "ds \<noteq> []" by simp_all
  then have "last (map (with_directory (save_dir p) (tree fs')) ds) = tree fs'"
    by (simp add: last_map)
  with replaced(4,7) \<open>last ds = tree fs'\<close> assms(2) have "(\<exists>x. t = (tree fs)(resolve tmp := x)) \<or> t = tree fs'"
    by (auto simp: trees_between_def dest: touched_last split: if_splits)
  with replaced(3) show ?thesis by simp
qed

lemma save_cases:
  assumes "save X io v s fs p = (r, v', s', fs')"
  obtains (early) e where "r = Inl e" "fs' = fs"
  | (written) out s1 suffix where "export X v s = (Inr out, v', s1)"
      "secure_bytes_fill X 8 s1 = (Inr suffix, s')"
      "replace_file io (save_tmp_path p suffix) p out fs = (r, fs')"
proof (cases "export X v s")
  case (fields a v1 s1)
  show thesis
  proof (cases a)
    case (Inl e)
    with assms fields show thesis by (intro early [of e]) (auto simp: save_def)
  next
    case (Inr out)
    obtain b s2 where b: "secure_bytes_fill X 8 s1 = (b, s2)" by fastforce
    show thesis
    proof (cases b)
      case (Inl e)
      with assms fields Inr b show thesis
        by (intro early [of "from_random_error e"]) (auto simp: save_def)
    next
      case (Inr suffix)
      with assms fields \<open>a = Inr out\<close> b show thesis
        by (intro written [of out s1 suffix]) (auto simp: save_def split: prod.splits)
    qed
  qed
qed

lemma load_vault_reads:
  assumes "tree fs (resolve p) = Some f" "length (contents f) \<le> MAX_VAULT_FILE_SIZE"
  shows "load_vault X no_faults fs p password s = open_vault X password (contents f) s"
  using assms by (simp add: load_vault_def no_faults_def Let_def)

text \<open>A successful \<open>save\<close> puts an export at the path, and \<open>load\<close> opens it.\<close>

lemma save_ok:
  assumes "ext_laws X" "vault_ok s v" "save X io v s fs p = (Inr u, v', s', fs')"
  obtains out s1 where "export X v s = (Inr out, v', s1)"
    "tree fs' (resolve p) = Some \<lparr>contents = out, mode = 384, synced = True\<rparr>"
    "\<And>password t. load_vault X no_faults fs' p password t = open_vault X password out t"
    "\<exists>w. s' = s\<lparr>ext := w\<rparr>"
proof (rule save_cases [OF assms(3)])
  fix out s1 suffix
  assume ex: "export X v s = (Inr out, v', s1)"
    and n: "secure_bytes_fill X 8 s1 = (Inr suffix, s')"
    and rep: "replace_file io (save_tmp_path p suffix) p out fs = (Inr u, fs')"
  from rep have saved: "tree fs' (resolve p) = Some \<lparr>contents = out, mode = 384, synced = True\<rparr>"
    by (rule replace_file_cases) simp_all
  obtain ek hk where live: "keys_live s (index v) ek hk" using assms(2) by (auto simp: vault_ok_def)
  have out: "length out \<le> MAX_VAULT_FILE_SIZE"
    by (rule export_ok [OF assms(1) _ live ex]) (use assms(2) in \<open>simp add: vault_ok_def\<close>)
  have "\<exists>w. s' = s\<lparr>ext := w\<rparr>"
    using export_effect(7) [OF ex] secure_bytes_fill_ext [OF n] by auto
  with saved ex out show thesis by (intro that) (simp_all add: load_vault_reads)
qed simp_all

section \<open>Loss of power\<close>

text \<open>The file system a process finds after the loss.\<close>

definition restarted :: "tree \<Rightarrow> file_system" where
  "restarted t = \<lparr>tree = t, on_disk = [t], history = []\<rparr>"

text \<open>An entry whose file is on disk whatever version of its directory is found.\<close>

definition settled :: "file_system \<Rightarrow> path \<Rightarrow> bool" where
  "settled fs q \<longleftrightarrow> (\<forall>d \<in> set (on_disk fs). d q = tree fs q) \<and>
     (\<forall>f. tree fs q = Some f \<longrightarrow> synced f)"

lemma power_loss_finds:
  assumes "power_loss ds t" "\<forall>d \<in> set ds. \<forall>f. d q = Some f \<longrightarrow> synced f"
  shows "\<exists>d \<in> set ds. t q = d q"
proof -
  obtain d where "d \<in> set ds" "case d q of None \<Rightarrow> t q = None
      | Some f \<Rightarrow> (\<exists>g. t q = Some g \<and> (synced f \<longrightarrow> g = f))"
    using assms(1) unfolding power_loss_def by blast
  with assms(2) show ?thesis by (intro bexI [of _ d]) (auto split: option.splits)
qed

lemma power_loss_settled:
  assumes "settled fs q" "power_loss (on_disk fs) t"
  shows "t q = tree fs q"
  using power_loss_finds [OF assms(2), of q] assms(1) by (auto simp: settled_def)

text \<open>The versions of an entry, as the process sees it and as the disk may hold it.\<close>

definition versions :: "file_system \<Rightarrow> path \<Rightarrow> file_node option set" where
  "versions fs q = insert (tree fs q) ((\<lambda>d. d q) ` set (on_disk fs))"

lemma settled_versions:
  "settled fs q \<longleftrightarrow> versions fs q = {tree fs q} \<and> (\<forall>f. tree fs q = Some f \<longrightarrow> synced f)"
  by (auto simp: settled_def versions_def)

lemma touched_elsewhere:
  assumes "touched fs q' ds" "q \<noteq> q'" "d \<in> set ds"
  shows "d q \<in> versions fs q"
  using assms by (auto simp: touched_def versions_def dest!: bspec)

text \<open>The path names a file, so that the \<open>fsync\<close> of its directory covers its entry.\<close>

definition names_file :: "path \<Rightarrow> bool" where
  "names_file p \<longleftrightarrow> components p \<noteq> [] \<and> last (components p) \<noteq> ''.''"

lemma save_dir_holds:
  assumes "names_file p"
  shows "path_parent (resolve p) = Some (resolve (save_dir p))"
proof -
  obtain cs c where cs: "components p = cs @ [c]" using assms by (cases "components p" rule: rev_cases)
      (auto simp: names_file_def)
  with assms have "c \<noteq> ''.''" by (simp add: names_file_def)
  with cs show ?thesis
    by (auto simp: path_parent_def resolve_def save_dir_def path_is_empty_def current_dir_def)
qed

text \<open>
  What calls of \<open>replace_file\<close> and \<open>save\<close> leave at their path: as long as the file is not renamed
  the versions that were there, then those and the new one, and after the \<open>fsync\<close> of the directory
  the new one alone.
\<close>

definition saved_file :: "bytes \<Rightarrow> file_node" where
  "saved_file data = \<lparr>contents = data, mode = 384, synced = True\<rparr>"

lemma replace_file_versions:
  assumes "replace_file io tmp p data fs = (r, fs')" "resolve tmp \<noteq> resolve p" "names_file p"
  shows "(\<forall>ds \<in> set (disks_between fs fs'). \<forall>d \<in> set ds.
      d (resolve p) \<in> insert (Some (saved_file data)) (versions fs (resolve p))) \<and>
    (case r of
      Inl e \<Rightarrow> versions fs' (resolve p) \<subseteq> versions fs (resolve p) \<and>
        tree fs' (resolve p) = tree fs (resolve p)
    | Inr u \<Rightarrow> versions fs' (resolve p) \<subseteq> insert (Some (saved_file data)) (versions fs (resolve p)) \<and>
        tree fs' (resolve p) = Some (saved_file data) \<and>
        (dir_synced io \<longrightarrow> versions fs' (resolve p) = {Some (saved_file data)}))"
proof -
  let ?p = "resolve p" and ?new = "Some (saved_file data)"
  note other = touched_elsewhere [OF _ assms(2) [symmetric]]
  have here: "tree fs ?p \<in> versions fs ?p" by (simp add: versions_def)
  from assms(1) show ?thesis
  proof (cases rule: replace_file_cases)
    case create
    then show ?thesis by (simp add: disks_between_def)
  next
    case (undone e f)
    have same: "tree fs' ?p = tree fs ?p" using undone(3) assms(2) by simp
    then have "versions fs' ?p \<subseteq> versions fs ?p"
      using other [OF undone(5)] here by (auto simp: versions_def [of fs'])
    with same undone(1,4) other show ?thesis by auto
  next
    case (replaced us ts ds)
    have fs': "tree fs' ?p = ?new" using replaced(3) by (simp add: saved_file_def)
    have ds: "d ?p \<in> insert ?new (versions fs ?p)" if "d \<in> set ds" for d
      using that replaced(5,6) assms(2) fs' by (auto simp: versions_def)
    have dir: "with_directory (save_dir p) (tree fs') d ?p = ?new" for d
      by (simp add: with_directory_def save_dir_holds [OF assms(3)] fs')
    have "\<forall>ds \<in> set (disks_between fs fs'). \<forall>d \<in> set ds. d ?p \<in> insert ?new (versions fs ?p)"
      using replaced(4,7) other ds dir by (auto split: if_splits)
    moreover have "versions fs' ?p \<subseteq> insert ?new (versions fs ?p)"
      "dir_synced io \<longrightarrow> versions fs' ?p = {?new}"
      using replaced(8) ds dir fs' by (auto simp: versions_def [of fs'] split: if_splits)
    ultimately show ?thesis using replaced(1) fs' by simp
  qed
qed

lemma save_versions:
  assumes "save X io v s fs p = (r, v', s', fs')" "names_file p"
    and "\<And>suffix. resolve (save_tmp_path p suffix) \<noteq> resolve p"
  shows "\<lbrakk>ds \<in> set (disks_between fs fs'); d \<in> set ds\<rbrakk> \<Longrightarrow> \<exists>out s1. export X v s = (Inr out, v', s1) \<and>
      d (resolve p) \<in> insert (Some (saved_file out)) (versions fs (resolve p))"
    and "r = Inl e \<Longrightarrow> versions fs' (resolve p) \<subseteq> versions fs (resolve p) \<and>
      tree fs' (resolve p) = tree fs (resolve p)"
    and "r = Inr u \<Longrightarrow> \<exists>out s1. export X v s = (Inr out, v', s1) \<and>
      versions fs' (resolve p) \<subseteq> insert (Some (saved_file out)) (versions fs (resolve p)) \<and>
      tree fs' (resolve p) = Some (saved_file out) \<and>
      (dir_synced io \<longrightarrow> versions fs' (resolve p) = {Some (saved_file out)})"
proof -
  have "(\<forall>ds \<in> set (disks_between fs fs'). \<forall>d \<in> set ds. \<exists>out s1. export X v s = (Inr out, v', s1) \<and>
      d (resolve p) \<in> insert (Some (saved_file out)) (versions fs (resolve p))) \<and>
    (case r of
      Inl e \<Rightarrow> versions fs' (resolve p) \<subseteq> versions fs (resolve p) \<and>
        tree fs' (resolve p) = tree fs (resolve p)
    | Inr u \<Rightarrow> \<exists>out s1. export X v s = (Inr out, v', s1) \<and>
      versions fs' (resolve p) \<subseteq> insert (Some (saved_file out)) (versions fs (resolve p)) \<and>
      tree fs' (resolve p) = Some (saved_file out) \<and>
      (dir_synced io \<longrightarrow> versions fs' (resolve p) = {Some (saved_file out)}))"
    using assms(1)
  proof (cases rule: save_cases)
    case (early e)
    then show ?thesis by (simp add: disks_between_def)
  next
    case (written out s1 suffix)
    from replace_file_versions [OF written(3) assms(3,2)] written(1) show ?thesis
      by (auto split: sum.splits)
  qed
  then show "\<lbrakk>ds \<in> set (disks_between fs fs'); d \<in> set ds\<rbrakk> \<Longrightarrow> \<exists>out s1. export X v s = (Inr out, v', s1) \<and>
      d (resolve p) \<in> insert (Some (saved_file out)) (versions fs (resolve p))"
    "r = Inl e \<Longrightarrow> versions fs' (resolve p) \<subseteq> versions fs (resolve p) \<and>
      tree fs' (resolve p) = tree fs (resolve p)"
    "r = Inr u \<Longrightarrow> \<exists>out s1. export X v s = (Inr out, v', s1) \<and>
      versions fs' (resolve p) \<subseteq> insert (Some (saved_file out)) (versions fs (resolve p)) \<and>
      tree fs' (resolve p) = Some (saved_file out) \<and>
      (dir_synced io \<longrightarrow> versions fs' (resolve p) = {Some (saved_file out)})"
    by auto
qed

text \<open>A settled file stays settled, as the old one or the new one.\<close>

lemma save_settled:
  assumes "save X io v s fs p = (r, v', s', fs')" "names_file p"
    and "\<And>suffix. resolve (save_tmp_path p suffix) \<noteq> resolve p"
  shows "\<lbrakk>r = Inl e; settled fs (resolve p)\<rbrakk> \<Longrightarrow> settled fs' (resolve p)"
    and "\<lbrakk>r = Inr u; dir_synced io\<rbrakk> \<Longrightarrow> settled fs' (resolve p)"
proof -
  have here: "tree fs' (resolve p) \<in> versions fs' (resolve p)" by (simp add: versions_def)
  show "settled fs' (resolve p)" if "r = Inl e" "settled fs (resolve p)"
    using save_versions(2) [OF assms that(1)] that(2) here by (auto simp: settled_versions)
  show "settled fs' (resolve p)" if r: "r = Inr u" and "dir_synced io"
  proof -
    from save_versions(3) [OF assms r] that(2) obtain out where
      "versions fs' (resolve p) = {Some (saved_file out)}" "tree fs' (resolve p) = Some (saved_file out)"
      by blast
    then show ?thesis by (simp add: settled_versions saved_file_def)
  qed
qed

lemma load_restarted:
  assumes "settled fs (resolve p)" "power_loss (on_disk fs) t"
  shows "load_vault X no_faults (restarted t) p pw s = load_vault X no_faults fs p pw s"
  using power_loss_settled [OF assms] by (simp add: load_vault_def restarted_def no_faults_def)

end
