(* ===== verification/Sample.thy ===== *)
theory Sample
  imports Persistence
begin

text \<open>
  A concrete instance of the external functions, small enough to compute with. It keeps
  every documented law (\<open>sample_laws\<close>, \<open>sample_tidy\<close>), so the theorems that assume the laws
  speak about something, and it is the instance at which the witnesses evaluate. The outside
  world is a counter: random bytes are its value, and it is the next address. The random
  generator fails from 250 on and locking fails for addresses from 200 on, so that the error
  paths can be taken. Nothing here is meant to be secure, and no theorem about the program
  rests on this theory.
\<close>

section \<open>The functions\<close>

definition toy_tag :: "bytes \<Rightarrow> bytes \<Rightarrow> bytes \<Rightarrow> bytes \<Rightarrow> bytes" where
  "toy_tag k n p a = replicate POLY1305_OUTSIZE (sum_list k + sum_list n + sum_list p + sum_list a)"

definition toy_seal :: "bytes \<Rightarrow> bytes \<Rightarrow> bytes \<Rightarrow> bytes \<Rightarrow> nat \<Rightarrow> string + bytes" where
  "toy_seal k n p a out = Inr (p @ toy_tag k n p a)"

definition toy_open :: "bytes \<Rightarrow> bytes \<Rightarrow> bytes \<Rightarrow> bytes \<Rightarrow> nat \<Rightarrow> string + bytes" where
  "toy_open k n c a out =
     (let p = take (length c - POLY1305_OUTSIZE) c
      in if c = p @ toy_tag k n p a then Inr p else Inl ''tag'')"

definition toy_header_to_json :: "vault_header \<Rightarrow> string + bytes" where
  "toy_header_to_json h =
     (if length (kdf_salt h) = SALT_LEN
      then Inr (kdf_salt h @ u16_to_le (version h) @ u32_to_le (kdf_iterations h) @
        u32_to_le (kdf_memory_cost h) @ u64_to_le (key_length h))
      else Inl ''salt'')"

definition toy_header_from_json :: "bytes \<Rightarrow> string + vault_header" where
  "toy_header_from_json b =
     (if length b = 34
      then Inr \<lparr>version = u16_from_le (take 2 (drop 16 b)), kdf_salt = take 16 b,
        kdf_iterations = u32_from_le (take 4 (drop 18 b)),
        kdf_memory_cost = u32_from_le (take 4 (drop 22 b)),
        key_length = u64_from_le (drop 26 b)\<rparr>
      else Inl ''header'')"

text \<open>A legacy index: the entries of the given binary index, preceded by a dummy record.\<close>

definition toy_v1_meta :: "index_entry \<Rightarrow> v1_meta" where
  "toy_v1_meta e = \<lparr>is_dummy = False, meta_encrypted_data = Some (encrypted_data e),
     meta_encrypted_name = Some (encrypted_name e), meta_data_counter = data_counter e\<rparr>"

definition toy_dummy :: v1_meta where
  "toy_dummy = \<lparr>is_dummy = True, meta_encrypted_data = None, meta_encrypted_name = None,
     meta_data_counter = 0\<rparr>"

definition toy_index_v1_from_json :: "bytes \<Rightarrow> string + v1_index" where
  "toy_index_v1_from_json b =
     (case decode_index b of
        Inl e \<Rightarrow> Inl ''json''
      | Inr d \<Rightarrow> Inr \<lparr>v1_version = LEGACY_INDEX_VERSION_1,
          v1_nonce_counter = idx_nonce_counter d,
          v1_data_nonce_counter = idx_data_nonce_counter d,
          v1_files = ([], toy_dummy) # map (\<lambda>(k, e). (k, toy_v1_meta e)) (idx_files d)\<rparr>)"

definition sample :: "nat externals" where
  "sample =
     \<lparr>os_rng_fill = \<lambda>n w. if w < 250 then (Some (replicate n (of_nat w)), Suc w) else (None, w),
      memsec_malloc_sized = \<lambda>n h w.
        if h w = None then (Some (w, replicate n 0xAA), Suc w) else (None, Suc w),
      memsec_mlock = \<lambda>p n w. (p < 200, w),
      memsec_free = \<lambda>p w. w,
      chacha_secret_key = \<lambda>k. if length k = 32 then Inr k else Inl ''key'',
      xchacha_nonce = \<lambda>n. if length n = 24 then Inr n else Inl ''nonce'',
      xchacha_seal = toy_seal,
      xchacha_open = toy_open,
      hkdf_sha256 = \<lambda>salt ikm info n. Inr (replicate n (sum_list ikm + sum_list salt + sum_list info)),
      hmac_secret_key = \<lambda>k. Inr k,
      hmac_sha256 = \<lambda>k m. Inr (take 32 (m @ replicate 32 0)),
      secure_cmp = \<lambda>a b. a = b,
      argon2i_derive = \<lambda>pw salt it mem n. Inr (take n (pw @ replicate n 1)),
      argon2_params_new = \<lambda>m t p out. Inr \<lparr>m_cost = m, t_cost = t, p_cost = p, output_len = out\<rparr>,
      argon2_block_count = \<lambda>ps. unat (m_cost ps),
      argon2id_hash = \<lambda>ps pw salt n blocks. Inr (take n (pw @ replicate n 2)),
      header_to_json = toy_header_to_json,
      header_from_json = toy_header_from_json,
      index_v1_from_json = toy_index_v1_from_json\<rparr>"

definition sample_sys :: "nat sys" where
  "sample_sys = \<lparr>ext = 0, heap = Map.empty, locked = {}, released = []\<rparr>"

definition sample_password :: bytes where
  "sample_password = ascii ''password1234''"

section \<open>The laws\<close>

lemma toy_tag_length [simp]: "length (toy_tag k n p a) = POLY1305_OUTSIZE"
  by (simp add: toy_tag_def)

lemma sample_rng: "rng_laws sample"
  by (auto simp: rng_laws_def sample_def split: if_splits)

lemma sample_memsec: "memsec_laws sample"
  by (auto simp: memsec_laws_def sample_def split: if_splits)

lemma sample_aead: "aead_laws sample"
  by (auto simp: aead_laws_def sample_def toy_seal_def toy_open_def const_defs)

lemma sample_tidy: "aead_tidy sample"
  unfolding aead_tidy_def
proof (intro allI impI)
  fix k n c a p
  assume "POLY1305_OUTSIZE \<le> length c"
    and "xchacha_open sample k n c a (length c - POLY1305_OUTSIZE) = Inr p"
  then have "c = p @ toy_tag k n p a"
    by (simp add: sample_def toy_open_def Let_def split: if_splits)
  then show "length c = length p + POLY1305_OUTSIZE \<and>
      xchacha_seal sample k n p a (length c) = Inr c"
    by (simp add: sample_def toy_seal_def)
qed

lemma sample_hash: "hash_laws sample"
  by (auto simp: hash_laws_def sample_def)

lemma toy_header_roundtrip:
  assumes "length (kdf_salt h) = SALT_LEN" "toy_header_to_json h = Inr b"
  shows "length b = 34 \<and> toy_header_from_json b = Inr h"
proof -
  have salt: "length (kdf_salt h) = 16" using assms(1) by (simp add: SALT_LEN_def)
  with assms(2) have b: "b = kdf_salt h @ u16_to_le (version h) @ u32_to_le (kdf_iterations h) @
      u32_to_le (kdf_memory_cost h) @ u64_to_le (key_length h)"
    by (simp add: toy_header_to_json_def SALT_LEN_def)
  show ?thesis unfolding b toy_header_from_json_def by (simp add: salt)
qed

lemma toy_v1_distinct:
  assumes "toy_index_v1_from_json b = Inr i"
  shows "distinct (map fst (v1_files i))"
proof -
  from assms obtain d where d: "decode_index b = Inr d"
    and i: "v1_files i = ([], toy_dummy) # map (\<lambda>(k, e). (k, toy_v1_meta e)) (idx_files d)"
    by (auto simp: toy_index_v1_from_json_def split: sum.splits)
  from decode_index_inv(1) [OF d] have fs: "distinct (map fst (idx_files d))"
    and hex: "\<forall>f \<in> set (idx_files d). is_hex_key (fst f)"
    by (auto simp: files_ok_def list_all_iff file_ok_def)
  have keys: "map fst (map (\<lambda>(k, e). (k, toy_v1_meta e)) (idx_files d)) = map fst (idx_files d)"
    by (auto simp: o_def case_prod_beta)
  have "[] \<notin> set (map fst (idx_files d))" using hex by (auto simp: is_hex_key_def)
  with fs show ?thesis unfolding i list.map keys by simp
qed

lemma sample_json: "json_laws sample"
  unfolding json_laws_def
proof (intro conjI allI impI)
  fix h :: vault_header
  assume salt: "length (kdf_salt h) = SALT_LEN"
  then obtain b where b: "toy_header_to_json h = Inr b" by (simp add: toy_header_to_json_def)
  with toy_header_roundtrip [OF salt b]
  show "\<exists>b. header_to_json sample h = Inr b \<and> length b \<le> MAX_HEADER_JSON_LEN \<and>
      header_from_json sample b = Inr h"
    by (simp add: sample_def const_defs)
next
  fix b h
  assume "header_from_json sample b = Inr h"
  then show "length (kdf_salt h) = SALT_LEN"
    by (auto simp: sample_def toy_header_from_json_def const_defs split: if_splits)
next
  fix b i
  assume "index_v1_from_json sample b = Inr i"
  then show "distinct (map fst (v1_files i))"
    by (intro toy_v1_distinct) (simp add: sample_def)
qed

lemma sample_laws: "ext_laws sample"
  by (simp add: ext_laws_def sample_rng sample_memsec sample_aead sample_hash sample_json)

section \<open>Operations on the instance\<close>

lemma sample_fields:
  "os_rng_fill sample n w = (if w < 250 then (Some (replicate n (of_nat w)), Suc w) else (None, w))"
  "memsec_malloc_sized sample n h w =
     (if h w = None then (Some (w, replicate n 0xAA), Suc w) else (None, Suc w))"
  "memsec_mlock sample p n w = (p < 200, w)"
  "memsec_free sample p w = w"
  "chacha_secret_key sample k = (if length k = 32 then Inr k else Inl ''key'')"
  "xchacha_nonce sample c = (if length c = 24 then Inr c else Inl ''nonce'')"
  "xchacha_seal sample = toy_seal" "xchacha_open sample = toy_open"
  "hkdf_sha256 sample salt ikm info n =
     Inr (replicate n (sum_list ikm + sum_list salt + sum_list info))"
  "hmac_secret_key sample k = Inr k"
  "hmac_sha256 sample k m = Inr (take 32 (m @ replicate 32 0))"
  "secure_cmp sample a b = (a = b)"
  "argon2i_derive sample pw salt it mem n = Inr (take n (pw @ replicate n 1))"
  "argon2_params_new sample mc t q out = Inr \<lparr>m_cost = mc, t_cost = t, p_cost = q, output_len = out\<rparr>"
  "argon2_block_count sample ps = unat (m_cost ps)"
  "argon2id_hash sample ps pw salt n blocks = Inr (take n (pw @ replicate n 2))"
  "header_to_json sample = toy_header_to_json" "header_from_json sample = toy_header_from_json"
  "index_v1_from_json sample = toy_index_v1_from_json"
  by (simp_all add: sample_def)

definition toy_master_key :: "bytes \<Rightarrow> bytes" where
  "toy_master_key password = take 32 (password @ replicate 32 2)"

definition toy_ek :: "bytes \<Rightarrow> bytes \<Rightarrow> bytes" where
  "toy_ek password salt =
     replicate 32 (sum_list (toy_master_key password) + sum_list salt + sum_list ENCRYPTION_SUBKEY_INFO)"

definition toy_hk :: "bytes \<Rightarrow> bytes \<Rightarrow> bytes" where
  "toy_hk password salt =
     replicate 32 (sum_list (toy_master_key password) + sum_list salt + sum_list HMAC_SUBKEY_INFO)"

lemma toy_key_facts [simp]:
  "length (toy_ek pw salt) = 32" "length (toy_hk pw salt) = 32"
  "toy_ek pw salt \<noteq> []" "toy_hk pw salt \<noteq> []"
  by (simp_all add: toy_ek_def toy_hk_def numeral_eq_Suc)

definition toy_header :: "byte \<Rightarrow> vault_header" where
  "toy_header b = vault_header_new (replicate 16 b) ITERATIONS MEMORY_COST (of_nat KEY_LEN)"

lemma toy_master: "derive_master_key sample pw (toy_header b) = Inr (toy_master_key pw)"
  by (simp add: derive_master_key_def sample_fields toy_header_def vault_header_new_def
      toy_master_key_def const_defs)

lemma toy_subkeys: "derive_subkeys sample (toy_master_key pw) salt = Inr (toy_ek pw salt, toy_hk pw salt)"
  by (simp add: derive_subkeys_def sample_fields toy_ek_def toy_hk_def const_defs)

lemma toy_password_keys:
  "password_keys sample pw (toy_header b) =
     Inr (toy_ek pw (replicate 16 b), toy_hk pw (replicate 16 b))"
  by (simp add: password_keys_def toy_master toy_subkeys)
    (simp add: toy_header_def vault_header_new_def)

lemma toy_lock:
  assumes "p < 199" "h p = None" "h (Suc p) = None" "a \<noteq> []" "b \<noteq> []"
  shows "lock_subkeys sample a b \<lparr>ext = p, heap = h, locked = L, released = R\<rparr> =
    (Inr (LockedSecret (LockedRegion p), LockedSecret (LockedRegion (Suc p))),
     \<lparr>ext = Suc (Suc p), heap = h(p \<mapsto> a, Suc p \<mapsto> b), locked = insert (Suc p) (insert p L),
      released = R\<rparr>)"
  using assms
  by (simp add: lock_subkeys_def locked_secret_new_def locked_region_new_def mem_defs sample_fields)

lemma toy_fill:
  "n \<noteq> 0 \<Longrightarrow> ext s < 250 \<Longrightarrow>
     secure_bytes_fill sample n s = (Inr (replicate n (of_nat (ext s))), s\<lparr>ext := Suc (ext s)\<rparr>)"
  by (simp add: secure_bytes_fill_def sample_fields)

text \<open>The vault \<open>create\<close> makes when the world is at \<open>w\<close>.\<close>

definition toy_vault :: "nat \<Rightarrow> vault" where
  "toy_vault w = \<lparr>header = toy_header (of_nat w),
     index = \<lparr>nonce = replicate 24 (of_nat (Suc w)), nonce_counter = 0, data_nonce_counter = 0,
       files = [], enc_key = LockedSecret (LockedRegion (Suc (Suc w))),
       hmac_key = LockedSecret (LockedRegion (Suc (Suc (Suc w))))\<rparr>\<rparr>"

definition toy_run :: "bytes \<Rightarrow> nat \<Rightarrow> nat sys \<Rightarrow> nat sys" where
  "toy_run pw w s =
     \<lparr>ext = Suc (Suc (Suc (Suc w))),
      heap = (heap s)(Suc (Suc w) \<mapsto> toy_ek pw (replicate 16 (of_nat w)),
        Suc (Suc (Suc w)) \<mapsto> toy_hk pw (replicate 16 (of_nat w))),
      locked = insert (Suc (Suc (Suc w))) (insert (Suc (Suc w)) (locked s)),
      released = released s\<rparr>"

lemma toy_from_master_key:
  assumes "ext s = Suc w" "w < 190" "heap s (Suc (Suc w)) = None"
    "heap s (Suc (Suc (Suc w))) = None"
  shows "from_master_key sample (toy_master_key pw) (replicate 16 (of_nat w)) s =
    (Inr (index (toy_vault w)), toy_run pw w s)"
  using assms toy_lock [of "Suc (Suc w)" "heap s" "toy_ek pw (replicate 16 (of_nat w))"
    "toy_hk pw (replicate 16 (of_nat w))" "locked s" "released s"]
  by (cases s)
    (simp add: from_master_key_def toy_subkeys toy_fill toy_vault_def toy_run_def const_defs)

lemma toy_generate:
  "ext s < 250 \<Longrightarrow> vault_header_generate sample s =
     (Inr (toy_header (of_nat (ext s))), s\<lparr>ext := Suc (ext s)\<rparr>)"
  by (simp add: vault_header_generate_def toy_fill toy_header_def const_defs)

lemma toy_create:
  assumes "ext s = w" "w < 190" "heap s (Suc (Suc w)) = None" "heap s (Suc (Suc (Suc w))) = None"
    and "8 \<le> length pw"
  shows "create sample pw s = (Inr (toy_vault w), toy_run pw w s)"
proof -
  have salt: "kdf_salt (toy_header (of_nat w)) = replicate 16 (of_nat w)"
    by (simp add: toy_header_def vault_header_new_def)
  have "toy_run pw w (s\<lparr>ext := Suc w\<rparr>) = toy_run pw w s" by (simp add: toy_run_def)
  moreover have "header (toy_vault w) = toy_header (of_nat w)" by (simp add: toy_vault_def)
  ultimately show ?thesis
    using assms toy_from_master_key [of "s\<lparr>ext := Suc w\<rparr>" w pw]
    by (simp add: create_def validate_password_def toy_generate toy_master salt const_defs)
qed

definition toy_entry :: "bytes \<Rightarrow> bytes \<Rightarrow> u64 \<Rightarrow> nat \<Rightarrow> bytes \<Rightarrow> bytes \<Rightarrow> index_entry" where
  "toy_entry ek k c w name p =
     (let n1 = replicate 24 (of_nat w); n2 = replicate 24 (of_nat (Suc w)); a = build_entry_aad k c
      in \<lparr>data_counter = c, encrypted_name = n2 @ name @ toy_tag ek n2 name a,
          encrypted_data = n1 @ p @ toy_tag ek n1 p a\<rparr>)"

definition toy_name_key :: "bytes \<Rightarrow> bytes" where
  "toy_name_key name = key_to_hex (take 32 (name @ replicate 32 0))"

lemma toy_name_key: "name_key sample hk name = Inr (toy_name_key name)"
  by (simp add: name_key_def sample_fields toy_name_key_def)

lemma toy_store:
  assumes "keys_live s (index v) ek hk" "ext s < 240" "length name \<le> 255" "length p \<le> 1000"
    and "unat (data_nonce_counter (index v)) < 1000" "length (files (index v)) < 1024"
  shows "store sample v s name p =
    (Inr (), v\<lparr>index := (index v)\<lparr>data_nonce_counter := data_nonce_counter (index v) + 1,
       files := AList.update (toy_name_key name)
         (toy_entry ek (toy_name_key name) (data_nonce_counter (index v)) (ext s) name p)
         (files (index v))\<rparr>\<rparr>, s\<lparr>ext := Suc (Suc (ext s))\<rparr>)"
proof -
  let ?i = "index v" and ?k = "toy_name_key name" and ?d = "data_nonce_counter (index v)"
  let ?i1 = "?i\<lparr>data_nonce_counter := ?d + 1\<rparr>" and ?s2 = "s\<lparr>ext := Suc (Suc (ext s))\<rparr>"
  let ?n1 = "replicate 24 (of_nat (ext s)) :: bytes"
  let ?n2 = "replicate 24 (of_nat (Suc (ext s))) :: bytes"
  let ?e = "toy_entry ek ?k ?d (ext s) name p"
  have ek: "length ek = 32" using assms(1) by (simp add: keys_live_def const_defs)
  have "extract_enc_key ?s2 (enc_key ?i1) = Inr ek"
    using assms(1) by (simp add: keys_live_def extract_enc_key_def const_defs)
  then have e: "seal_entry sample ?s2 (enc_key ?i1) ?k ?d ?n1 ?n2 name p = Inr ?e"
    using ek by (simp add: seal_entry_def seal_with_aad_def sample_fields toy_seal_def
        toy_entry_def Let_def)
  have ins: "insert_by_key ?i1 ?k ?e = (Inr (), ?i1\<lparr>files := AList.update ?k ?e (files ?i)\<rparr>)"
    using assms(6) by (simp add: insert_by_key_def hm_insert_def const_defs)
  have c: "next_data_nonce_counter ?i = (Inr ?d, ?i1)"
    using assms(5) by (simp add: next_data_nonce_counter_def u64_checked_add_def Let_def)
  have k: "hmac_key_for_name sample s ?i name = Inr ?k"
    by (simp add: keys_live_hmac [OF assms(1)] toy_name_key)
  have n1: "secure_bytes_fill sample XCHACHA20_NONCE_LEN s = (Inr ?n1, s\<lparr>ext := Suc (ext s)\<rparr>)"
    and n2: "secure_bytes_fill sample XCHACHA20_NONCE_LEN (s\<lparr>ext := Suc (ext s)\<rparr>) = (Inr ?n2, ?s2)"
    using assms(2) by (simp_all add: toy_fill const_defs)
  show ?thesis
    using store_body [OF _ _ k c n1 n2 e ins] assms(3,4)
    by (simp add: const_defs)
qed
section \<open>A vault with one entry\<close>

definition sample_name :: bytes where "sample_name = ascii ''api''"
definition other_name :: bytes where "other_name = ascii ''db''"
definition sample_secret :: bytes where "sample_secret = ascii ''s3cret''"

definition sample_vault :: vault where "sample_vault = toy_vault 0"
definition sample_run :: "nat sys" where "sample_run = toy_run sample_password 0 sample_sys"

definition sample_ek :: bytes where "sample_ek = toy_ek sample_password (replicate 16 0)"
definition sample_hk :: bytes where "sample_hk = toy_hk sample_password (replicate 16 0)"

definition sample_filled :: vault where
  "sample_filled = sample_vault\<lparr>index := (index sample_vault)\<lparr>data_nonce_counter := 1,
     files := [(toy_name_key sample_name,
       toy_entry sample_ek (toy_name_key sample_name) 0 4 sample_name sample_secret)]\<rparr>\<rparr>"

definition sample_run2 :: "nat sys" where
  "sample_run2 = sample_run\<lparr>ext := 6\<rparr>"

lemma sample_password_length: "length sample_password = 12"
  by (simp add: sample_password_def)

lemma sample_create: "create sample sample_password sample_sys = (Inr sample_vault, sample_run)"
  unfolding sample_vault_def sample_run_def
  by (rule toy_create) (simp_all add: sample_sys_def sample_password_length)

lemma sample_mem_ok: "mem_ok sample_sys"
  by (simp add: mem_ok_def sample_sys_def)

lemma sample_keys: "keys_live sample_run (index sample_vault) sample_ek sample_hk"
  by (simp add: keys_live_def sample_run_def sample_vault_def toy_vault_def toy_run_def
      secret_bytes_def sample_ek_def sample_hk_def SUBKEY_LEN_def)

lemma sample_password_keys:
  "password_keys sample sample_password (header sample_vault) = Inr (sample_ek, sample_hk)"
  by (simp add: sample_vault_def toy_vault_def toy_password_keys sample_ek_def sample_hk_def)

lemma sample_vault_ok: "vault_ok sample_run sample_vault"
  "unlocked_by sample sample_password sample_run sample_vault"
proof -
  obtain ek hk where "fresh_vault sample sample_password sample_sys sample_vault ek hk sample_run"
    by (rule create_ok [OF sample_laws sample_mem_ok sample_create])
  then show "vault_ok sample_run sample_vault"
    "unlocked_by sample sample_password sample_run sample_vault"
    by (rule fresh_vault_ok)+
qed

lemma sample_store:
  "store sample sample_vault sample_run sample_name sample_secret =
     (Inr (), sample_filled, sample_run2)"
proof -
  have facts: "ext sample_run = 4" "files (index sample_vault) = []"
    "data_nonce_counter (index sample_vault) = 0"
    by (simp_all add: sample_run_def toy_run_def sample_vault_def toy_vault_def numeral_eq_Suc)
  have "length sample_name \<le> 255" "length sample_secret \<le> 1000"
    by (simp_all add: sample_name_def sample_secret_def)
  from toy_store [OF sample_keys _ this] facts show ?thesis
    by (simp add: sample_filled_def sample_run2_def)
qed

lemma sample_filled_keys: "keys_live sample_run2 (index sample_filled) sample_ek sample_hk"
  using store_keys(1) [OF sample_store] sample_keys by blast

lemma sample_filled_ok: "vault_ok sample_run2 sample_filled"
  by (rule store_vault_ok [OF sample_laws sample_vault_ok(1) sample_store])

lemma sample_filled_header: "header sample_filled = header sample_vault"
  by (rule store_keys(2) [OF sample_store])

lemma sample_filled_unlocked: "unlocked_by sample sample_password sample_run2 sample_filled"
  using sample_password_keys sample_filled_keys by (auto simp: unlocked_by_def sample_filled_header)

lemma sample_files:
  "files (index sample_filled) = [(toy_name_key sample_name,
     toy_entry sample_ek (toy_name_key sample_name) 0 4 sample_name sample_secret)]"
  by (simp add: sample_filled_def)

lemma sample_counters:
  "nonce_counter (index sample_filled) = 0" "data_nonce_counter (index sample_filled) = 1"
  by (simp_all add: sample_filled_def sample_vault_def toy_vault_def)

lemma sample_names_apart: "names_apart sample hk {sample_name, other_name}"
proof -
  have "take 32 (sample_name @ replicate 32 0) \<noteq> take 32 (other_name @ replicate 32 0)"
    by (simp add: sample_name_def other_name_def ascii_def)
  then have "toy_name_key sample_name \<noteq> toy_name_key other_name"
    by (simp only: toy_name_key_def key_to_hex_inject not_False_eq_True)
  then show ?thesis by (auto simp: names_apart_def toy_name_key)
qed

lemma sample_export:
  "\<exists>out v' s'. export sample sample_filled sample_run2 = (Inr out, v', s')"
proof -
  let ?i = "index sample_filled" and ?n = "replicate 24 6 :: bytes"
  let ?i1 = "?i\<lparr>nonce_counter := 1, nonce := ?n\<rparr>" and ?s1 = "sample_run2\<lparr>ext := 7\<rparr>"
  have adv: "advance_nonce sample ?i sample_run2 = (Inr (), ?i1, ?s1)"
    by (simp add: advance_nonce_def u64_checked_add_def sample_counters toy_fill const_defs
        sample_run2_def)
  have files: "files_ok (files ?i)" using sample_filled_ok by (simp add: vault_ok_def index_ok_def)
  then have enc: "encode_index ?i1 = Inr (index_layout 1 1 (files ?i))"
    using encode_index_ok [of ?i1] by (simp add: sample_counters)
  have "length (index_layout 1 1 (files ?i)) \<le> 1000"
    using files length_index_layout [of "files ?i" 1 1]
    by (simp add: files_ok_def sample_files toy_entry_def Let_def const_defs sample_name_def
        sample_secret_def)
  moreover have "keys_live ?s1 ?i1 sample_ek sample_hk"
    using sample_filled_keys by (simp add: keys_live_def)
  moreover have "length sample_ek = 32" by (simp add: sample_ek_def)
  moreover obtain hj where "toy_header_to_json (header sample_filled) = Inr hj"
      "length hj = 34"
    by (simp add: sample_filled_header sample_vault_def toy_vault_def toy_header_def
        toy_header_to_json_def vault_header_new_def const_defs)
  ultimately show ?thesis
    by (simp add: export_def adv enc keys_live_enc [of ?s1 ?i1 sample_ek sample_hk, simplified]
        to_aad_bytes_def sample_fields seal_with_aad_def toy_seal_def assemble_envelope_def
        validate_export_size_def const_defs Let_def)
qed
lemma toy_entry_sealed:
  assumes "length ek = 32"
  shows "sealed_entry sample ek k name p (toy_entry ek k c w name p)"
proof -
  have "seal_entry sample s es k c (replicate 24 (of_nat w)) (replicate 24 (of_nat (Suc w))) name p =
      Inr (toy_entry ek k c w name p)" if "extract_enc_key s es = Inr ek" for s :: "nat sys" and es
    using that assms by (simp add: seal_entry_def seal_with_aad_def sample_fields toy_seal_def
        toy_entry_def Let_def)
  moreover have "extract_enc_key \<lparr>ext = 0, heap = [0 \<mapsto> ek], locked = {}, released = []\<rparr>
      (LockedSecret (LockedRegion 0)) = Inr ek"
    using assms by (simp add: extract_enc_key_def with_bytes_def locked_region_as_slice_def mem_read_def)
  ultimately show ?thesis by (intro seal_entry_ok(1)) (auto simp: const_defs)
qed

lemma toy_rekey:
  assumes "keys_live s (index v) ek hk" "ext s < 190"
    and "heap s (Suc (Suc (ext s))) = None" "heap s (Suc (Suc (Suc (ext s)))) = None"
    and "files (index v) = [(k, toy_entry ek k c w name p)]"
    and "utf8_valid name" "length name \<le> 255" "length p \<le> 1000"
  shows "\<exists>v' s'. rekey sample v s pw = (Inr (), v', s')"
proof -
  let ?w = "ext s" and ?s1 = "s\<lparr>ext := Suc (ext s)\<rparr>"
  let ?new = "toy_vault ?w" and ?s2 = "toy_run pw ?w ?s1"
  have ek: "length ek = SUBKEY_LEN" using assms(1) by (simp add: keys_live_def)
  have salt: "kdf_salt (toy_header (of_nat ?w)) = replicate 16 (of_nat ?w)"
    by (simp add: toy_header_def vault_header_new_def)
  have new: "from_master_key sample (toy_master_key pw) (replicate 16 (of_nat ?w)) ?s1 =
      (Inr (index ?new), ?s2)"
    by (rule toy_from_master_key) (use assms(2-4) in simp_all)
  have newv: "\<lparr>header = toy_header (of_nat ?w), index = index ?new\<rparr> = ?new"
    by (simp add: toy_vault_def)
  have old: "extract_enc_key ?s2 (enc_key (index v)) = Inr ek"
  proof (rule keys_live_enc)
    show "keys_live ?s2 (index v) ek hk"
      using assms(1,3,4) by (auto simp: keys_live_def toy_run_def secret_bytes_def)
  qed
  have live: "keys_live ?s2 (index ?new) (toy_ek pw (replicate 16 (of_nat ?w)))
      (toy_hk pw (replicate 16 (of_nat ?w)))"
    by (simp add: keys_live_def toy_run_def toy_vault_def secret_bytes_def SUBKEY_LEN_def)
  have "ext ?s2 < 240" "unat (data_nonce_counter (index ?new)) < 1000"
    "length (files (index ?new)) < 1024"
    using assms(2) by (simp_all add: toy_run_def toy_vault_def)
  note st = toy_store [OF live this(1) assms(7,8) this(2,3)]
  have "decrypt_entry sample ek k (toy_entry ek k c w name p) = Inr (name, p)"
    by (rule decrypt_entry_of_sealed [OF sample_aead ek toy_entry_sealed assms(6)])
      (use ek in \<open>simp add: SUBKEY_LEN_def\<close>)
  with st assms(2) show ?thesis
    by (simp add: rekey_def toy_generate toy_master salt new newv old assms(5))
qed

lemma sample_change_password:
  "\<exists>v' s'. change_password sample sample_filled sample_run2 sample_password
     (ascii ''new password'') = (Inr (), v', s')"
proof -
  have "verify_password sample sample_filled sample_run2 sample_password = Inr ()"
    using sample_password_keys
    by (auto simp: verify_password_iff [OF sample_hash sample_filled_keys] sample_filled_header)
  moreover have "\<exists>v' s'. rekey sample sample_filled sample_run2 (ascii ''new password'') = (Inr (), v', s')"
    by (rule toy_rekey [OF sample_filled_keys _ _ _ sample_files])
      (simp_all add: sample_run2_def sample_run_def toy_run_def sample_sys_def sample_name_def
        sample_secret_def utf8_valid_ascii ascii_def)
  ultimately show ?thesis by (auto simp: change_password_def validate_password_def const_defs)
qed

section \<open>An envelope\<close>

text \<open>The envelope of a header as \<open>create\<close> generates it, with an arbitrary payload.\<close>

definition sample_header_json :: bytes where
  "sample_header_json = projr (toy_header_to_json (toy_header 0))"

lemma sample_header_json:
  "header_to_json sample (toy_header 0) = Inr sample_header_json"
  "header_from_json sample sample_header_json = Inr (toy_header 0)"
  "length sample_header_json = 34" "header_in_policy (toy_header 0)"
  "version (toy_header 0) = VAULT_VERSION"
proof -
  have salt: "length (kdf_salt (toy_header 0)) = SALT_LEN"
    by (simp add: toy_header_def vault_header_new_def const_defs)
  then have hj: "toy_header_to_json (toy_header 0) = Inr sample_header_json"
    by (simp add: sample_header_json_def toy_header_to_json_def)
  from toy_header_roundtrip [OF salt hj] hj
  show "header_to_json sample (toy_header 0) = Inr sample_header_json"
    "header_from_json sample sample_header_json = Inr (toy_header 0)"
    "length sample_header_json = 34" by (simp_all add: sample_fields)
  show "header_in_policy (toy_header 0)" "version (toy_header 0) = VAULT_VERSION"
    by (simp_all add: toy_header_def vault_header_new_def header_in_policy_def const_defs)
qed

definition sample_envelope :: bytes where
  "sample_envelope = assemble_envelope sample_header_json (replicate 24 9) [1, 2, 3]"

lemma sample_envelope_parses:
  "parse_envelope sample sample_envelope =
     Inr \<lparr>env_header = toy_header 0, env_nonce = replicate 24 9, env_encrypted_index = [1, 2, 3]\<rparr>"
  using sample_header_json
  by (intro parse_envelope_layout [of sample _ sample_header_json _ "[]"])
    (simp_all add: sample_envelope_def assemble_envelope_def legacy_gap_def const_defs)

end
