(* ===== verification/Fuzzing.thy ===== *)
theory Fuzzing
  imports Envelope
begin

text \<open>
  The entry points of the fuzz targets (\<open>src/fuzzing.rs\<close>): each runs one parser of untrusted
  input and returns whether the input was accepted. The lemmas say what acceptance means, in
  terms of the layouts the library writes.
\<close>

definition is_ok :: "'e + 'a \<Rightarrow> bool" where
  "is_ok r = (case r of Inl e \<Rightarrow> False | Inr x \<Rightarrow> True)"

definition fuzz_parse_envelope :: "'w externals \<Rightarrow> bytes \<Rightarrow> bool" where
  "fuzz_parse_envelope X data = is_ok (parse_envelope X data)"

definition fuzz_decode_index :: "bytes \<Rightarrow> bool" where
  "fuzz_decode_index bs = is_ok (decode_index bs)"

definition fuzz_decode_index_v1 :: "'w externals \<Rightarrow> bytes \<Rightarrow> bool" where
  "fuzz_decode_index_v1 X bs = is_ok (decode_index_v1 X bs)"

lemma is_ok_iff: "is_ok r \<longleftrightarrow> (\<exists>x. r = Inr x)"
  by (cases r) (simp_all add: is_ok_def)

lemma fuzz_decode_index_iff:
  "fuzz_decode_index bs \<longleftrightarrow> (\<exists>nc dc fs. files_ok fs \<and> bs = index_layout nc dc fs)"
proof
  assume "fuzz_decode_index bs"
  then obtain d where "decode_index bs = Inr d" by (auto simp: fuzz_decode_index_def is_ok_iff)
  then show "\<exists>nc dc fs. files_ok fs \<and> bs = index_layout nc dc fs"
    by (auto simp: decode_index_iff)
qed (auto simp: fuzz_decode_index_def is_ok_iff decode_index_layout)

lemma fuzz_parse_envelope_bounds:
  "fuzz_parse_envelope X data \<Longrightarrow> length data \<le> MAX_VAULT_FILE_SIZE"
  by (auto simp: fuzz_parse_envelope_def is_ok_iff elim: parse_envelope_inv)

end
