(* ===== verification/FormatProperties.thy ===== *)
theory FormatProperties
  imports Sample Fuzzing
begin

text \<open>
  The properties of the file format: hexadecimal keys, the index codec, the legacy index and
  the envelope. Each is stated over the definitions of \<open>Hex\<close>, \<open>IndexCodec\<close> and
  \<open>Envelope\<close>; the witnesses apply it to the entries of \<open>Sample\<close>.
\<close>

section \<open>The index codec\<close>

text \<open>The index whose counters and entries are those of decoded data.\<close>

definition index_of_data :: "index_data \<Rightarrow> vault_index" where
  "index_of_data d = \<lparr>nonce = [], nonce_counter = idx_nonce_counter d,
     data_nonce_counter = idx_data_nonce_counter d, files = idx_files d,
     enc_key = LockedSecret (LockedRegion 0), hmac_key = LockedSecret (LockedRegion 0)\<rparr>"

lemma sample_files_ok: "files_ok (files (index sample_filled))"
  using sample_filled_ok by (simp add: vault_ok_def index_ok_def)

text \<open>C26: Encoding an index whose entries are within the bounds succeeds, the output has exactly
  the length the encoder reserves (the debug assertion of the code), and decoding it gives back
  both counters and all entries in order.\<close>

theorem decode_encode_index:
  assumes "files_ok (files idx)"
  shows "\<exists>bs. encode_index idx = Inr bs \<and> length bs = encoded_total idx \<and>
    decode_index bs = Inr \<lparr>idx_nonce_counter = nonce_counter idx,
      idx_data_nonce_counter = data_nonce_counter idx, idx_files = files idx\<rparr>"
  using assms encode_index_ok [OF assms] decode_index_layout [OF assms]
    length_index_layout [of "files idx"]
  by (simp add: encoded_total_def files_ok_def)

theorem decode_encode_index_witness:
  "\<exists>bs. encode_index (index sample_filled) = Inr bs \<and>
     length bs = encoded_total (index sample_filled) \<and>
     decode_index bs = Inr \<lparr>idx_nonce_counter = nonce_counter (index sample_filled),
       idx_data_nonce_counter = data_nonce_counter (index sample_filled),
       idx_files = files (index sample_filled)\<rparr>"
  by (rule decode_encode_index [OF sample_files_ok])

text \<open>C25: The decoder is canonical: it accepts a byte string exactly when it is the encoding of
  the decoded data and that data is within the bounds (at most 1024 distinct 64-digit keys,
  admissible ciphertext sizes). So no two byte strings decode to the same index.\<close>

theorem decode_index_canonical:
  "decode_index bs = Inr d \<longleftrightarrow>
     files_ok (idx_files d) \<and> encode_index (index_of_data d) = Inr bs"
  using encode_index_ok [of "index_of_data d"]
  by (auto simp: decode_index_iff index_of_data_def)

text \<open>Accepted indexes are prefix-free: neither a truncation of an accepted index nor an
  accepted index with bytes appended is accepted.\<close>

theorem decode_index_no_extension:
  assumes "decode_index bs = Inr d" "x \<noteq> []"
  shows "\<exists>e. decode_index (bs @ x) = Inl e \<and> is_corrupted e"
  using assms decode_index_prefix_free [of bs d x] decode_index_err [of "bs @ x"]
  by (cases "decode_index (bs @ x)") auto

theorem decode_index_no_extension_witness:
  "\<exists>e. decode_index (index_layout 3 7 [] @ [0]) = Inl e \<and> is_corrupted e"
  by (rule decode_index_no_extension [OF decode_index_layout]) (simp_all add: files_ok_def)

text \<open>Whatever the input, the decoder of either index format ends with data or with a
  \<open>CorruptedData\<close> error; data it returns is within the bounds.\<close>

lemma index_decoders_total:
  assumes "json_laws X"
  shows "(case decode_index bs of Inl e \<Rightarrow> is_corrupted e | Inr d \<Rightarrow> files_ok (idx_files d)) \<and>
    (case decode_index_v1 X bs of Inl e \<Rightarrow> is_corrupted e | Inr d \<Rightarrow> files_ok (idx_files d))"
  using decode_index_err decode_index_inv(1) decode_index_v1_err [of X bs]
    decode_index_v1_files_ok [OF assms, of bs]
  by (simp_all split: sum.split)

lemma index_decoders_total_witness:
  "(case decode_index [1, 2, 3] of Inl e \<Rightarrow> is_corrupted e | Inr d \<Rightarrow> files_ok (idx_files d)) \<and>
   (case decode_index_v1 sample [1, 2, 3] of Inl e \<Rightarrow> is_corrupted e
    | Inr d \<Rightarrow> files_ok (idx_files d))"
  by (rule index_decoders_total [OF sample_json])

text \<open>C35: The legacy conversion keeps exactly the real records: a JSON index is accepted when it
  has version 1, at most 1024 records, and every record that is not a dummy has a 64-digit key
  and both ciphertexts within the bounds; the result lists those records in order under their
  keys and drops the dummies.\<close>

theorem decode_index_v1_exact:
  assumes "json_laws X"
  shows "decode_index_v1 X json = Inr d \<longleftrightarrow>
    (\<exists>i. index_v1_from_json X json = Inr i \<and> v1_version i = LEGACY_INDEX_VERSION_1 \<and>
       length (v1_files i) \<le> MAX_INDEX_ENTRIES \<and> list_all v1_meta_ok (v1_files i) \<and>
       d = \<lparr>idx_nonce_counter = v1_nonce_counter i,
            idx_data_nonce_counter = v1_data_nonce_counter i,
            idx_files = v1_entries (v1_files i)\<rparr>)"
  by (rule decode_index_v1_iff [OF assms])

theorem decode_index_v1_exact_witness:
  "decode_index_v1 sample (index_layout 3 7 []) =
     Inr \<lparr>idx_nonce_counter = 3, idx_data_nonce_counter = 7, idx_files = []\<rparr>"
proof -
  have "index_v1_from_json sample (index_layout 3 7 []) =
      Inr \<lparr>v1_version = LEGACY_INDEX_VERSION_1, v1_nonce_counter = 3,
        v1_data_nonce_counter = 7, v1_files = [([], toy_dummy)]\<rparr>"
    by (simp add: sample_fields toy_index_v1_from_json_def decode_index_layout files_ok_def)
  then show ?thesis
    by (subst decode_index_v1_exact [OF sample_json])
      (simp add: v1_meta_ok_def toy_dummy_def const_defs)
qed

section \<open>Hexadecimal keys\<close>

text \<open>\<open>hex_to_key\<close> and \<open>key_to_hex\<close> are inverse on exactly the 32-byte keys, and
  \<open>hex_to_key\<close> accepts exactly the strings of 64 digits \<open>0-9a-f\<close>.\<close>

lemma hex_keys_roundtrip:
  "(hex_to_key hex = Some key \<longleftrightarrow> length key = ENTRY_KEY_LEN \<and> hex = key_to_hex key) \<and>
   (hex_to_key hex = None \<longleftrightarrow> \<not> is_hex_key hex)"
  by (simp add: hex_to_key_Some_iff hex_to_key_None_iff)

section \<open>The envelope\<close>

text \<open>C27: Every input \<open>parse_envelope\<close> accepts is at most 256 MiB long and is the canonical
  layout of its parts: the length of the header, the header exactly as the library serializes
  it, a 24-byte nonce, 8 legacy bytes for version 1, and the encrypted index. The header it
  returns has a supported version and key-derivation parameters inside the policy.\<close>

theorem parse_envelope_canonical:
  assumes "parse_envelope X data = Inr env"
  shows "\<exists>hj gap. header_to_json X (env_header env) = Inr hj \<and>
    length data \<le> MAX_VAULT_FILE_SIZE \<and> length hj \<le> MAX_HEADER_JSON_LEN \<and>
    header_in_policy (env_header env) \<and> length (env_nonce env) = XCHACHA20_NONCE_LEN \<and>
    length gap = legacy_gap (env_header env) \<and>
    data = u32_to_le (of_nat (length hj)) @ hj @ env_nonce env @ gap @ env_encrypted_index env"
  using assms by (rule parse_envelope_inv) blast

theorem parse_envelope_canonical_witness:
  "\<exists>hj gap. header_to_json sample (toy_header 0) = Inr hj \<and>
    length sample_envelope \<le> MAX_VAULT_FILE_SIZE \<and> length hj \<le> MAX_HEADER_JSON_LEN \<and>
    header_in_policy (toy_header 0) \<and> length (replicate 24 (9 :: byte)) = XCHACHA20_NONCE_LEN \<and>
    length gap = legacy_gap (toy_header 0) \<and>
    sample_envelope = u32_to_le (of_nat (length hj)) @ hj @ replicate 24 9 @ gap @ [1, 2, 3]"
  using parse_envelope_canonical [OF sample_envelope_parses] by simp

text \<open>What \<open>export\<close> assembles parses back: for a header in the policy whose serialization
  reads back, the envelope of a 24-byte nonce and any payload parses to that header, nonce and
  payload as long as it is at most 256 MiB.\<close>

lemma parse_assembled_envelope:
  assumes "header_to_json X h = Inr hj" "header_from_json X hj = Inr h" "header_in_policy h"
    and "version h = VAULT_VERSION" "length hj \<le> MAX_HEADER_JSON_LEN"
    and "length n = XCHACHA20_NONCE_LEN" "length (assemble_envelope hj n c) \<le> MAX_VAULT_FILE_SIZE"
  shows "parse_envelope X (assemble_envelope hj n c) =
    Inr \<lparr>env_header = h, env_nonce = n, env_encrypted_index = c\<rparr>"
  using assms(4,7)
  by (intro parse_envelope_layout [OF assms(1-3,5,6), of "[]"])
    (simp_all add: assemble_envelope_def legacy_gap_def const_defs)

theorem parse_assembled_envelope_witness:
  "parse_envelope sample (assemble_envelope sample_header_json (replicate 24 9) [4, 5]) =
     Inr \<lparr>env_header = toy_header 0, env_nonce = replicate 24 9, env_encrypted_index = [4, 5]\<rparr>"
  using sample_header_json
  by (intro parse_assembled_envelope) (simp_all add: assemble_envelope_def const_defs)

text \<open>Every rejection of \<open>parse_envelope\<close> is \<open>CorruptedData\<close>; in particular an input over
  256 MiB, one shorter than its header length field, and a header outside the policy are.\<close>

theorem parse_envelope_rejects:
  assumes "json_laws X"
  shows "case parse_envelope X data of
      Inl e \<Rightarrow> is_corrupted e
    | Inr env \<Rightarrow> header_in_policy (env_header env) \<and>
        4 + XCHACHA20_NONCE_LEN \<le> length data \<and> length data \<le> MAX_VAULT_FILE_SIZE"
  using parse_envelope_err [OF assms, of data]
  by (cases "parse_envelope X data") (auto elim!: parse_envelope_inv)

theorem parse_envelope_rejects_witness:
  "case parse_envelope sample sample_envelope of
      Inl e \<Rightarrow> is_corrupted e
    | Inr env \<Rightarrow> header_in_policy (env_header env) \<and>
        4 + XCHACHA20_NONCE_LEN \<le> length sample_envelope \<and>
        length sample_envelope \<le> MAX_VAULT_FILE_SIZE"
  by (rule parse_envelope_rejects [OF sample_json])

text \<open>The associated data of an entry determines its key and its counter, so a ciphertext
  moved to another key or another counter is opened under different associated data.\<close>

theorem entry_aad_injective:
  "build_entry_aad k c = build_entry_aad k' c' \<longleftrightarrow> k = k' \<and> c = c'"
  by (rule build_entry_aad_inject)

end
