(* ===== verification/IndexProperties.thy ===== *)
theory IndexProperties
  imports Sample
begin

text \<open>
  The properties of the locked memory (\<open>src/mem/locked_secret.rs\<close>) and of the in-memory index
  (\<open>src/vault/vault_index.rs\<close>): what a container holds and what is left of it, the cap of the
  map, and the two counters.
\<close>

section \<open>Locked memory\<close>

text \<open>Creating a locked secret either yields a fresh region, locked, that holds exactly the
  given non-empty bytes and leaves every other region as it was, or fails and leaves the live
  and the locked regions as they were: an allocation that cannot be locked is given back.\<close>

lemma locked_secret_new_outcomes:
  assumes "memsec_laws X" "mem_ok s"
  shows "case locked_secret_new X b s of
      (Inr ls, s') \<Rightarrow> b \<noteq> [] \<and> secret_bytes s ls = None \<and>
        secret_bytes s' = (secret_bytes s)(ls \<mapsto> b) \<and> secret_addr ls \<in> locked s' \<and> mem_ok s' \<and>
        with_bytes s' ls (\<lambda>x. x) = b
    | (Inl e, s') \<Rightarrow> secret_bytes s' = secret_bytes s \<and> locked s' = locked s \<and> mem_ok s'"
proof (cases "locked_secret_new X b s")
  case (Pair r s')
  show ?thesis
  proof (cases r)
    case (Inl e)
    from subkeys.create_err [OF _ container_create_eq [OF Pair [unfolded Inl]]] assms
      locked_secret_new_err [OF assms(1) Pair [unfolded Inl]]
    show ?thesis by (simp add: Pair Inl mem_ok_def)
  next
    case (Inr ls)
    from subkeys.create_ok [OF _ container_create_eq [OF Pair [unfolded Inr]]] assms
    have "mem_ok s'" "secret_bytes s ls = None" "secret_bytes s' = (secret_bytes s)(ls \<mapsto> b)"
      by simp_all
    with locked_secret_new_ok [OF assms(1) Pair [unfolded Inr]] show ?thesis
      by (simp add: Pair Inr)
  qed
qed

lemma locked_secret_new_outcomes_witness:
  "case locked_secret_new sample [1, 2] sample_sys of
      (Inr ls, s') \<Rightarrow> [1, 2] \<noteq> ([] :: bytes) \<and> secret_bytes sample_sys ls = None \<and>
        secret_bytes s' = (secret_bytes sample_sys)(ls \<mapsto> [1, 2]) \<and> secret_addr ls \<in> locked s' \<and>
        mem_ok s' \<and> with_bytes s' ls (\<lambda>x. x) = [1, 2]
    | (Inl e, s') \<Rightarrow> secret_bytes s' = secret_bytes sample_sys \<and>
        locked s' = locked sample_sys \<and> mem_ok s'"
  by (rule locked_secret_new_outcomes [OF sample_memsec sample_mem_ok])

text \<open>Dropping a locked secret wipes it before the memory is released: the allocator gets
  the region back filled with zeros, the region is neither live nor locked any more, and no
  other region changes.\<close>

lemma locked_secret_drop_wipes:
  assumes "secret_bytes s ls = Some b"
  shows "released (locked_secret_drop X ls s) = released s @ [replicate (length b) 0] \<and>
    heap (locked_secret_drop X ls s) = (heap s)(secret_addr ls := None) \<and>
    locked (locked_secret_drop X ls s) = locked s - {secret_addr ls}"
  using assms by (simp add: locked_secret_drop_effect)

text \<open>The two subkeys are locked together or not at all: when the second cannot be locked the
  first is released, so a failing constructor leaves no region behind; when both succeed they
  lie in two distinct fresh regions.\<close>

lemma subkeys_locked_together:
  assumes "memsec_laws X" "mem_ok s"
  shows "case lock_subkeys X a b s of
      (Inr (ek, hk), s') \<Rightarrow> ek \<noteq> hk \<and> secret_bytes s ek = None \<and> secret_bytes s hk = None \<and>
        secret_bytes s' = (secret_bytes s)(ek \<mapsto> a, hk \<mapsto> b) \<and> mem_ok s'
    | (Inl e, s') \<Rightarrow> secret_bytes s' = secret_bytes s \<and> mem_ok s'"
  using lock_subkeys_ok [OF assms, of a b] lock_subkeys_err [OF assms, of a b]
  by (cases "lock_subkeys X a b s") (auto split: sum.splits)

lemma subkeys_locked_together_witness:
  "case lock_subkeys sample [1] [2] \<lparr>ext = 199, heap = Map.empty, locked = {}, released = []\<rparr> of
      (Inr (ek, hk), s') \<Rightarrow> ek \<noteq> hk \<and>
        secret_bytes \<lparr>ext = 199 :: nat, heap = Map.empty, locked = {}, released = []\<rparr> ek = None \<and>
        secret_bytes \<lparr>ext = 199 :: nat, heap = Map.empty, locked = {}, released = []\<rparr> hk = None \<and>
        secret_bytes s' = (secret_bytes
          \<lparr>ext = 199 :: nat, heap = Map.empty, locked = {}, released = []\<rparr>)(ek \<mapsto> [1], hk \<mapsto> [2]) \<and>
        mem_ok s'
    | (Inl e, s') \<Rightarrow> secret_bytes s' = secret_bytes
          \<lparr>ext = 199 :: nat, heap = Map.empty, locked = {}, released = []\<rparr> \<and> mem_ok s'"
  by (rule subkeys_locked_together [OF sample_memsec]) (simp add: mem_ok_def)

section \<open>The capped map\<close>

text \<open>Inserting under a key fails exactly when the key is new and 1024 entries are held, and
  then changes nothing; overwriting always succeeds. After a success the entry is found under
  its key and every other key is as before.\<close>

theorem insert_by_key_capped:
  assumes "index_map_ok idx"
  shows "case insert_by_key idx k e of
      (Inr _, idx') \<Rightarrow> index_map_ok idx' \<and> lookup_by_key idx' = (lookup_by_key idx)(k \<mapsto> e)
    | (Inl err, idx') \<Rightarrow> idx' = idx \<and> err = Full MAX_INDEX_ENTRIES \<and>
        lookup_by_key idx k = None \<and> length (files idx) = MAX_INDEX_ENTRIES"
proof (cases "insert_by_key idx k e")
  case (Pair r idx')
  show ?thesis
  proof (cases r)
    case (Inl err)
    from idx.put_err [OF assms Pair [unfolded Inl]] Pair Inl assms show ?thesis
      by (auto simp: insert_by_key_def index_map_ok_def split: if_splits)
  next
    case (Inr u)
    from idx.put_ok [OF assms Pair [unfolded Inr]] show ?thesis by (simp add: Pair Inr)
  qed
qed

lemma sample_index_map_ok: "index_map_ok (index sample_filled)"
  using sample_filled_ok by (simp add: vault_ok_def index_ok_map)

theorem insert_by_key_capped_witness:
  "case insert_by_key (index sample_filled) [7] (entry_zeroize undefined) of
      (Inr _, idx') \<Rightarrow> index_map_ok idx' \<and>
        lookup_by_key idx' = (lookup_by_key (index sample_filled))([7] \<mapsto> entry_zeroize undefined)
    | (Inl err, idx') \<Rightarrow> idx' = index sample_filled \<and> err = Full MAX_INDEX_ENTRIES \<and>
        lookup_by_key (index sample_filled) [7] = None \<and>
        length (files (index sample_filled)) = MAX_INDEX_ENTRIES"
  by (rule insert_by_key_capped [OF sample_index_map_ok])

text \<open>Removing a key returns the entry it held, frees exactly that key, and makes room: after
  a removal any key can be inserted, also from a full index.\<close>

theorem remove_by_key_makes_room:
  assumes "index_map_ok idx" "remove_by_key idx k = (Some e, idx')"
  shows "lookup_by_key idx k = Some e \<and> lookup_by_key idx' = (lookup_by_key idx)(k := None) \<and>
    index_map_ok idx' \<and> (\<exists>idx''. insert_by_key idx' j f = (Inr (), idx''))"
  using idx.take_law [OF assms] idx.take_makes_room [OF assms, of j f] by auto

theorem remove_by_key_makes_room_witness:
  "\<exists>e idx'. lookup_by_key (index sample_filled) (toy_name_key sample_name) = Some e \<and>
     lookup_by_key idx' =
       (lookup_by_key (index sample_filled))(toy_name_key sample_name := None) \<and>
     index_map_ok idx' \<and> (\<exists>idx''. insert_by_key idx' [7] e = (Inr (), idx''))"
proof -
  obtain e idx' where "remove_by_key (index sample_filled) (toy_name_key sample_name) =
      (Some e, idx')"
    by (simp add: remove_by_key_def sample_files)
  from remove_by_key_makes_room [OF sample_index_map_ok this] show ?thesis by blast
qed

section \<open>Counters\<close>

text \<open>The data counter hands out every value at most once: a success returns the current
  value and moves to the next integer without wrapping, and at \<open>2 ^ 64 - 1\<close> the operation fails
  with a counter overflow and changes nothing.\<close>

lemma next_data_nonce_counter_steps:
  "next_data_nonce_counter idx =
     (if unat (data_nonce_counter idx) < 2 ^ 64 - 1
      then (Inr (data_nonce_counter idx),
            idx\<lparr>data_nonce_counter := of_nat (Suc (unat (data_nonce_counter idx)))\<rparr>)
      else (Inl (CounterOverflow ''data nonce counter''), idx))"
  by (simp add: next_data_nonce_counter_def u64_checked_add_def Let_def add.commute)

text \<open>Advancing the index nonce adds one to the nonce counter in the integers and installs
  fresh random bytes; at \<open>2 ^ 64 - 1\<close> it fails before any random bytes are drawn and changes
  nothing.\<close>

lemma advance_nonce_steps:
  "advance_nonce X idx s =
     (if unat (nonce_counter idx) = 2 ^ 64 - 1
      then (Inl (CounterOverflow ''nonce counter''), idx, s)
      else case secure_bytes_fill X XCHACHA20_NONCE_LEN s of
        (Inl e, s') \<Rightarrow>
          (Inl (Random e), idx\<lparr>nonce_counter := of_nat (Suc (unat (nonce_counter idx)))\<rparr>, s')
      | (Inr n, s') \<Rightarrow>
          (Inr (), idx\<lparr>nonce := n,
             nonce_counter := of_nat (Suc (unat (nonce_counter idx)))\<rparr>, s'))"
proof (cases "unat (nonce_counter idx) = 2 ^ 64 - 1")
  case True
  then show ?thesis by (simp only: advance_nonce_def u64_checked_add_1_eq if_True) simp
next
  case False
  obtain r s' where "secure_bytes_fill X XCHACHA20_NONCE_LEN s = (r, s')" by fastforce
  with False show ?thesis
    unfolding advance_nonce_def u64_checked_add_1_eq Let_def by (cases r) simp_all
qed

end
