(* ===== verification/Session.thy ===== *)
theory Session
  imports Persistence
begin

text \<open>
  Vaults in use. The step relation \<open>vault_step\<close> runs one call of the public interface,
  successful or not; a session starts with a created or an opened vault and takes any number
  of steps. The locale \<open>secret_store\<close> is the abstract contract of the vault, a map from names
  to secrets in which failing operations change nothing; its interpretation is the refinement
  of that map by \<open>store\<close>, \<open>remove\<close> and \<open>retrieve\<close>.
\<close>

section \<open>Steps and sessions\<close>

datatype command =
    Store bytes bytes
  | Remove bytes
  | Export
  | ChangePassword bytes bytes

inductive vault_step ::
  "'w externals \<Rightarrow> 'w sys \<times> vault \<Rightarrow> command \<Rightarrow> 'w sys \<times> vault \<Rightarrow> bool" for X where
  Store: "store X v s name p = (r, v', s') \<Longrightarrow> vault_step X (s, v) (Store name p) (s', v')"
| Remove: "remove X v s name = (r, v') \<Longrightarrow> vault_step X (s, v) (Remove name) (s, v')"
| Export: "export X v s = (r, v', s') \<Longrightarrow> vault_step X (s, v) Export (s', v')"
| ChangePassword: "change_password X v s old new = (r, v', s') \<Longrightarrow>
    vault_step X (s, v) (ChangePassword old new) (s', v')"

inductive_cases store_stepE: "vault_step X c (Store name p) c'"
inductive_cases remove_stepE: "vault_step X c (Remove name) c'"
inductive_cases export_stepE: "vault_step X c Export c'"
inductive_cases change_password_stepE: "vault_step X c (ChangePassword old new) c'"

text \<open>The calls are functions of the state: the relation is deterministic.\<close>

lemma vault_step_deterministic:
  "vault_step X c cmd c' \<Longrightarrow> vault_step X c cmd c'' \<Longrightarrow> c' = c''"
  by (cases cmd)
    (auto elim!: store_stepE remove_stepE export_stepE change_password_stepE)

inductive session ::
  "'w externals \<Rightarrow> 'w sys \<times> vault \<Rightarrow> 'w sys \<times> vault \<Rightarrow> bool" for X where
  Start: "session X c c"
| Step: "session X c c' \<Longrightarrow> vault_step X c' cmd c'' \<Longrightarrow> session X c c''"

text \<open>The vaults a program can hold.\<close>

inductive reachable :: "'w externals \<Rightarrow> 'w sys \<times> vault \<Rightarrow> bool" for X where
  Created: "mem_ok s \<Longrightarrow> create X password s = (Inr v, s') \<Longrightarrow> reachable X (s', v)"
| Opened: "mem_ok s \<Longrightarrow> open_vault X password data s = (Inr v, s') \<Longrightarrow> reachable X (s', v)"
| Used: "reachable X c \<Longrightarrow> vault_step X c cmd c' \<Longrightarrow> reachable X c'"

lemma change_password_vault_ok:
  assumes "ext_laws X" "vault_ok s v" "change_password X v s old new = (r, v', s')"
  shows "vault_ok s' v'"
proof (cases r)
  case (Inl e)
  have "mem_ok s" using assms(2) by (simp add: vault_ok_def)
  from change_password_err [OF assms(1) this assms(3) [unfolded Inl]] assms(2) show ?thesis
    by (auto simp: vault_ok_def keys_live_def)
next
  case (Inr u)
  from change_password_ok(3) [OF assms(3) [unfolded Inr]] rekey_vault_ok(1) [OF assms(1)] assms(2)
  show ?thesis by blast
qed

lemma step_vault_ok:
  assumes "ext_laws X" "vault_step X c cmd c'" "vault_ok (fst c) (snd c)"
  shows "vault_ok (fst c') (snd c')"
  using assms(2,3)
proof cases
  case (Store v s name p r v' s')
  with store_vault_ok [OF assms(1)] assms(3) show ?thesis by fastforce
next
  case (Remove v s name r v')
  with remove_vault_ok assms(3) show ?thesis by fastforce
next
  case (Export v s r v' s')
  with export_vault_ok [OF assms(1)] assms(3) show ?thesis by fastforce
next
  case (ChangePassword v s old new r v' s')
  with change_password_vault_ok [OF assms(1)] assms(3) show ?thesis by fastforce
qed

lemma reachable_vault_ok:
  assumes "ext_laws X" "reachable X c"
  shows "vault_ok (fst c) (snd c)"
  using assms(2)
proof induction
  case (Created s password v s')
  then show ?case by (auto elim!: create_ok [OF assms(1)] dest: fresh_vault_ok(1))
next
  case (Opened s password data v s')
  then show ?case by (auto elim!: open_vault_ok [OF assms(1)])
next
  case (Used c cmd c')
  then show ?case using step_vault_ok [OF assms(1)] by blast
qed

section \<open>Counters are never used twice\<close>

text \<open>No two entries carry the same counter.\<close>

definition counters_distinct :: "vault_index \<Rightarrow> bool" where
  "counters_distinct idx \<longleftrightarrow> distinct (map (\<lambda>f. data_counter (snd f)) (files idx))"

lemma counters_after_update:
  assumes "distinct (map (\<lambda>f. data_counter (snd f)) fs)"
    and "\<forall>f \<in> set fs. data_counter (snd f) < data_counter e"
  shows "distinct (map (\<lambda>f. data_counter (snd f)) (AList.update k e fs))"
  using assms
proof (induction fs)
  case (Cons f fs)
  have keep: "x \<in> set fs \<or> snd x = e" if "x \<in> set (AList.update k e fs)" for x
    using that by (induction fs) (auto split: if_splits)
  from Cons show ?case
    by (cases f) (force dest!: keep)
qed simp

lemma store_counters_distinct:
  assumes "ext_laws X" "vault_ok s v" "counters_distinct (index v)"
    and "store X v s name p = (r, v', s')"
  shows "counters_distinct (index v')"
proof (cases r)
  case (Inl e)
  with store_err(2) [of X v s name p e v' s'] assms(3,4) show ?thesis
    by (auto simp: counters_distinct_def)
next
  case (Inr u)
  from assms(2) obtain ek hk where live: "keys_live s (index v) ek hk"
    and cnt: "counters_ok (index v)" by (auto simp: vault_ok_def index_ok_def)
  obtain k e where "name_key X hk name = Inr k" and "sealed_entry X ek k name p e"
    and c: "data_counter e = data_nonce_counter (index v)"
    and "unat (data_nonce_counter (index v)) + 1 < 2 ^ 64"
    and "length name \<le> MAX_ENTRY_NAME_LEN" "length p \<le> MAX_ENTRY_DATA_SIZE"
    and "map_of (files (index v)) k \<noteq> None \<or> length (files (index v)) < MAX_INDEX_ENTRIES"
    and v': "v' = v\<lparr>index := (index v)\<lparr>data_nonce_counter := data_nonce_counter (index v) + 1,
       files := AList.update k e (files (index v))\<rparr>\<rparr>"
    and "\<exists>w. s' = s\<lparr>ext := w\<rparr>"
    by (rule store_ok [OF ext_lawsD(1) [OF assms(1)] live assms(4) [unfolded Inr]])
  with assms(3) cnt counters_after_update [of "files (index v)" e k] show ?thesis
    by (simp add: counters_distinct_def v' counters_ok_def list_all_iff)
qed

lemma remove_counters_distinct:
  assumes "keys_live s (index v) ek hk" "counters_distinct (index v)"
    and "remove X v s name = (r, v')"
  shows "counters_distinct (index v')"
  using assms(1,3)
proof (cases rule: remove_cases)
  case (ok k)
  with assms(2) show ?thesis
    by (simp add: counters_distinct_def AList.delete_eq distinct_map_filter)
qed (use assms(2) in simp)

lemma rekey_entries_counters_distinct:
  assumes "ext_laws X" "vault_ok s w" "counters_distinct (index w)"
    and "rekey_entries X oek fs w s = (r, w', s')"
  shows "counters_distinct (index w')"
  using assms(2-)
proof (induction fs arbitrary: w s)
  case (Cons f fs)
  obtain k e where f: "f = (k, e)" by (cases f)
  show ?case
  proof (cases "decrypt_entry X oek k e")
    case (Inl d)
    with Cons.prems show ?thesis by (simp add: f)
  next
    case (Inr np)
    obtain n p where np: "np = (n, p)" by (cases np)
    obtain q w1 s1 where st: "store X w s n p = (q, w1, s1)" by (cases "store X w s n p") auto
    note ok = store_vault_ok [OF assms(1) Cons.prems(1) st]
      store_counters_distinct [OF assms(1) Cons.prems(1,2) st]
    with Cons.IH [OF ok] Cons.prems(3) Inr st show ?thesis
      by (cases q) (auto simp: f np)
  qed
qed simp

lemma rekey_counters_distinct:
  assumes "ext_laws X" "mem_ok s" "rekey X v s password = (Inr u, v', s')"
  shows "counters_distinct (index v')"
  using assms(1,2)
proof (cases rule: rekey_starts [where v = v and password = password])
  case (err e s1)
  with assms(3) show ?thesis by simp
next
  case (fresh w ek hk s2)
  then have ok: "vault_ok s2 w" by (intro fresh_vault_ok)
  have dist: "counters_distinct (index w)"
    using fresh(1) by (simp add: fresh_vault_def counters_distinct_def)
  from fresh(2) assms(3) obtain oek w1 s3 where
    "rekey_entries X oek (files (index v)) w s2 = (Inr (), w1, s3)"
    "v' = v\<lparr>header := header w1, index := index w1\<rparr>"
    by (auto split: prod.splits sum.splits)
  with rekey_entries_counters_distinct [OF assms(1) ok dist] show ?thesis by auto
qed

lemma step_counters_distinct:
  assumes "ext_laws X" "vault_step X c cmd c'" "vault_ok (fst c) (snd c)"
    and "counters_distinct (index (snd c))"
  shows "counters_distinct (index (snd c'))"
  using assms(2-)
proof cases
  case (Store v s name p r v' s')
  with store_counters_distinct [OF assms(1)] assms(3,4) show ?thesis by fastforce
next
  case (Remove v s name r v')
  with assms(3) obtain ek hk where "keys_live s (index v) ek hk" by (auto simp: vault_ok_def)
  from remove_counters_distinct [OF this] Remove assms(4) show ?thesis by simp
next
  case (Export v s r v' s')
  with export_effect(2) [of X v s r v' s'] assms(4) show ?thesis
    by (simp add: counters_distinct_def)
next
  case (ChangePassword v s old new r v' s')
  then have ok: "mem_ok s" using assms(3) by (simp add: vault_ok_def)
  show ?thesis
  proof (cases r)
    case (Inl e)
    with change_password_err(1) [OF assms(1) ok] ChangePassword assms(4) show ?thesis by fastforce
  next
    case (Inr u)
    with change_password_ok(3) rekey_counters_distinct [OF assms(1) ok] ChangePassword
    show ?thesis by fastforce
  qed
qed

lemma session_invariant:
  assumes "ext_laws X" "session X c c'" "vault_ok (fst c) (snd c)"
    and "counters_distinct (index (snd c))"
  shows "vault_ok (fst c') (snd c') \<and> counters_distinct (index (snd c'))"
  using assms(2-)
  by induction
    (use step_vault_ok [OF assms(1)] step_counters_distinct [OF assms(1)] in blast)+

text \<open>Outside a re-keying no counter goes back, and the keys stay.\<close>

lemma step_counters_grow:
  assumes "vault_step X c cmd c'" "\<forall>old new. cmd \<noteq> ChangePassword old new"
  shows "data_nonce_counter (index (snd c)) \<le> data_nonce_counter (index (snd c')) \<and>
    nonce_counter (index (snd c)) \<le> nonce_counter (index (snd c')) \<and>
    header (snd c') = header (snd c)"
  using assms
proof cases
  case (Store v s name p r v' s')
  have "data_nonce_counter (index v) \<le> data_nonce_counter (index v') \<and>
      nonce_counter (index v) = nonce_counter (index v')"
    using Store(4)
    by (auto simp: store_def insert_by_key_def word_le_nat_alt unat_word_ariths
        split: if_splits prod.splits sum.splits dest!: counter_step)
  with Store store_keys(2) [OF Store(4)] show ?thesis by simp
next
  case (Remove v s name r v')
  with remove_keys(2-4) [OF Remove(4)] show ?thesis by simp
next
  case (Export v s r v' s')
  have "nonce_counter (index v) \<le> nonce_counter (index v')"
    using export_effect(6) [OF Export(4)] by (auto simp: word_le_nat_alt unat_word_ariths)
  with Export export_effect(1,3) [OF Export(4)] show ?thesis by simp
qed simp

section \<open>The abstract store\<close>

text \<open>
  A sequence of operations on a keyed store, the success of each, and what the successes make
  of a map.
\<close>

datatype ('k, 'v) store_op = Put 'k 'v | Del 'k

fun run_ops ::
  "('k \<Rightarrow> 'v \<Rightarrow> 's \<Rightarrow> ('e + 'a) \<times> 's) \<Rightarrow> ('k \<Rightarrow> 's \<Rightarrow> ('e + 'b) \<times> 's) \<Rightarrow>
    ('k, 'v) store_op list \<Rightarrow> 's \<Rightarrow> bool list \<times> 's" where
  "run_ops put del [] s = ([], s)"
| "run_ops put del (Put k v # ops) s =
     (case put k v s of (r, s1) \<Rightarrow>
      case run_ops put del ops s1 of (oks, s2) \<Rightarrow> ((\<not> isl r) # oks, s2))"
| "run_ops put del (Del k # ops) s =
     (case del k s of (r, s1) \<Rightarrow>
      case run_ops put del ops s1 of (oks, s2) \<Rightarrow> ((\<not> isl r) # oks, s2))"

fun spec_ops ::
  "('k, 'v) store_op list \<Rightarrow> bool list \<Rightarrow> ('k \<Rightarrow> 'v option) \<Rightarrow> 'k \<Rightarrow> 'v option" where
  "spec_ops (Put k v # ops) (ok # oks) m = spec_ops ops oks (if ok then m(k := Some v) else m)"
| "spec_ops (Del k # ops) (ok # oks) m = spec_ops ops oks (if ok then m(k := None) else m)"
| "spec_ops _ _ m = m"

fun op_key :: "('k, 'v) store_op \<Rightarrow> 'k" where
  "op_key (Put k v) = k"
| "op_key (Del k) = k"

lemma spec_ops_cong:
  assumes "\<forall>n \<in> N. m n = m' n" "n \<in> N"
  shows "spec_ops ops oks m n = spec_ops ops oks m' n"
  using assms
proof (induction ops arbitrary: oks m m')
  case (Cons op ops)
  have step: "\<forall>n \<in> N. spec_ops [op] [ok] m n = spec_ops [op] [ok] m' n" for ok
    using Cons.prems(1) by (cases op) simp_all
  show ?case
  proof (cases oks)
    case (Cons ok oks')
    from Cons.IH [OF step Cons.prems(2), of oks' ok] show ?thesis
      by (cases op) (simp_all add: \<open>oks = ok # oks'\<close>)
  qed (use Cons.prems in simp)
qed simp

locale secret_store =
  fixes inv :: "'s \<Rightarrow> bool"
    and names :: "'k set"
    and view :: "'s \<Rightarrow> 'k \<Rightarrow> 'v option"
    and put :: "'k \<Rightarrow> 'v \<Rightarrow> 's \<Rightarrow> ('e + unit) \<times> 's"
    and del :: "'k \<Rightarrow> 's \<Rightarrow> ('e + bool) \<times> 's"
  assumes put_ok: "\<lbrakk>inv s; k \<in> names; put k v s = (Inr u, s')\<rbrakk> \<Longrightarrow>
      inv s' \<and> (\<forall>n \<in> names. view s' n = ((view s)(k := Some v)) n)"
    and put_err: "\<lbrakk>inv s; k \<in> names; put k v s = (Inl e, s')\<rbrakk> \<Longrightarrow>
      inv s' \<and> (\<forall>n \<in> names. view s' n = view s n)"
    and del_ok: "\<lbrakk>inv s; k \<in> names; del k s = (Inr b, s')\<rbrakk> \<Longrightarrow>
      inv s' \<and> (b \<longleftrightarrow> view s k \<noteq> None) \<and> (\<forall>n \<in> names. view s' n = ((view s)(k := None)) n)"
    and del_err: "\<lbrakk>inv s; k \<in> names; del k s = (Inl e, s')\<rbrakk> \<Longrightarrow>
      inv s' \<and> (\<forall>n \<in> names. view s' n = view s n)"
begin

text \<open>Any sequence of operations does to the view what its successes do to a map.\<close>

lemma run_refines:
  assumes "inv s" "op_key ` set ops \<subseteq> names" "run_ops put del ops s = (oks, s')"
  shows "inv s' \<and> (\<forall>n \<in> names. view s' n = spec_ops ops oks (view s) n)"
  using assms
proof (induction ops arbitrary: s oks)
  case (Cons op ops)
  obtain ok s1 oks1 where run: "run_ops put del ops s1 = (oks1, s')" "oks = ok # oks1"
    and one: "inv s1" "\<forall>n \<in> names. view s1 n = spec_ops [op] [ok] (view s) n"
  proof (cases op)
    case (Put k v)
    obtain q s1 where q: "put k v s = (q, s1)" by fastforce
    obtain oks1 s2 where r: "run_ops put del ops s1 = (oks1, s2)" by fastforce
    have k: "k \<in> names" using Cons.prems(2) Put by simp
    have "oks = (\<not> isl q) # oks1" "s2 = s'" using Cons.prems(3) by (simp_all add: Put q r)
    with r put_ok [OF Cons.prems(1) k] put_err [OF Cons.prems(1) k] q Put show thesis
      by (intro that [of s1 oks1 "\<not> isl q"]) (cases q; force)+
  next
    case (Del k)
    obtain q s1 where q: "del k s = (q, s1)" by fastforce
    obtain oks1 s2 where r: "run_ops put del ops s1 = (oks1, s2)" by fastforce
    have k: "k \<in> names" using Cons.prems(2) Del by simp
    have "oks = (\<not> isl q) # oks1" "s2 = s'" using Cons.prems(3) by (simp_all add: Del q r)
    with r del_ok [OF Cons.prems(1) k] del_err [OF Cons.prems(1) k] q Del show thesis
      by (intro that [of s1 oks1 "\<not> isl q"]) (cases q; force)+
  qed
  have "inv s' \<and> (\<forall>n \<in> names. view s' n = spec_ops ops oks1 (view s1) n)"
    using Cons.prems(2) by (intro Cons.IH [OF one(1) _ run(1)]) simp
  moreover have "spec_ops ops oks1 (view s1) n = spec_ops (op # ops) oks (view s) n"
    if "n \<in> names" for n
    using spec_ops_cong [OF one(2) that, of ops oks1] run(2) by (cases op) simp_all
  ultimately show ?case by simp
qed auto

end

section \<open>The vault is such a store\<close>

text \<open>
  The state is a vault with the process; the view is what \<open>retrieve\<close> returns. The names \<open>N\<close> are
  those in use: their HMAC keys must be distinct (\<open>names_apart\<close>).
\<close>

definition vs_inv ::
  "'w externals \<Rightarrow> bytes \<Rightarrow> bytes \<Rightarrow> bytes set \<Rightarrow> 'w sys \<times> vault \<Rightarrow> bool" where
  "vs_inv X ek hk N c \<longleftrightarrow>
     ext_laws X \<and> names_apart X hk N \<and> vault_ok (fst c) (snd c) \<and>
     keys_live (fst c) (index (snd c)) ek hk \<and> all_sealed X ek hk (files (index (snd c)))"

definition vs_view :: "'w externals \<Rightarrow> 'w sys \<times> vault \<Rightarrow> bytes \<Rightarrow> bytes option" where
  "vs_view X c name = (case retrieve X (snd c) (fst c) name of Inr found \<Rightarrow> found | Inl _ \<Rightarrow> None)"

definition vs_put ::
  "'w externals \<Rightarrow> bytes \<Rightarrow> bytes \<Rightarrow> 'w sys \<times> vault \<Rightarrow>
    (vault_error + unit) \<times> 'w sys \<times> vault" where
  "vs_put X name p c =
     (case store X (snd c) (fst c) name p of (r, v', s') \<Rightarrow> (r, s', v'))"

definition vs_del ::
  "'w externals \<Rightarrow> bytes \<Rightarrow> 'w sys \<times> vault \<Rightarrow> (vault_error + bool) \<times> 'w sys \<times> vault" where
  "vs_del X name c = (case remove X (snd c) (fst c) name of (r, v') \<Rightarrow> (r, fst c, v'))"

lemma retrieve_eq:
  "keys_live s (index v) ek hk \<Longrightarrow> retrieve X v s n = read_secret X ek hk (files (index v)) n"
  by (simp add: retrieve_def decrypt_secret_eq)

lemma vs_view_eq:
  "keys_live (fst c) (index (snd c)) ek hk \<Longrightarrow> vs_view X c n =
     (case read_secret X ek hk (files (index (snd c))) n of Inr found \<Rightarrow> found | Inl _ \<Rightarrow> None)"
  by (simp add: vs_view_def retrieve_eq)

text \<open>Every entry of a sealed index can be read.\<close>

lemma read_all_sealed:
  assumes "aead_laws X" "length ek = SUBKEY_LEN" "all_sealed X ek hk fs"
    and "name_key X hk n = Inr k"
  shows "\<exists>found. read_secret X ek hk fs n = Inr found \<and> (found = None \<longleftrightarrow> map_of fs k = None)"
proof (cases "map_of fs k")
  case None
  with assms(4) show ?thesis by (simp add: read_secret_def)
next
  case (Some e)
  with assms(3) obtain n' p where "sealed_entry X ek k n' p e"
    by (auto simp: all_sealed_def dest!: map_of_SomeD)
  with read_sealed [OF assms(1,2) _ assms(4) Some] Some show ?thesis by fastforce
qed

interpretation vs: secret_store "vs_inv X ek hk N" N "vs_view X" "vs_put X" "vs_del X"
  for X :: "'w externals" and ek hk :: bytes and N :: "bytes set"
proof unfold_locales
  fix c c' :: "'w sys \<times> vault" and k p u e b
  assume inv: "vs_inv X ek hk N c" and k: "k \<in> N"
  obtain s v s' v' where c: "c = (s, v)" "c' = (s', v')" by (cases c; cases c')
  note i = inv [unfolded vs_inv_def c fst_conv snd_conv]
  then have X: "ext_laws X" and apart: "names_apart X hk N" and ok: "vault_ok s v"
    and live: "keys_live s (index v) ek hk" and sealed: "all_sealed X ek hk (files (index v))"
    by simp_all
  have dist: "distinct (map fst (files (index v)))"
    using ok by (simp add: vault_ok_def index_ok_def files_ok_def)
  have ek: "length ek = SUBKEY_LEN" using live by (simp add: keys_live_def)
  note same = names_apart_same [OF apart k]
  have inv_put: "vs_inv X ek hk N c'" and live_put: "keys_live s' (index v') ek hk"
    if "store X v s k p = (r, v', s')" for r
    using store_vault_ok [OF X ok that] store_keys(1) [OF that] live
      store_all_sealed [OF X live dist sealed that] X apart
    by (auto simp: vs_inv_def c)
  have view: "vs_view X c n = (case read_secret X ek hk (files (index v)) n of
      Inr found \<Rightarrow> found | Inl _ \<Rightarrow> None)" for n
    using vs_view_eq [of c ek hk X n] live by (simp add: c)
  have view': "vs_view X c' n = (case read_secret X ek hk (files (index v')) n of
      Inr found \<Rightarrow> found | Inl _ \<Rightarrow> None)" if "keys_live s' (index v') ek hk" for n
    using vs_view_eq [of c' ek hk X n] that by (simp add: c)
  show "vs_inv X ek hk N c' \<and> (\<forall>n \<in> N. vs_view X c' n = ((vs_view X c)(k := Some p)) n)"
    if put: "vs_put X k p c = (Inr u, c')"
  proof -
    have st: "store X v s k p = (Inr u, v', s')"
      using put by (auto simp: vs_put_def c split: prod.splits)
    show ?thesis
      using inv_put [OF st] store_read_same [OF X live st] store_read_other [OF X live st same]
      by (auto simp: view view' [OF live_put [OF st]])
  qed
  show "vs_inv X ek hk N c' \<and> (\<forall>n \<in> N. vs_view X c' n = vs_view X c n)"
    if put: "vs_put X k p c = (Inl e, c')"
  proof -
    have st: "store X v s k p = (Inl e, v', s')"
      using put by (auto simp: vs_put_def c split: prod.splits)
    show ?thesis
      using inv_put [OF st] store_read_other [OF X live st same]
      by (auto simp: view view' [OF live_put [OF st]])
  qed
  have inv_del: "vs_inv X ek hk N c'" and live_del: "keys_live s' (index v') ek hk"
    if "vs_del X k c = (r, c')" for r
  proof -
    from that have rm: "remove X v s k = (r, v')" "s' = s"
      by (auto simp: vs_del_def c split: prod.splits)
    from remove_vault_ok [OF ok rm(1)] remove_keys(1) [OF rm(1)] live
      remove_all_sealed [OF live sealed rm(1)] X apart
    show "vs_inv X ek hk N c'" "keys_live s' (index v') ek hk" by (auto simp: vs_inv_def c rm(2))
  qed
  show "vs_inv X ek hk N c' \<and> (b \<longleftrightarrow> vs_view X c k \<noteq> None) \<and>
      (\<forall>n \<in> N. vs_view X c' n = ((vs_view X c)(k := None)) n)"
    if del: "vs_del X k c = (Inr b, c')"
  proof -
    have rm: "remove X v s k = (Inr b, v')"
      using del by (auto simp: vs_del_def c split: prod.splits)
    obtain q where q: "name_key X hk k = Inr q" using apart k by (auto simp: names_apart_def)
    have "b \<longleftrightarrow> vs_view X c k \<noteq> None"
      using remove_read(2) [OF live rm] read_all_sealed [OF ext_lawsD(3) [OF X] ek sealed q]
      by (auto simp: view)
    then show ?thesis
      using inv_del [OF del] remove_read(1) [OF live rm] remove_read(3) [OF live rm same]
      by (auto simp: view view' [OF live_del [OF del]])
  qed
  show "vs_inv X ek hk N c' \<and> (\<forall>n \<in> N. vs_view X c' n = vs_view X c n)"
    if del: "vs_del X k c = (Inl e, c')"
  proof -
    have rm: "remove X v s k = (Inl e, v')" "s' = s"
      using del by (auto simp: vs_del_def c split: prod.splits)
    have "v' = v" using live rm(1) by (cases rule: remove_cases) auto
    with inv rm(2) show ?thesis by (simp add: c)
  qed
qed

section \<open>Reopening an export\<close>

text \<open>The bytes of an export, opened in any process.\<close>

lemma export_reopens:
  assumes "ext_laws X" "vault_ok s v" "unlocked_by X password s v"
    and "export X v s = (Inr out, v', s')" "mem_ok t"
  shows "case open_vault X password out t of
      (Inr w, t') \<Rightarrow> header w = header v \<and> files (index w) = files (index v) \<and>
        data_nonce_counter (index w) = data_nonce_counter (index v) \<and>
        nonce_counter (index w) = nonce_counter (index v') \<and>
        nonce (index w) = nonce (index v') \<and> vault_ok t' w \<and>
        unlocked_by X password t' w \<and> (\<forall>n. retrieve X w t' n = retrieve X v s n)
    | (Inl e, t') \<Rightarrow> (\<exists>m. e = from_index_error (LockedMemory m)) \<and>
        secret_bytes t' = secret_bytes t"
proof -
  obtain ek hk where keys: "password_keys X password (header v) = Inr (ek, hk)"
    and live: "keys_live s (index v) ek hk"
    using assms(3) by (auto simp: unlocked_by_def)
  note o = export_opens_to [OF assms(1,2) keys live assms(4)]
  have ver: "version (header v) = VAULT_VERSION" using assms(2) by (simp add: vault_ok_def)
  have nc: "nonce_counter (index v') = nonce_counter (index v) + 1"
    using assms(2) by (auto simp: vault_ok_def intro: export_ok [OF assms(1) _ live assms(4)])
  show ?thesis
  proof (cases "lock_subkeys X ek hk t")
    case (Pair l t1)
    show ?thesis
    proof (cases l)
      case (Inl e)
      with Pair have "\<exists>m. e = LockedMemory m"
        by (auto simp: lock_subkeys_def split: prod.splits sum.splits)
      with lock_subkeys_err(2) [OF ext_lawsD(2) [OF assms(1)] assms(5), of ek hk e t1] Pair Inl
      show ?thesis by (auto simp: open_vault_loads [OF o])
    next
      case (Inr eh)
      obtain es hs where eh: "eh = (es, hs)" by (cases eh)
      note loaded = loaded_vault_ok [OF assms(1,5) o Pair [unfolded Inr eh]]
      let ?w = "loaded_vault \<lparr>env_header = header v, env_nonce = nonce (index v'),
        env_encrypted_index = drop (4 + length (projr (header_to_json X (header v))) +
          XCHACHA20_NONCE_LEN) out\<rparr>
        \<lparr>idx_nonce_counter = nonce_counter (index v) + 1,
         idx_data_nonce_counter = data_nonce_counter (index v), idx_files = files (index v)\<rparr> es hs"
      have op: "open_vault X password out t = (Inr ?w, t1)"
        by (simp add: open_vault_loads [OF o] Pair Inr eh ver const_defs)
      have w: "header ?w = header v" "files (index ?w) = files (index v)"
        "data_nonce_counter (index ?w) = data_nonce_counter (index v)"
        "nonce_counter (index ?w) = nonce_counter (index v) + 1"
        "nonce (index ?w) = nonce (index v')"
        by (simp_all add: loaded_vault_def)
      have "keys_live t1 (index ?w) ek hk" using loaded(1) by (simp add: adds_keys_def)
      then have "retrieve X ?w t1 n = retrieve X v s n" for n
        using live by (simp add: retrieve_eq w)
      moreover have "version (header ?w) \<noteq> LEGACY_VAULT_VERSION_1"
        unfolding w(1) ver by (simp add: const_defs)
      then have "vault_ok t1 ?w" by (rule loaded(4))
      ultimately show ?thesis using loaded(2) by (simp add: op w nc)
    qed
  qed
qed

end
