(* ===== verification/VaultProperties.thy ===== *)
theory VaultProperties
  imports Sample Session
begin

text \<open>
  The properties of the facade (\<open>src/vault/facade.rs\<close>) on one vault: creating, storing,
  reading and removing secrets, exporting and opening, and changing the password. The
  properties of whole sessions and of files are in the root theory.
\<close>

section \<open>Creating a vault\<close>

text \<open>C31: \<open>create\<close> yields a well-formed empty vault that the password unlocks, with a current
  header and both counters at zero, and adds exactly its two locked regions to the process; it
  refuses a password under 8 bytes, and when it fails no region is left behind.\<close>

theorem create_outcomes:
  assumes "ext_laws X" "mem_ok s"
  shows "case create X password s of
      (Inr v, s') \<Rightarrow> MIN_PASSWORD_LEN \<le> length password \<and> vault_ok s' v \<and>
        unlocked_by X password s' v \<and> files (index v) = [] \<and> nonce_counter (index v) = 0 \<and>
        data_nonce_counter (index v) = 0 \<and> (\<exists>ek hk. adds_keys s (index v) ek hk s')
    | (Inl e, s') \<Rightarrow> mem_ok s' \<and> secret_bytes s' = secret_bytes s"
proof (cases "create X password s")
  case (Pair r s')
  show ?thesis
  proof (cases r)
    case (Inl e)
    with create_err [OF assms, of password e s'] Pair show ?thesis by simp
  next
    case (Inr v)
    obtain ek hk where "fresh_vault X password s v ek hk s'" "MIN_PASSWORD_LEN \<le> length password"
      by (rule create_ok [OF assms Pair [unfolded Inr]])
    with fresh_vault_ok [of X password s v ek hk s'] show ?thesis
      by (auto simp: Pair Inr fresh_vault_def)
  qed
qed

theorem create_outcomes_witness:
  "MIN_PASSWORD_LEN \<le> length sample_password \<and> vault_ok sample_run sample_vault \<and>
   unlocked_by sample sample_password sample_run sample_vault \<and> files (index sample_vault) = [] \<and>
   nonce_counter (index sample_vault) = 0 \<and> data_nonce_counter (index sample_vault) = 0 \<and>
   (\<exists>ek hk. adds_keys sample_sys (index sample_vault) ek hk sample_run)"
  using create_outcomes [OF sample_laws sample_mem_ok, of sample_password]
  by (simp add: sample_create)

section \<open>Secrets\<close>

text \<open>C23: A secret that was stored is retrieved: after a successful \<open>store\<close> the name reads back
  exactly the stored bytes, and the vault is well-formed.\<close>

theorem store_then_retrieve:
  assumes "ext_laws X" "vault_ok s v" "store X v s name p = (Inr u, v', s')"
  shows "retrieve X v' s' name = Inr (Some p) \<and> vault_ok s' v'"
proof -
  from assms(2) obtain ek hk where live: "keys_live s (index v) ek hk" by (auto simp: vault_ok_def)
  then have "keys_live s' (index v') ek hk" using store_keys(1) [OF assms(3)] by blast
  with store_read_same [OF assms(1) live assms(3)] store_vault_ok [OF assms] show ?thesis
    by (simp add: retrieve_eq)
qed

theorem store_then_retrieve_witness:
  "retrieve sample sample_filled sample_run2 sample_name = Inr (Some sample_secret) \<and>
   vault_ok sample_run2 sample_filled"
  by (rule store_then_retrieve [OF sample_laws sample_vault_ok(1) sample_store])

text \<open>\<open>store\<close> touches no other secret: whatever its outcome, every name with another HMAC key
  reads the same before and after, and a failing \<open>store\<close> leaves the name itself readable as
  before too.\<close>

lemma store_preserves_others:
  assumes "ext_laws X" "keys_live s (index v) ek hk" "store X v s name p = (r, v', s')"
    and "same_names_apart X hk name n" "n \<noteq> name \<or> isl r"
  shows "retrieve X v' s' n = retrieve X v s n"
proof -
  have "keys_live s' (index v') ek hk" using assms(2) store_keys(1) [OF assms(3)] by blast
  with store_read_other [OF assms(1-4)] assms(2,5) show ?thesis
    by (auto simp: retrieve_eq isl_def)
qed

lemma store_preserves_others_witness:
  "retrieve sample sample_filled sample_run2 other_name =
     retrieve sample sample_vault sample_run other_name"
proof (rule store_preserves_others [OF sample_laws sample_keys sample_store])
  show "same_names_apart sample sample_hk sample_name other_name"
    by (rule names_apart_same [OF sample_names_apart]) simp_all
  show "other_name \<noteq> sample_name \<or> isl (Inr () :: vault_error + unit)"
    by (simp add: sample_name_def other_name_def ascii_def)
qed

text \<open>The limits of \<open>store\<close>: a name over 255 bytes or a secret over 64 MiB is refused as
  \<open>InvalidInput\<close> before anything happens, and every failure is \<open>InvalidInput\<close> or
  \<open>CryptoError\<close> and leaves the entries, the header and the keys as they were.\<close>

theorem store_failures:
  assumes "store X v s name p = (Inl e, v', s')"
  shows "files (index v') = files (index v) \<and> header v' = header v \<and>
    enc_key (index v') = enc_key (index v) \<and> hmac_key (index v') = hmac_key (index v) \<and>
    (is_invalid_input e \<or> is_crypto_error e) \<and>
    (MAX_ENTRY_NAME_LEN < length name \<or> MAX_ENTRY_DATA_SIZE < length p \<longrightarrow>
       is_invalid_input e \<and> v' = v \<and> s' = s)"
proof -
  have "is_invalid_input e \<and> v' = v \<and> s' = s"
    if "MAX_ENTRY_NAME_LEN < length name \<or> MAX_ENTRY_DATA_SIZE < length p"
    using assms that by (auto simp: store_def split: if_splits)
  with store_err(2,3) [OF assms] show ?thesis by auto
qed

theorem store_failures_witness:
  "\<exists>e. store sample sample_vault sample_run (replicate 256 97) [] = (Inl e, sample_vault, sample_run) \<and>
     is_invalid_input e"
proof -
  obtain e where e: "store sample sample_vault sample_run (replicate 256 97) [] =
      (Inl e, sample_vault, sample_run)"
    by (simp add: store_def const_defs)
  with store_failures [OF e] show ?thesis by (auto simp: const_defs)
qed

text \<open>\<open>store\<close> never fails for want of room when it overwrites: at the cap of 1024 entries a
  name already present can be stored again; only a new name is refused, with the message of
  \<open>IndexError::Full\<close>.\<close>

theorem store_full_only_new:
  assumes "keys_live s (index v) ek hk" "store X v s name p = (Inl e, v', s')"
    and "length name \<le> MAX_ENTRY_NAME_LEN" "length p \<le> MAX_ENTRY_DATA_SIZE"
    and "is_invalid_input e"
  shows "MAX_INDEX_ENTRIES \<le> length (files (index v)) \<and>
    e = from_index_error (Full MAX_INDEX_ENTRIES) \<and> retrieve X v s name = Inr None"
proof -
  from assms(2,3,4,5) obtain k c idx1 s1 n1 s2 n2 ent idx2 d where
    k: "hmac_key_for_name X s (index v) name = Inr k"
    and c: "next_data_nonce_counter (index v) = (Inr c, idx1)"
    and ins: "insert_by_key idx1 k ent = (Inl d, idx2)" and e: "e = from_index_error d"
    by (auto simp: store_def from_random_error_def split: if_splits prod.splits sum.splits
        dest!: name_key_err counter_step(2) dest: seal_entry_err
        elim!: is_invalid_input.elims(2))
  from counter_step(1) [OF c] have idx1: "files idx1 = files (index v)" by simp
  from ins have full: "map_of (files (index v)) k = None" "d = Full MAX_INDEX_ENTRIES"
    "MAX_INDEX_ENTRIES \<le> length (files (index v))"
    by (auto simp: insert_by_key_def idx1 split: if_splits)
  have "name_key X hk name = Inr k" using k by (simp add: keys_live_hmac [OF assms(1)])
  then have "retrieve X v s name = Inr None"
    using full(1) by (simp add: retrieve_eq [OF assms(1)] read_secret_def)
  with full e show ?thesis by simp
qed

definition sample_full :: vault where
  "sample_full = sample_vault\<lparr>index := (index sample_vault)\<lparr>files :=
     replicate 1024 ([], entry_zeroize \<lparr>data_counter = 0, encrypted_name = [],
       encrypted_data = []\<rparr>)\<rparr>\<rparr>"

lemma map_of_replicate_None: "k \<noteq> j \<Longrightarrow> map_of (replicate n (j, e)) k = None"
  by (induction n) auto

lemma sample_full_store:
  "store sample sample_full sample_run sample_name sample_secret =
     (Inl (from_index_error (Full MAX_INDEX_ENTRIES)),
      sample_full\<lparr>index := (index sample_full)\<lparr>data_nonce_counter := 1\<rparr>\<rparr>,
      sample_run\<lparr>ext := 6\<rparr>)"
proof -
  let ?i = "index sample_full" and ?k = "toy_name_key sample_name"
  let ?i1 = "?i\<lparr>data_nonce_counter := 1\<rparr>"
  have zero: "data_nonce_counter ?i = 0" "enc_key ?i = enc_key (index sample_vault)"
    "hmac_key ?i = hmac_key (index sample_vault)"
    by (simp_all add: sample_full_def sample_vault_def toy_vault_def)
  have live: "keys_live sample_run ?i sample_ek sample_hk"
    using sample_keys by (simp add: keys_live_def zero)
  have run: "ext sample_run = 4" by (simp add: sample_run_def toy_run_def)
  have live2: "keys_live (sample_run\<lparr>ext := 6\<rparr>) ?i1 sample_ek sample_hk"
    using live by (simp add: keys_live_def)
  have "length sample_ek = 32" by (simp add: sample_ek_def)
  then obtain e where e: "seal_entry sample (sample_run\<lparr>ext := 6\<rparr>) (enc_key ?i1) ?k 0
      (replicate 24 4) (replicate 24 5) sample_name sample_secret = Inr e"
    using keys_live_enc [OF live2]
    by (simp add: seal_entry_def seal_with_aad_def sample_fields toy_seal_def Let_def)
  have "length ?k = 64" by (simp add: toy_name_key_def sample_name_def)
  then have "?k \<noteq> []" by auto
  then have ins: "insert_by_key ?i1 ?k e = (Inl (Full MAX_INDEX_ENTRIES), ?i1)"
    by (simp add: insert_by_key_def sample_full_def map_of_replicate_None const_defs)
  have n: "secure_bytes_fill sample XCHACHA20_NONCE_LEN sample_run =
      (Inr (replicate 24 4), sample_run\<lparr>ext := 5\<rparr>)"
    "secure_bytes_fill sample XCHACHA20_NONCE_LEN (sample_run\<lparr>ext := 5\<rparr>) =
      (Inr (replicate 24 5), sample_run\<lparr>ext := 6\<rparr>)"
    by (simp_all add: toy_fill const_defs run)
  have c: "next_data_nonce_counter ?i = (Inr 0, ?i1)"
    by (simp add: next_data_nonce_counter_def u64_checked_add_def zero)
  have k: "hmac_key_for_name sample sample_run ?i sample_name = Inr ?k"
    by (simp add: keys_live_hmac [OF live] toy_name_key)
  show ?thesis
    using store_body [OF _ _ k c n e ins]
    by (simp add: sample_name_def sample_secret_def const_defs)
qed

theorem store_full_only_new_witness:
  "\<exists>e v' s'. store sample sample_full sample_run sample_name sample_secret = (Inl e, v', s') \<and>
     MAX_INDEX_ENTRIES \<le> length (files (index sample_full)) \<and>
     e = from_index_error (Full MAX_INDEX_ENTRIES) \<and>
     retrieve sample sample_full sample_run sample_name = Inr None"
proof -
  have live: "keys_live sample_run (index sample_full) sample_ek sample_hk"
    using sample_keys by (simp add: keys_live_def sample_full_def)
  have "length sample_name \<le> MAX_ENTRY_NAME_LEN" "length sample_secret \<le> MAX_ENTRY_DATA_SIZE"
    by (simp_all add: sample_name_def sample_secret_def const_defs)
  from store_full_only_new [OF live sample_full_store this] sample_full_store show ?thesis
    by auto
qed

text \<open>\<open>remove\<close> reports whether the secret existed, afterwards the name reads as absent, no
  other name is affected, and the vault stays well-formed.\<close>

lemma remove_effect:
  assumes "vault_ok s v" "keys_live s (index v) ek hk" "remove X v s name = (Inr b, v')"
    and "same_names_apart X hk name n" "n \<noteq> name"
  shows "(b \<longleftrightarrow> retrieve X v s name \<noteq> Inr None) \<and> retrieve X v' s name = Inr None \<and>
    retrieve X v' s n = retrieve X v s n \<and> vault_ok s v'"
proof -
  have live': "keys_live s (index v') ek hk" using assms(2) remove_keys(1) [OF assms(3)] by blast
  from remove_read [OF assms(2,3)] assms(4,5) remove_vault_ok [OF assms(1,3)] show ?thesis
    by (simp add: retrieve_eq [OF live'] retrieve_eq [OF assms(2)])
qed

lemma remove_effect_witness:
  "\<exists>v'. remove sample sample_filled sample_run2 sample_name = (Inr True, v') \<and>
     retrieve sample v' sample_run2 sample_name = Inr None \<and>
     retrieve sample v' sample_run2 other_name = retrieve sample sample_filled sample_run2 other_name"
proof -
  obtain v' where rm: "remove sample sample_filled sample_run2 sample_name = (Inr True, v')"
    by (simp add: remove_def keys_live_hmac [OF sample_filled_keys] toy_name_key remove_by_key_def
        sample_files)
  have apart: "same_names_apart sample sample_hk sample_name other_name"
    by (rule names_apart_same [OF sample_names_apart]) simp_all
  have "other_name \<noteq> sample_name" by (simp add: sample_name_def other_name_def ascii_def)
  from remove_effect [OF sample_filled_ok sample_filled_keys rm apart this] rm show ?thesis by blast
qed

section \<open>Exporting and opening\<close>

text \<open>C2: What \<open>export\<close> writes can be opened: with the password of the vault, \<open>open\<close> on the
  exported bytes gives a vault with the same header, counters, nonce and entries, in which every
  name reads as before; the only way to fail is that the subkeys cannot be locked in memory.\<close>

theorem export_then_open:
  assumes "ext_laws X" "vault_ok s v" "unlocked_by X password s v"
    and "export X v s = (Inr out, v', s')" "mem_ok t"
  shows "case open_vault X password out t of
      (Inr w, t') \<Rightarrow> header w = header v \<and> files (index w) = files (index v) \<and>
        data_nonce_counter (index w) = data_nonce_counter (index v) \<and>
        nonce_counter (index w) = nonce_counter (index v') \<and>
        nonce (index w) = nonce (index v') \<and> vault_ok t' w \<and>
        unlocked_by X password t' w \<and> (\<forall>n. retrieve X w t' n = retrieve X v s n)
    | (Inl e, t') \<Rightarrow> (\<exists>m. e = from_index_error (LockedMemory m)) \<and>
        secret_bytes t' = secret_bytes t"
  by (rule export_reopens [OF assms])

theorem export_then_open_witness:
  "\<exists>out (v' :: vault). case open_vault sample sample_password out sample_sys of
      (Inr w, t') \<Rightarrow> header w = header sample_filled \<and>
        files (index w) = files (index sample_filled) \<and>
        data_nonce_counter (index w) = data_nonce_counter (index sample_filled) \<and>
        nonce_counter (index w) = nonce_counter (index v') \<and>
        nonce (index w) = nonce (index v') \<and> vault_ok t' w \<and>
        unlocked_by sample sample_password t' w \<and>
        (\<forall>n. retrieve sample w t' n = retrieve sample sample_filled sample_run2 n)
    | (Inl e, t') \<Rightarrow> (\<exists>m. e = from_index_error (LockedMemory m)) \<and>
        secret_bytes t' = secret_bytes sample_sys"
proof -
  obtain out v' s' where e: "export sample sample_filled sample_run2 = (Inr out, v', s')"
    using sample_export by blast
  show ?thesis
    by (rule exI [of _ out], rule exI [of _ v'], rule export_then_open
        [OF sample_laws sample_filled_ok sample_filled_unlocked e sample_mem_ok])
qed

text \<open>C34: The size promise of \<open>export\<close>: an export that succeeds is at most 256 MiB long, so
  neither \<open>open\<close> nor \<open>load\<close> refuses it for its size; its layout is the header length, the
  header, a fresh 24-byte nonce and the sealed index. The nonce counter grows by one.\<close>

theorem export_output:
  assumes "ext_laws X" "vault_ok s v" "export X v s = (Inr out, v', s')"
  shows "length out \<le> MAX_VAULT_FILE_SIZE \<and>
    unat (nonce_counter (index v')) = unat (nonce_counter (index v)) + 1 \<and>
    (\<exists>hj c. header_to_json X (header v) = Inr hj \<and> length (nonce (index v')) = XCHACHA20_NONCE_LEN \<and>
       out = assemble_envelope hj (nonce (index v')) c \<and>
       length c = encoded_total (index v) + POLY1305_OUTSIZE)"
proof -
  obtain ek hk where live: "keys_live s (index v) ek hk" using assms(2) by (auto simp: vault_ok_def)
  have idx: "index_ok (index v)" using assms(2) by (simp add: vault_ok_def)
  obtain hj n c where nc: "unat (nonce_counter (index v)) + 1 < 2 ^ 64"
    and v': "v' = v\<lparr>index := (index v)\<lparr>nonce := n, nonce_counter := nonce_counter (index v) + 1\<rparr>\<rparr>"
    and n: "length n = XCHACHA20_NONCE_LEN" and hj: "header_to_json X (header v) = Inr hj"
    and c: "seal_with_aad X ek n (index_layout (nonce_counter (index v) + 1)
       (data_nonce_counter (index v)) (files (index v))) hj = Inr c"
    and out: "out = assemble_envelope hj n c" "length out \<le> MAX_VAULT_FILE_SIZE"
    by (rule export_ok [OF assms(1) idx live assms(3)])
  have "length ek = 32" using live by (simp add: keys_live_def SUBKEY_LEN_def)
  from seal_with_aad_length [OF ext_lawsD(3) [OF assms(1)] this n c] idx
  have "length c = encoded_total (index v) + POLY1305_OUTSIZE"
    by (simp add: length_index_layout index_ok_def files_ok_def encoded_total_def)
  with nc n hj out show ?thesis by (auto simp: v' unat_word_ariths)
qed

theorem export_output_witness:
  "\<exists>out (v' :: vault). length out \<le> MAX_VAULT_FILE_SIZE \<and>
    unat (nonce_counter (index v')) = unat (nonce_counter (index sample_filled)) + 1 \<and>
    (\<exists>hj c. header_to_json sample (header sample_filled) = Inr hj \<and>
       length (nonce (index v')) = XCHACHA20_NONCE_LEN \<and>
       out = assemble_envelope hj (nonce (index v')) c \<and>
       length c = encoded_total (index sample_filled) + POLY1305_OUTSIZE)"
proof -
  obtain out v' s' where e: "export sample sample_filled sample_run2 = (Inr out, v', s')"
    using sample_export by blast
  show ?thesis
    by (rule exI [of _ out], rule exI [of _ v'],
        rule export_output [OF sample_laws sample_filled_ok e])
qed

text \<open>C13: \<open>open\<close> on untrusted bytes: it yields a well-formed vault of the current format that the
  password unlocks, or it fails and every locked region it made is released again; an input that
  does not parse, authenticate and decode under the password never yields a vault.\<close>

theorem open_outcomes:
  assumes "ext_laws X" "mem_ok s"
  shows "case open_vault X password data s of
      (Inr v, s') \<Rightarrow> vault_ok s' v \<and> unlocked_by X password s' v \<and>
        (\<exists>env ek hk d. opens_to X password data env ek hk d)
    | (Inl e, s') \<Rightarrow> mem_ok s' \<and> secret_bytes s' = secret_bytes s"
proof (cases "open_vault X password data s")
  case (Pair r s')
  show ?thesis
  proof (cases r)
    case (Inl e)
    with open_vault_err [OF assms Pair [unfolded Inl]] Pair show ?thesis by simp
  next
    case (Inr v)
    show ?thesis
      by (rule open_vault_ok [OF assms Pair [unfolded Inr]]) (auto simp: Pair Inr)
  qed
qed

theorem open_outcomes_witness:
  "case open_vault sample sample_password sample_envelope sample_sys of
      (Inr v, s') \<Rightarrow> vault_ok s' v \<and> unlocked_by sample sample_password s' v \<and>
        (\<exists>env ek hk d. opens_to sample sample_password sample_envelope env ek hk d)
    | (Inl e, s') \<Rightarrow> mem_ok s' \<and> secret_bytes s' = secret_bytes sample_sys"
  by (rule open_outcomes [OF sample_laws sample_mem_ok])

end
