(* ===== verification/Rejection.thy ===== *)
theory Rejection
  imports Rekeying
begin

text \<open>
  When an operation reports \<open>InvalidPassword\<close>. The error has two sources in
  \<open>src/vault/facade.rs\<close>: the cipher refusing the index of a file in \<open>open\<close>, and the comparison of
  subkeys in \<open>verify_password\<close>. No other failure of any operation, in a library or in the code, is
  reported in that way, and those two always are.
\<close>

section \<open>Where \<open>InvalidPassword\<close> comes from\<close>

text \<open>No other error is converted to \<open>InvalidPassword\<close>.\<close>

named_theorems not_invalid

lemma index_error_not_invalid [not_invalid]: "from_index_error e \<noteq> InvalidPassword"
  by (cases e) simp_all

lemma other_errors_not_invalid [not_invalid]:
  "from_aad_aead_error a \<noteq> InvalidPassword" "from_random_error r \<noteq> InvalidPassword"
  by (simp_all add: from_aad_aead_error_def from_random_error_def)

lemma derive_master_key_not_invalid [not_invalid]:
  "derive_master_key X password h \<noteq> Inl InvalidPassword"
  by (auto simp: derive_master_key_def and_then_Inl_iff map_err_Inl_iff)

lemma extract_enc_key_not_invalid [not_invalid]: "extract_enc_key s k \<noteq> Inl InvalidPassword"
  by (simp add: extract_enc_key_def with_bytes_def)

lemma split_nonce_not_invalid [not_invalid]: "split_nonce b \<noteq> Inl InvalidPassword"
  by (simp add: split_nonce_def)

lemma map_err_not_invalid [not_invalid]:
  "(\<And>e. f e \<noteq> InvalidPassword) \<Longrightarrow> map_err f r \<noteq> Inl InvalidPassword"
  by (cases r) simp_all

lemma and_then_not_invalid [not_invalid]:
  "r \<noteq> Inl InvalidPassword \<Longrightarrow> (\<And>x. f x \<noteq> Inl InvalidPassword) \<Longrightarrow>
    and_then r f \<noteq> Inl InvalidPassword"
  by (cases r) simp_all

lemma seal_entry_not_invalid [not_invalid]:
  "seal_entry X s es k c n1 n2 name p \<noteq> Inl InvalidPassword"
  unfolding seal_entry_def Let_def by (intro not_invalid) simp

lemma store_not_invalid [not_invalid]: "store X v s name p \<noteq> (Inl InvalidPassword, r)"
  by (auto simp: store_def not_invalid not_invalid [THEN not_sym]
      split: if_splits prod.splits sum.splits)

lemma decrypt_entry_not_invalid [not_invalid]: "decrypt_entry X ek k e \<noteq> Inl InvalidPassword"
  by (auto simp: decrypt_entry_def Let_def and_then_Inl_iff map_err_Inl_iff not_invalid
      not_invalid [THEN not_sym] split: if_splits)

lemma rekey_entries_not_invalid [not_invalid]:
  "rekey_entries X oek fs w s \<noteq> (Inl InvalidPassword, r)"
  by (induction X oek fs w s arbitrary: r rule: rekey_entries.induct)
    (auto simp: not_invalid not_invalid [THEN not_sym] split: prod.splits sum.splits)

lemma rekey_not_invalid [not_invalid]: "rekey X v s password \<noteq> (Inl InvalidPassword, r)"
  by (auto simp: rekey_def Let_def vault_header_generate_def not_invalid not_invalid [THEN not_sym]
      split: prod.splits sum.splits)

lemma decoders_not_invalid [not_invalid]:
  "decode_index b \<noteq> Inl InvalidPassword" "decode_index_v1 X b \<noteq> Inl InvalidPassword"
  using decode_index_err [of b] decode_index_v1_err [of X b] by fastforce+

lemma parse_not_invalid [not_invalid]: "parse_envelope X data \<noteq> Inl InvalidPassword"
  by (auto simp: parse_envelope_def Let_def and_then_Inl_iff map_err_Inl_iff validate_header_def
      to_aad_bytes_def split: if_splits)

text \<open>
  \<open>open\<close> reports an invalid password exactly when the cipher does not accept the index under the
  key derived from the password, the nonce of the file and its header as associated data.
\<close>

definition index_refused :: "'w externals \<Rightarrow> bytes \<Rightarrow> bytes \<Rightarrow> bool" where
  "index_refused X password data \<longleftrightarrow>
     (\<exists>env ek hk aad. parse_envelope X data = Inr env \<and>
        password_keys X password (env_header env) = Inr (ek, hk) \<and>
        header_to_json X (env_header env) = Inr aad \<and>
        isl (open_with_aad X ek (env_nonce env) (env_encrypted_index env) aad))"

lemma open_invalid_iff:
  "open_vault X password data s = (Inl InvalidPassword, s') \<longleftrightarrow>
     index_refused X password data \<and> s' = s"
proof (cases "parse_envelope X data")
  case (Inl e)
  then show ?thesis by (auto simp: open_vault_def index_refused_def not_invalid)
next
  case env: (Inr env)
  then obtain aad where aad: "header_to_json X (env_header env) = Inr aad"
    by (rule parse_envelope_inv)
  show ?thesis
  proof (cases "password_keys X password (env_header env)")
    case (Inl e)
    then show ?thesis
      by (auto simp: env open_vault_def index_refused_def password_keys_def not_invalid
          and_then_Inl_iff map_err_Inl_iff split: sum.splits)
  next
    case (Inr keys)
    then obtain mk ek hk where keys: "derive_master_key X password (env_header env) = Inr mk"
      "derive_subkeys X mk (kdf_salt (env_header env)) = Inr (ek, hk)"
      "password_keys X password (env_header env) = Inr (ek, hk)"
      by (cases keys) (auto simp: password_keys_def and_then_Inr_iff map_err_Inr_iff)
    show ?thesis
      by (auto simp: env keys aad open_vault_def index_refused_def open_index_def to_aad_bytes_def
          and_then_Inl_iff map_err_Inl_iff not_invalid not_invalid [THEN not_sym] Let_def isl_def
          split: prod.splits sum.splits if_splits)
  qed
qed

text \<open>\<open>change_password\<close> and its check of the current password.\<close>

lemma change_password_invalid_iff:
  "change_password X v s current new = (Inl InvalidPassword, v', s') \<longleftrightarrow>
     MIN_PASSWORD_LEN \<le> length new \<and> v' = v \<and> s' = s \<and>
     (\<exists>ek hk. password_keys X current (header v) = Inr (ek, hk) \<and>
        \<not> with_bytes s (enc_key (index v)) (\<lambda>stored. secure_cmp X stored ek))"
proof (cases "password_keys X current (header v)")
  case (Inl e)
  then show ?thesis
    by (auto simp: change_password_def validate_password_def verify_password_def password_keys_def
        and_then_Inl_iff map_err_Inl_iff not_invalid not_invalid [THEN not_sym]
        split: sum.splits if_splits)
next
  case (Inr keys)
  then obtain mk ek hk where keys: "derive_master_key X current (header v) = Inr mk"
    "derive_subkeys X mk (kdf_salt (header v)) = Inr (ek, hk)"
    "password_keys X current (header v) = Inr (ek, hk)"
    by (cases keys) (auto simp: password_keys_def and_then_Inr_iff map_err_Inr_iff)
  show ?thesis
    by (auto simp: keys change_password_def validate_password_def verify_password_def with_bytes_def
        not_invalid not_invalid [THEN not_sym] split: sum.splits if_splits)
qed

text \<open>Whether the cipher accepts the index of a file under a password.\<close>

definition index_opens :: "'w externals \<Rightarrow> bytes \<Rightarrow> bytes \<Rightarrow> bool" where
  "index_opens X password data \<longleftrightarrow>
     (\<exists>env ek hk aad b. parse_envelope X data = Inr env \<and>
        password_keys X password (env_header env) = Inr (ek, hk) \<and>
        header_to_json X (env_header env) = Inr aad \<and>
        open_with_aad X ek (env_nonce env) (env_encrypted_index env) aad = Inr b)"

text \<open>A file with a readable header, from which keys are derived, is refused by the cipher only.\<close>

lemma index_refused_iff:
  assumes "parse_envelope X data = Inr env" "password_keys X password (env_header env) = Inr (ek, hk)"
  shows "index_refused X password data \<longleftrightarrow> \<not> index_opens X password data"
proof -
  obtain aad where "header_to_json X (env_header env) = Inr aad"
    using assms(1) by (rule parse_envelope_inv)
  then show ?thesis
    using assms
    by (cases "open_with_aad X ek (env_nonce env) (env_encrypted_index env) aad")
      (simp_all add: index_refused_def index_opens_def)
qed

lemma open_vault_needs_index:
  assumes "open_vault X password data s = (Inr v, s')"
  shows "index_opens X password data"
proof -
  have "\<exists>env ek hk d. opens_to X password data env ek hk d"
    using assms open_vault_rejects [of X password data s] by fastforce
  then show ?thesis
    by (auto simp: opens_to_def index_opens_def open_index_def to_aad_bytes_def and_then_Inr_iff
        map_err_Inr_iff)
qed

end
