(* ===== verification/PasswordProperties.thy ===== *)
theory PasswordProperties
  imports Sample Session Rejection
begin

text \<open>
  The properties of passwords: what \<open>open\<close> does with a wrong one, that accepted bytes are what
  \<open>export\<close> writes, the upgrade of a version 1 vault, and \<open>change_password\<close>: it changes
  everything or nothing, wipes the old keys and keeps every secret.
\<close>

section \<open>Opening\<close>

text \<open>C30: \<open>InvalidPassword\<close> means one thing: the file parses, keys are derived from the
  password, and the cipher refuses the index under the derived key and the nonce of the file, with
  the header as associated data. \<open>open\<close> returns it then and only then, and it has no side effect.\<close>

theorem open_invalid_password:
  "open_vault X password data s = (Inl InvalidPassword, s') \<longleftrightarrow>
     s' = s \<and> (\<exists>env ek hk aad e. parse_envelope X data = Inr env \<and>
       password_keys X password (env_header env) = Inr (ek, hk) \<and>
       header_to_json X (env_header env) = Inr aad \<and>
       open_with_aad X ek (env_nonce env) (env_encrypted_index env) aad = Inl e)"
  by (auto simp: open_invalid_iff index_refused_def isl_def)

theorem open_invalid_password_witness:
  "open_vault sample sample_password sample_envelope sample_sys = (Inl InvalidPassword, sample_sys)"
  unfolding open_invalid_password
  using sample_header_json(1) toy_password_keys [of sample_password 0] sample_envelope_parses
  by (simp add: open_with_aad_def const_defs)

text \<open>C9: An accepted version 2 file is authentic as a whole. For a cipher in which a ciphertext
  that opens is the sealing of its plaintext, the accepted bytes are exactly those \<open>export\<close>
  writes for the vault \<open>open\<close> returns, with its nonce and counters: no byte of the file can
  differ without \<open>open\<close> failing or returning another vault.\<close>

theorem open_accepts_exports_only:
  assumes "ext_laws X" "aead_tidy X" "mem_ok s" "parse_envelope X data = Inr env"
    and "version (env_header env) \<noteq> LEGACY_VAULT_VERSION_1"
    and "open_vault X password data s = (Inr v, s')"
  shows "\<exists>ek hj c. secret_bytes s' (enc_key (index v)) = Some ek \<and>
    header_to_json X (header v) = Inr hj \<and>
    seal_with_aad X ek (nonce (index v)) (index_layout (nonce_counter (index v))
      (data_nonce_counter (index v)) (files (index v))) hj = Inr c \<and>
    data = assemble_envelope hj (nonce (index v)) c"
proof (rule open_vault_ok [OF assms(1,3,6)])
  fix env' ek hk d
  assume o: "opens_to X password data env' ek hk d" and "vault_ok s' v"
    and v: "version (env_header env') \<noteq> LEGACY_VAULT_VERSION_1 \<Longrightarrow>
       (\<exists>es hs. v = loaded_vault env' d es hs) \<and> adds_keys s (index v) ek hk s'"
  have env: "env' = env" using o assms(4) by (simp add: opens_to_def)
  from v assms(5) env obtain es hs where v: "v = loaded_vault env d es hs"
    and adds: "adds_keys s (index v) ek hk s'" by auto
  have ek: "length ek = 32" "secret_bytes s' (enc_key (index v)) = Some ek"
    using adds by (simp_all add: adds_keys_def keys_live_def SUBKEY_LEN_def)
  obtain hj gap where hj: "header_to_json X (env_header env) = Inr hj"
    and n: "length (env_nonce env) = XCHACHA20_NONCE_LEN"
    and gap: "length gap = legacy_gap (env_header env)"
    and data: "data = u32_to_le (of_nat (length hj)) @ hj @ env_nonce env @ gap @ env_encrypted_index env"
    by (rule parse_envelope_inv [OF assms(4)])
  have gap: "gap = []" using gap assms(5) by (simp add: legacy_gap_def)
  from o have "open_index X env ek = Inr d" by (simp add: opens_to_def env)
  with hj assms(5) obtain bs where
    "open_with_aad X ek (env_nonce env) (env_encrypted_index env) hj = Inr bs"
    and bs: "decode_index bs = Inr d"
    by (auto simp: open_index_def to_aad_bytes_def and_then_Inr_iff)
  from seal_open_with_aad(1) [OF ext_lawsD(3) [OF assms(1)] assms(2) ek(1) n this(1)]
    decode_index_inv(2) [OF bs]
  have "seal_with_aad X ek (env_nonce env) (index_layout (idx_nonce_counter d)
      (idx_data_nonce_counter d) (idx_files d)) hj = Inr (env_encrypted_index env)" by simp
  with ek(2) hj show ?thesis
    by (intro exI [of _ ek] exI [of _ hj] exI [of _ "env_encrypted_index env"])
      (simp add: v loaded_vault_def data gap assemble_envelope_def)
qed

theorem open_accepts_exports_only_witness:
  "\<exists>data v s'. \<exists>ek hj c. open_vault sample sample_password data sample_sys = (Inr v, s') \<and>
    secret_bytes s' (enc_key (index v)) = Some ek \<and>
    header_to_json sample (header v) = Inr hj \<and>
    seal_with_aad sample ek (nonce (index v)) (index_layout (nonce_counter (index v))
      (data_nonce_counter (index v)) (files (index v))) hj = Inr c \<and>
    data = assemble_envelope hj (nonce (index v)) c"
proof -
  obtain out v' s' where e: "export sample sample_filled sample_run2 = (Inr out, v', s')"
    using sample_export by blast
  note o = export_opens_to [OF sample_laws sample_filled_ok _ sample_filled_keys e]
  have keys: "password_keys sample sample_password (header sample_filled) = Inr (sample_ek, sample_hk)"
    using sample_password_keys by (simp add: sample_filled_header)
  obtain v t where op: "open_vault sample sample_password out sample_sys = (Inr v, t)"
    using toy_lock [of 0 Map.empty sample_ek sample_hk "{}" "[]"]
    by (simp add: open_vault_loads [OF o [OF keys]] sample_sys_def sample_ek_def sample_hk_def
        sample_filled_header sample_vault_def toy_vault_def sample_header_json(5) const_defs)
  from o [OF keys] obtain env where "parse_envelope sample out = Inr env"
    "env_header env = header sample_filled" by (auto simp: opens_to_def)
  moreover from this have "version (env_header env) \<noteq> LEGACY_VAULT_VERSION_1"
    by (simp add: sample_filled_header sample_vault_def toy_vault_def sample_header_json(5) const_defs)
  ultimately show ?thesis
    using open_accepts_exports_only [OF sample_laws sample_tidy sample_mem_ok _ _ op] op by blast
qed

section \<open>Changing the password\<close>

text \<open>C3: \<open>change_password\<close> is all or nothing: on any failure, be it a short password, a wrong
  current password, a failing derivation, an entry that does not decrypt or a store that fails
  half-way, the vault is the same as before and no locked region is gained or lost.\<close>

theorem change_password_atomic:
  assumes "ext_laws X" "mem_ok s" "change_password X v s old new = (Inl e, v', s')"
  shows "v' = v \<and> mem_ok s' \<and> secret_bytes s' = secret_bytes s"
  using change_password_err [OF assms] by simp

lemma sample_wrong_password:
  "\<exists>a b. password_keys sample (ascii ''wrong!!!'') (header sample_filled) = Inr (a, b) \<and>
     a \<noteq> sample_ek"
proof -
  have "sum_list (toy_master_key (ascii ''wrong!!!'')) \<noteq> sum_list (toy_master_key sample_password)"
    by (simp add: toy_master_key_def sample_password_def ascii_def sum_list_replicate)
  then have "toy_ek (ascii ''wrong!!!'') (replicate 16 0) \<noteq> sample_ek"
    by (simp add: toy_ek_def sample_ek_def replicate_eq_replicate)
  then show ?thesis
    using toy_password_keys [of "ascii ''wrong!!!''" 0]
    by (simp add: sample_filled_header sample_vault_def toy_vault_def)
qed

lemma sample_wrong_change:
  "change_password sample sample_filled sample_run2 (ascii ''wrong!!!'') (ascii ''new password'') =
     (Inl InvalidPassword, sample_filled, sample_run2)"
  using sample_wrong_password verify_password_wrong [OF sample_hash sample_filled_keys]
  by (auto simp: change_password_def validate_password_def const_defs)

theorem change_password_atomic_witness:
  "\<exists>e v' s'. change_password sample sample_filled sample_run2 (ascii ''wrong!!!'')
       (ascii ''new password'') = (Inl e, v', s') \<and>
     v' = sample_filled \<and> mem_ok s' \<and> secret_bytes s' = secret_bytes sample_run2"
proof -
  obtain e v' s' where c: "change_password sample sample_filled sample_run2 (ascii ''wrong!!!'')
      (ascii ''new password'') = (Inl e, v', s')" using sample_wrong_change by blast
  have "mem_ok sample_run2" using sample_filled_ok by (simp add: vault_ok_def)
  from change_password_atomic [OF sample_laws this c] c show ?thesis by blast
qed

text \<open>C29: \<open>change_password\<close> returns \<open>InvalidPassword\<close> exactly when the new password is long enough,
  keys are derived from the given current one, and the constant-time comparison of the derived
  encryption key with the one in locked memory fails. Neither the vault nor the process changes.\<close>

theorem change_password_wrong:
  "change_password X v s old new = (Inl InvalidPassword, v', s') \<longleftrightarrow>
     v' = v \<and> s' = s \<and> MIN_PASSWORD_LEN \<le> length new \<and>
     (\<exists>ek hk. password_keys X old (header v) = Inr (ek, hk) \<and>
        \<not> with_bytes s (enc_key (index v)) (\<lambda>stored. secure_cmp X stored ek))"
  by (auto simp: change_password_invalid_iff)

theorem change_password_wrong_witness:
  "change_password sample sample_filled sample_run2 (ascii ''wrong!!!'') (ascii ''other password'') =
     (Inl InvalidPassword, sample_filled, sample_run2)"
proof -
  obtain a b where "password_keys sample (ascii ''wrong!!!'') (header sample_filled) = Inr (a, b)" "a \<noteq> sample_ek"
    using sample_wrong_password by blast
  then show ?thesis
    using sample_filled_keys ext_lawsD(4) [OF sample_laws]
    by (auto simp: change_password_wrong keys_live_def hash_laws_def const_defs)
qed

text \<open>C12: A successful \<open>change_password\<close> was given the current password and a new one of at least
  8 bytes; afterwards the new password unlocks the vault, its header has the current version, the
  default parameters and as its salt the 16 bytes the generator of the operating system returned
  to the first request of the call, every entry is sealed under the new keys, the two old subkeys
  were wiped to zeros before their memory was released, and the two new ones are the only regions
  added.\<close>

theorem change_password_success:
  assumes "ext_laws X" "vault_ok s v" "change_password X v s old new = (Inr u, v', s')"
  shows "MIN_PASSWORD_LEN \<le> length new \<and>
    (\<exists>oek h. secret_bytes s (enc_key (index v)) = Some oek \<and>
       password_keys X old (header v) = Inr (oek, h)) \<and>
    vault_ok s' v' \<and> unlocked_by X new s' v' \<and> generated_header (header v') \<and>
    fst (os_rng_fill X SALT_LEN (ext s)) = Some (kdf_salt (header v')) \<and>
    (\<exists>ek hk. moves_keys s (index v) (index v') ek hk s' \<and> all_sealed X ek hk (files (index v')))"
proof -
  from assms(2) obtain oek ohk where live: "mem_ok s" "keys_live s (index v) oek ohk"
    by (auto simp: vault_ok_def)
  note ok = change_password_ok [OF assms(3)]
  have "\<exists>h. password_keys X old (header v) = Inr (oek, h)"
    using ok(2) by (simp add: verify_password_iff [OF ext_lawsD(4) [OF assms(1)] live(2)])
  moreover have "secret_bytes s (enc_key (index v)) = Some oek"
    using live(2) by (simp add: keys_live_def)
  moreover obtain ek hk where "generated_header (header v')"
    "moves_keys s (index v) (index v') ek hk s'" "all_sealed X ek hk (files (index v'))"
    by (rule rekey_ok [OF assms(1) live ok(3)])
  moreover have "vault_ok s' v'" "unlocked_by X new s' v'"
    using rekey_vault_ok [OF assms(1) _ ok(3)] assms(2) by blast+
  ultimately show ?thesis using ok(1) rekey_draws_salt [OF ok(3)] by blast
qed

theorem change_password_success_witness:
  "\<exists>v' s'. change_password sample sample_filled sample_run2 sample_password
       (ascii ''new password'') = (Inr (), v', s') \<and>
     vault_ok s' v' \<and> unlocked_by sample (ascii ''new password'') s' v' \<and>
     generated_header (header v') \<and>
     fst (os_rng_fill sample SALT_LEN (ext sample_run2)) = Some (kdf_salt (header v'))"
proof -
  obtain v' s' where c: "change_password sample sample_filled sample_run2 sample_password
      (ascii ''new password'') = (Inr (), v', s')" using sample_change_password by blast
  from change_password_success [OF sample_laws sample_filled_ok c] c show ?thesis by blast
qed

text \<open>C4: Changing the password loses no secret: if the entries were stored under names of \<open>N\<close>,
  whose HMAC keys are distinct before and after, then every name of \<open>N\<close> reads exactly as it did,
  present or absent.\<close>

theorem change_password_keeps_secrets:
  assumes "ext_laws X" "vault_ok s v" "keys_live s (index v) oek ohk"
    and "sealed_for X oek ohk N (files (index v))" "names_apart X ohk N"
    and "change_password X v s old new = (Inr u, v', s')"
    and "keys_live s' (index v') ek hk" "names_apart X hk N" "n \<in> N"
  shows "retrieve X v' s' n = retrieve X v s n"
proof -
  have "mem_ok s" "distinct (map fst (files (index v)))"
    using assms(2) by (simp_all add: vault_ok_def index_ok_def files_ok_def)
  from rekey_reads [OF assms(1) this(1) assms(3) this(2) assms(4,5)
      change_password_ok(3) [OF assms(6)] assms(7-9)]
  show ?thesis by (simp add: retrieve_eq [OF assms(3)] retrieve_eq [OF assms(7)])
qed

theorem change_password_keeps_secrets_witness:
  "\<exists>v' s'. change_password sample sample_filled sample_run2 sample_password
       (ascii ''new password'') = (Inr (), v', s') \<and>
     retrieve sample v' s' sample_name = retrieve sample sample_filled sample_run2 sample_name"
proof -
  obtain v' s' where c: "change_password sample sample_filled sample_run2 sample_password
      (ascii ''new password'') = (Inr (), v', s')" using sample_change_password by blast
  from change_password_vault_ok [OF sample_laws sample_filled_ok c] obtain ek hk
    where live: "keys_live s' (index v') ek hk" by (auto simp: vault_ok_def)
  have sealed: "sealed_for sample sample_ek sample_hk {sample_name, other_name}
      (files (index sample_filled))"
    using toy_entry_sealed [of sample_ek "toy_name_key sample_name" sample_name sample_secret 0 4]
    by (auto simp: sealed_for_def sample_files toy_name_key sample_ek_def)
  from change_password_keeps_secrets [OF sample_laws sample_filled_ok sample_filled_keys sealed
      sample_names_apart c live sample_names_apart] c
  show ?thesis by blast
qed

section \<open>The upgrade of version 1\<close>

text \<open>C21: Opening a version 1 vault upgrades it in memory: the result has a version 2 header with a
  salt drawn from the generator of the operating system once the old subkeys were locked, whose
  keys come from the same password, every decoded entry decrypted under
  the old keys and is sealed under the new ones, every name reads as its decrypted secret, and
  of the process memory only the two new regions remain: the two intermediate ones were wiped
  and released.\<close>

theorem open_upgrades_version_1:
  assumes "ext_laws X" "mem_ok s" "parse_envelope X data = Inr env"
    and "version (env_header env) = LEGACY_VAULT_VERSION_1"
    and "open_vault X password data s = (Inr v, s')"
  shows "generated_header (header v) \<and> version (header v) = VAULT_VERSION \<and> vault_ok s' v \<and>
    unlocked_by X password s' v \<and>
    (\<exists>oek ohk d ps ek hk. opens_to X password data env oek ohk d \<and>
       fst (os_rng_fill X SALT_LEN (ext (snd (lock_subkeys X oek ohk s)))) =
         Some (kdf_salt (header v)) \<and>
       decrypts_to X oek (idx_files d) ps \<and> all_sealed X ek hk (files (index v)) \<and>
       (\<forall>N. names_apart X hk N \<longrightarrow> fst ` set ps \<subseteq> N \<longrightarrow>
          (\<forall>n \<in> N. retrieve X v s' n = Inr (map_of (rev ps) n))) \<and>
       secret_bytes s' = (secret_bytes s)(enc_key (index v) \<mapsto> ek, hmac_key (index v) \<mapsto> hk) \<and>
       released s' = released s @ [replicate SUBKEY_LEN 0, replicate SUBKEY_LEN 0])"
proof (rule open_vault_ok [OF assms(1,2,5)])
  fix env' oek ohk d
  assume o: "opens_to X password data env' oek ohk d" and ok: "vault_ok s' v" "unlocked_by X password s' v"
    and up: "version (env_header env') = LEGACY_VAULT_VERSION_1 \<Longrightarrow>
       (\<exists>es hs s1. rekey X (loaded_vault env' d es hs) s1 password = (Inr (), v, s') \<and>
          lock_subkeys X oek ohk s = (Inr (es, hs), s1))"
  have env: "env' = env" using o assms(3) by (simp add: opens_to_def)
  from up assms(4) env obtain es hs s1 where
    r: "rekey X (loaded_vault env d es hs) s1 password = (Inr (), v, s')"
    and l: "lock_subkeys X oek ohk s = (Inr (es, hs), s1)" by auto
  let ?w = "loaded_vault env d es hs"
  note o = o [unfolded env]
  have adds: "adds_keys s (index ?w) oek ohk s1" by (rule loaded_vault_ok(1) [OF assms(1,2) o l])
  then have live: "mem_ok s1" "keys_live s1 (index ?w) oek ohk" by (simp_all add: adds_keys_def)
  show ?thesis
  proof (rule rekey_ok [OF assms(1) live r])
    fix ek hk ps
    assume gen: "generated_header (header v)" and moves: "moves_keys s1 (index ?w) (index v) ek hk s'"
      and ps: "decrypts_to X oek (files (index ?w)) ps" "all_sealed X ek hk (files (index v))"
      and reads: "\<And>N n. names_apart X hk N \<Longrightarrow> fst ` set ps \<subseteq> N \<Longrightarrow> n \<in> N \<Longrightarrow>
        read_secret X ek hk (files (index v)) n = Inr (map_of (rev ps) n)"
    have keys: "keys_live s' (index v) ek hk" using moves by (simp add: moves_keys_def)
    have mem: "secret_bytes s' = (secret_bytes s)(enc_key (index v) \<mapsto> ek, hmac_key (index v) \<mapsto> hk)"
      "released s' = released s @ [replicate SUBKEY_LEN 0, replicate SUBKEY_LEN 0]"
      using moves adds by (auto simp: moves_keys_def adds_keys_def fun_eq_iff)
    have data: "decrypts_to X oek (idx_files d) ps" using ps(1) by (simp add: loaded_vault_def)
    have reads_back: "\<forall>N. names_apart X hk N \<longrightarrow> fst ` set ps \<subseteq> N \<longrightarrow>
        (\<forall>n \<in> N. retrieve X v s' n = Inr (map_of (rev ps) n))"
      using reads by (simp add: retrieve_eq [OF keys])
    have salt: "fst (os_rng_fill X SALT_LEN (ext (snd (lock_subkeys X oek ohk s)))) =
        Some (kdf_salt (header v))" using rekey_draws_salt [OF r] by (simp add: l)
    show ?thesis
      by (rule conjI gen ok generated_header_version [OF gen] exI o salt data ps(2) reads_back mem)+
  qed
qed

text \<open>A version 1 file of the sample instance, with one real entry and one dummy.\<close>

definition legacy_header :: vault_header where
  "legacy_header = (toy_header 0)\<lparr>version := LEGACY_VAULT_VERSION_1\<rparr>"

definition legacy_key :: "bytes \<Rightarrow> bytes" where
  "legacy_key info = replicate 32
     (sum_list (take 32 (sample_password @ replicate 32 1)) + sum_list (replicate 16 0 :: bytes) +
      sum_list info)"

definition legacy_files :: "(bytes \<times> index_entry) list" where
  "legacy_files = [(toy_name_key sample_name,
     toy_entry (legacy_key ENCRYPTION_SUBKEY_INFO) (toy_name_key sample_name) 0 4 sample_name
       sample_secret)]"

definition legacy_header_json :: bytes where
  "legacy_header_json = projr (toy_header_to_json legacy_header)"

definition legacy_payload :: bytes where
  "legacy_payload = index_layout 5 9 legacy_files @
     toy_tag (legacy_key ENCRYPTION_SUBKEY_INFO) (replicate 24 8) (index_layout 5 9 legacy_files)
       legacy_header_json"

definition legacy_data :: bytes where
  "legacy_data = u32_to_le (of_nat 34) @ legacy_header_json @ replicate 24 8 @ replicate 8 0 @
     legacy_payload"

lemma legacy_header_facts:
  "header_to_json sample legacy_header = Inr legacy_header_json"
  "header_from_json sample legacy_header_json = Inr legacy_header"
  "length legacy_header_json = 34" "header_in_policy legacy_header"
  "version legacy_header = LEGACY_VAULT_VERSION_1"
proof -
  have salt: "length (kdf_salt legacy_header) = SALT_LEN"
    by (simp add: legacy_header_def toy_header_def vault_header_new_def const_defs)
  then have hj: "toy_header_to_json legacy_header = Inr legacy_header_json"
    by (simp add: legacy_header_json_def toy_header_to_json_def)
  from toy_header_roundtrip [OF salt hj] hj
  show "header_to_json sample legacy_header = Inr legacy_header_json"
    "header_from_json sample legacy_header_json = Inr legacy_header"
    "length legacy_header_json = 34" by (simp_all add: sample_fields)
  show "header_in_policy legacy_header" "version legacy_header = LEGACY_VAULT_VERSION_1"
    by (simp_all add: legacy_header_def toy_header_def vault_header_new_def header_in_policy_def
        const_defs)
qed

lemma legacy_key_length [simp]: "length (legacy_key info) = 32"
  by (simp add: legacy_key_def)

lemma legacy_password_keys:
  "password_keys sample sample_password legacy_header =
     Inr (legacy_key ENCRYPTION_SUBKEY_INFO, legacy_key HMAC_SUBKEY_INFO)"
  by (simp add: password_keys_def derive_master_key_def derive_subkeys_def sample_fields
      legacy_header_facts(5) legacy_key_def)
    (simp add: legacy_header_def toy_header_def vault_header_new_def const_defs)

lemma legacy_files_ok: "files_ok legacy_files"
proof -
  have "sizes_ok (toy_entry (legacy_key ENCRYPTION_SUBKEY_INFO) (toy_name_key sample_name) 0 4
      sample_name sample_secret)"
    by (simp add: sizes_ok_def toy_entry_def Let_def sample_name_def sample_secret_def const_defs)
  moreover have "is_hex_key (toy_name_key sample_name)"
    by (rule name_key_hex [OF sample_hash toy_name_key])
  ultimately show ?thesis by (simp add: files_ok_def legacy_files_def file_ok_def const_defs)
qed

lemma legacy_index:
  "decode_index_v1 sample (index_layout 5 9 legacy_files) =
     Inr \<lparr>idx_nonce_counter = 5, idx_data_nonce_counter = 9, idx_files = legacy_files\<rparr>"
proof -
  obtain k e where f: "legacy_files = [(k, e)]" by (simp add: legacy_files_def)
  have e: "is_hex_key k" "sizes_ok e"
    using legacy_files_ok by (simp_all add: f files_ok_def file_ok_def)
  have "index_v1_from_json sample (index_layout 5 9 legacy_files) =
      Inr \<lparr>v1_version = LEGACY_INDEX_VERSION_1, v1_nonce_counter = 5, v1_data_nonce_counter = 9,
        v1_files = [([], toy_dummy), (k, toy_v1_meta e)]\<rparr>"
    by (simp add: sample_fields toy_index_v1_from_json_def decode_index_layout [OF legacy_files_ok])
      (simp add: f)
  then show ?thesis
    using e unfolding decode_index_v1_iff [OF sample_json]
    by (cases e) (simp add: f v1_meta_ok_def toy_dummy_def toy_v1_meta_def v1_entry_def const_defs)
qed

lemma legacy_opens_to:
  "opens_to sample sample_password legacy_data
     \<lparr>env_header = legacy_header, env_nonce = replicate 24 8, env_encrypted_index = legacy_payload\<rparr>
     (legacy_key ENCRYPTION_SUBKEY_INFO) (legacy_key HMAC_SUBKEY_INFO)
     \<lparr>idx_nonce_counter = 5, idx_data_nonce_counter = 9, idx_files = legacy_files\<rparr>"
proof -
  let ?env = "\<lparr>env_header = legacy_header, env_nonce = replicate 24 8,
    env_encrypted_index = legacy_payload\<rparr>"
  have "length (index_layout 5 9 legacy_files) \<le> 1000"
    using legacy_files_ok length_index_layout [of legacy_files 5 9]
    by (simp add: files_ok_def legacy_files_def toy_entry_def Let_def const_defs sample_name_def
        sample_secret_def)
  then have "parse_envelope sample legacy_data = Inr ?env"
    using legacy_header_facts
    by (intro parse_envelope_layout [of sample legacy_header legacy_header_json _ "replicate 8 0"])
      (simp_all add: legacy_data_def legacy_payload_def legacy_gap_def const_defs)
  moreover have "open_index sample ?env (legacy_key ENCRYPTION_SUBKEY_INFO) =
      Inr \<lparr>idx_nonce_counter = 5, idx_data_nonce_counter = 9, idx_files = legacy_files\<rparr>"
    using legacy_index legacy_header_facts(1,5)
    by (simp add: open_index_def to_aad_bytes_def open_with_aad_def sample_fields toy_open_def
        legacy_payload_def const_defs Let_def)
  ultimately show ?thesis
    by (simp add: opens_to_def legacy_password_keys legacy_files_def toy_entry_def Let_def)
qed

lemma legacy_open:
  "\<exists>v s'. open_vault sample sample_password legacy_data sample_sys = (Inr v, s')"
proof -
  let ?ek = "legacy_key ENCRYPTION_SUBKEY_INFO" and ?hk = "legacy_key HMAC_SUBKEY_INFO"
  let ?s = "\<lparr>ext = 2, heap = [0 \<mapsto> ?ek, Suc 0 \<mapsto> ?hk], locked = {Suc 0, 0}, released = []\<rparr>"
  let ?es = "LockedSecret (LockedRegion 0)" and ?hs = "LockedSecret (LockedRegion (Suc 0))"
  let ?v = "loaded_vault \<lparr>env_header = legacy_header, env_nonce = replicate 24 8,
      env_encrypted_index = legacy_payload\<rparr>
    \<lparr>idx_nonce_counter = 5, idx_data_nonce_counter = 9, idx_files = legacy_files\<rparr> ?es ?hs"
  have "?ek \<noteq> []" "?hk \<noteq> []" by (simp_all add: legacy_key_def)
  then have l: "lock_subkeys sample ?ek ?hk sample_sys = (Inr (?es, ?hs), ?s)"
    using toy_lock [of 0 Map.empty ?ek ?hk "{}" "[]"] by (simp add: sample_sys_def)
  have live: "keys_live ?s (index ?v) ?ek ?hk"
    by (simp add: keys_live_def secret_bytes_def loaded_vault_def SUBKEY_LEN_def)
  have "files (index ?v) = [(toy_name_key sample_name,
      toy_entry ?ek (toy_name_key sample_name) 0 4 sample_name sample_secret)]"
    by (simp add: loaded_vault_def legacy_files_def)
  from toy_rekey [OF live _ _ _ this] have "\<exists>v' s'. rekey sample ?v ?s sample_password = (Inr (), v', s')"
    by (simp add: sample_name_def sample_secret_def utf8_valid_ascii ascii_def)
  then show ?thesis
    by (auto simp: open_vault_loads [OF legacy_opens_to] l legacy_header_facts(5) Let_def)
qed

theorem open_upgrades_version_1_witness:
  "\<exists>v s'. open_vault sample sample_password legacy_data sample_sys = (Inr v, s') \<and>
     generated_header (header v) \<and> version (header v) = VAULT_VERSION \<and> vault_ok s' v \<and>
     unlocked_by sample sample_password s' v"
proof -
  obtain v s' where op: "open_vault sample sample_password legacy_data sample_sys = (Inr v, s')"
    using legacy_open by blast
  have "parse_envelope sample legacy_data = Inr \<lparr>env_header = legacy_header,
      env_nonce = replicate 24 8, env_encrypted_index = legacy_payload\<rparr>"
    using legacy_opens_to by (simp add: opens_to_def)
  from open_upgrades_version_1 [OF sample_laws sample_mem_ok this _ op] op show ?thesis
    by (simp add: legacy_header_facts(5))
qed

end
