(* ===== verification/Liveness.thy ===== *)
theory Liveness
  imports Session
begin

text \<open>
  When the operations succeed. \<open>env_works\<close> says that the libraries do their work on admissible
  inputs: the generator delivers, memory can be allocated and locked, the cipher, the hashes and
  the key derivation accept what their documentation admits. In such an environment every
  operation succeeds exactly under the preconditions the code checks; no other refusal is hidden
  in it.
\<close>

section \<open>An environment that works\<close>

definition memory_works :: "'w externals \<Rightarrow> bool" where
  "memory_works X \<longleftrightarrow>
     (\<forall>n w. \<exists>b w'. os_rng_fill X n w = (Some b, w')) \<and>
     (\<forall>n h w. finite (dom h) \<longrightarrow> (\<exists>p g w'. memsec_malloc_sized X n h w = (Some (p, g), w'))) \<and>
     (\<forall>p n w. \<exists>w'. memsec_mlock X p n w = (True, w'))"

definition crypto_works :: "'w externals \<Rightarrow> bool" where
  "crypto_works X \<longleftrightarrow>
     (\<forall>k n p a. length k = 32 \<longrightarrow> length n = XCHACHA20_NONCE_LEN \<longrightarrow> length p < 2 ^ 32 \<longrightarrow>
        (\<exists>c. xchacha_seal X k n p a (length p + POLY1305_OUTSIZE) = Inr c)) \<and>
     (\<forall>salt ikm info. \<exists>okm. hkdf_sha256 X salt ikm info SUBKEY_LEN = Inr okm) \<and>
     (\<forall>k m. length k = SUBKEY_LEN \<longrightarrow>
        (\<exists>key t. hmac_secret_key X k = Inr key \<and> hmac_sha256 X key m = Inr t))"

text \<open>Argon2 with the parameters the policy admits, passwords below 4 GiB and a 16-byte salt.\<close>

definition kdf_works :: "'w externals \<Rightarrow> bool" where
  "kdf_works X \<longleftrightarrow>
     (\<forall>m t. MIN_KDF_MEMORY \<le> m \<longrightarrow> m \<le> MAX_KDF_MEMORY \<longrightarrow>
        MIN_KDF_ITERATIONS \<le> t \<longrightarrow> t \<le> MAX_KDF_ITERATIONS \<longrightarrow>
        (\<exists>params. argon2_params_new X m t 1 (Some KEY_LEN) = Inr params \<and>
           (\<forall>pw salt. length pw < 2 ^ 32 \<longrightarrow> length salt = SALT_LEN \<longrightarrow>
              (\<exists>k. argon2id_hash X params pw salt KEY_LEN (argon2_block_count X params) = Inr k))))"

definition env_works :: "'w externals \<Rightarrow> bool" where
  "env_works X \<longleftrightarrow> ext_laws X \<and> memory_works X \<and> crypto_works X \<and> kdf_works X"

lemma env_worksD:
  assumes "env_works X"
  shows "ext_laws X" "memory_works X" "crypto_works X" "kdf_works X"
    "rng_laws X" "memsec_laws X" "aead_laws X" "hash_laws X" "json_laws X"
  using assms by (simp_all add: env_works_def ext_laws_def)

section \<open>Libraries\<close>

lemma fill_works:
  assumes "env_works X" "n \<noteq> 0"
  obtains b w where "secure_bytes_fill X n s = (Inr b, s\<lparr>ext := w\<rparr>)" "length b = n"
proof -
  from env_worksD(2) [OF assms(1)] obtain b w where f: "os_rng_fill X n (ext s) = (Some b, w)"
    unfolding memory_works_def by blast
  with assms(2) have "secure_bytes_fill X n s = (Inr b, s\<lparr>ext := w\<rparr>)"
    by (simp add: secure_bytes_fill_def)
  from that [OF this secure_bytes_fill_length [OF env_worksD(5) [OF assms(1)] this]] show thesis .
qed

lemma seal_works:
  assumes "env_works X" "length k = 32" "length n = XCHACHA20_NONCE_LEN" "length p < 2 ^ 32"
  obtains c where "seal_with_aad X k n p a = Inr c" "length c = length p + POLY1305_OUTSIZE"
proof -
  from env_worksD(3) [OF assms(1)] assms(2-)
  obtain c where "xchacha_seal X k n p a (length p + POLY1305_OUTSIZE) = Inr c"
    unfolding crypto_works_def by blast
  then have "seal_with_aad X k n p a = Inr c"
    using env_worksD(7) [OF assms(1)] assms(2,3) by (simp add: seal_with_aad_def aead_laws_def)
  from that [OF this seal_with_aad_length [OF env_worksD(7) [OF assms(1)] assms(2,3) this]] show thesis .
qed

lemma derive_subkeys_works:
  assumes "env_works X"
  obtains a b where "derive_subkeys X mk salt = Inr (a, b)" "length a = SUBKEY_LEN"
    "length b = SUBKEY_LEN"
proof -
  from env_worksD(3) [OF assms] have "\<exists>okm. hkdf_sha256 X salt mk info SUBKEY_LEN = Inr okm" for info
    unfolding crypto_works_def by blast
  then obtain a b where "hkdf_sha256 X salt mk ENCRYPTION_SUBKEY_INFO SUBKEY_LEN = Inr a"
    "hkdf_sha256 X salt mk HMAC_SUBKEY_INFO SUBKEY_LEN = Inr b" by metis
  then have "derive_subkeys X mk salt = Inr (a, b)" by (simp add: derive_subkeys_def)
  from that [OF this derive_subkeys_length [OF env_worksD(8) [OF assms] this]] show thesis .
qed

lemma name_key_works:
  assumes "env_works X" "length hk = SUBKEY_LEN"
  obtains k where "name_key X hk name = Inr k" "is_hex_key k"
proof -
  from env_worksD(3) [OF assms(1)] assms(2) obtain key t
    where "hmac_secret_key X hk = Inr key" "hmac_sha256 X key name = Inr t"
    unfolding crypto_works_def by blast
  then have "name_key X hk name = Inr (key_to_hex t)" by (simp add: name_key_def)
  from that [OF this name_key_hex [OF env_worksD(8) [OF assms(1)] this]] show thesis .
qed

lemma derive_master_key_works:
  assumes "env_works X" "header_in_policy h" "version h = VAULT_VERSION"
    and "length (kdf_salt h) = SALT_LEN" "length pw < 2 ^ 32"
  obtains mk where "derive_master_key X pw h = Inr mk"
proof -
  from env_worksD(4) [OF assms(1)] assms(2) obtain params
    where "argon2_params_new X (kdf_memory_cost h) (kdf_iterations h) 1 (Some KEY_LEN) = Inr params"
    and "\<forall>pw salt. length pw < 2 ^ 32 \<longrightarrow> length salt = SALT_LEN \<longrightarrow>
      (\<exists>k. argon2id_hash X params pw salt KEY_LEN (argon2_block_count X params) = Inr k)"
    unfolding kdf_works_def header_in_policy_def by blast
  with assms(3-) that show thesis
    by (fastforce simp: derive_master_key_def VAULT_VERSION_def LEGACY_VAULT_VERSION_1_def)
qed

lemma password_keys_works:
  assumes "env_works X" "header_in_policy h" "version h = VAULT_VERSION"
    and "length (kdf_salt h) = SALT_LEN" "length pw < 2 ^ 32"
  obtains ek hk where "password_keys X pw h = Inr (ek, hk)"
proof -
  obtain mk where mk: "derive_master_key X pw h = Inr mk"
    by (rule derive_master_key_works [OF assms])
  obtain a b where "derive_subkeys X mk (kdf_salt h) = Inr (a, b)"
    by (rule derive_subkeys_works [OF assms(1)])
  with mk show thesis by (intro that [of a b]) (simp add: password_keys_def)
qed

section \<open>Locked memory\<close>

lemma locked_secret_works:
  assumes "env_works X" "b \<noteq> []" "finite (dom (heap s))"
  obtains ls s' where "locked_secret_new X b s = (Inr ls, s')" "finite (dom (heap s'))"
proof -
  from env_worksD(2) [OF assms(1)] assms(3) obtain p g w
    where m: "memsec_malloc_sized X (length b) (heap s) (ext s) = (Some (p, g), w)"
    unfolding memory_works_def by blast
  from env_worksD(2) [OF assms(1)] obtain w' where "memsec_mlock X p (length b) w = (True, w')"
    unfolding memory_works_def by blast
  with m assms(2) have "locked_secret_new X b s = (Inr (LockedSecret (LockedRegion p)),
      s\<lparr>ext := w', locked := insert p (locked s), heap := (heap s)(p \<mapsto> b)\<rparr>)"
    by (simp add: locked_secret_new_def locked_region_new_def sys_malloc_def sys_mlock_def
        mem_write_def)
  then show thesis by (rule that) (use assms(3) in simp)
qed

lemma lock_subkeys_works:
  assumes "env_works X" "length a = SUBKEY_LEN" "length b = SUBKEY_LEN" "finite (dom (heap s))"
  obtains ek hk s' where "lock_subkeys X a b s = (Inr (ek, hk), s')"
proof -
  from assms(2,3) have "a \<noteq> []" "b \<noteq> []" by (auto simp: SUBKEY_LEN_def)
  then obtain ek s1 hk s2 where "locked_secret_new X a s = (Inr ek, s1)"
    "locked_secret_new X b s1 = (Inr hk, s2)"
    using assms(4) by (metis locked_secret_works [OF assms(1)])
  then show thesis by (intro that [of ek hk s2]) (simp add: lock_subkeys_def)
qed

section \<open>\<open>create\<close> and \<open>store\<close>\<close>

lemma header_generate_works:
  assumes "env_works X"
  obtains h w where "vault_header_generate X s = (Inr h, s\<lparr>ext := w\<rparr>)" "generated_header h"
proof -
  obtain salt w where "secure_bytes_fill X SALT_LEN s = (Inr salt, s\<lparr>ext := w\<rparr>)"
    by (rule fill_works [OF assms, of SALT_LEN]) (simp add: SALT_LEN_def)
  then have g: "vault_header_generate X s =
      (Inr (vault_header_new salt ITERATIONS MEMORY_COST (of_nat KEY_LEN)), s\<lparr>ext := w\<rparr>)"
    by (simp add: vault_header_generate_def)
  from that [OF g vault_header_generate_ok(1) [OF env_worksD(5) [OF assms] g]] show thesis .
qed

lemma from_master_key_works:
  assumes "env_works X" "finite (dom (heap s))"
  obtains idx s' where "from_master_key X mk salt s = (Inr idx, s')"
proof -
  obtain a b where sub: "derive_subkeys X mk salt = Inr (a, b)" "length a = SUBKEY_LEN"
    "length b = SUBKEY_LEN" by (rule derive_subkeys_works [OF assms(1)])
  obtain n w where n: "secure_bytes_fill X XCHACHA20_NONCE_LEN s = (Inr n, s\<lparr>ext := w\<rparr>)"
    by (rule fill_works [OF assms(1), of XCHACHA20_NONCE_LEN]) (simp add: XCHACHA20_NONCE_LEN_def)
  obtain ek hk s' where "lock_subkeys X a b (s\<lparr>ext := w\<rparr>) = (Inr (ek, hk), s')"
    by (rule lock_subkeys_works [OF assms(1) sub(2,3), of "s\<lparr>ext := w\<rparr>"]) (simp_all add: assms(2))
  with sub n show thesis by (intro that) (simp add: from_master_key_def)
qed

lemma generated_key_works:
  assumes "env_works X" "generated_header h" "length pw < 2 ^ 32"
  obtains mk where "derive_master_key X pw h = Inr mk"
  by (rule derive_master_key_works [OF assms(1) generated_header_in_policy [OF assms(2)]
      generated_header_version [OF assms(2)] generated_header_salt [OF assms(2)] assms(3)])

lemma create_works:
  assumes "env_works X" "MIN_PASSWORD_LEN \<le> length pw" "length pw < 2 ^ 32"
    and "finite (dom (heap s))"
  obtains v s' where "create X pw s = (Inr v, s')"
proof -
  obtain h w where h: "vault_header_generate X s = (Inr h, s\<lparr>ext := w\<rparr>)" "generated_header h"
    by (rule header_generate_works [OF assms(1)])
  obtain mk where mk: "derive_master_key X pw h = Inr mk"
    by (rule generated_key_works [OF assms(1) h(2) assms(3)])
  obtain idx s' where "from_master_key X mk (kdf_salt h) (s\<lparr>ext := w\<rparr>) = (Inr idx, s')"
    by (rule from_master_key_works [OF assms(1), of "s\<lparr>ext := w\<rparr>"]) (simp_all add: assms(4))
  with h(1) mk assms(2) show thesis
    by (intro that) (simp add: create_def validate_password_def)
qed

lemma counter_works:
  assumes "unat (data_nonce_counter idx) + 1 < 2 ^ 64"
  shows "next_data_nonce_counter idx =
    (Inr (data_nonce_counter idx), idx\<lparr>data_nonce_counter := data_nonce_counter idx + 1\<rparr>)"
  using assms by (simp add: next_data_nonce_counter_def u64_checked_add_def)

text \<open>There is room for an entry under a key.\<close>

definition has_room :: "vault_index \<Rightarrow> bytes \<Rightarrow> bool" where
  "has_room idx k \<longleftrightarrow> lookup_by_key idx k \<noteq> None \<or> length (files idx) < MAX_INDEX_ENTRIES"

text \<open>Within the size limits \<open>store\<close> gets as far as the insertion, whatever comes of that.\<close>

lemma store_runs:
  assumes "env_works X" "keys_live s (index v) ek hk"
    and "length name \<le> MAX_ENTRY_NAME_LEN" "length p \<le> MAX_ENTRY_DATA_SIZE"
    and "unat (data_nonce_counter (index v)) + 1 < 2 ^ 64"
    and "name_key X hk name = Inr k"
  obtains e r idx' w where
    "insert_by_key ((index v)\<lparr>data_nonce_counter := data_nonce_counter (index v) + 1\<rparr>) k e = (r, idx')"
    "store X v s name p = (map_err from_index_error r, v\<lparr>index := idx'\<rparr>, s\<lparr>ext := w\<rparr>)"
proof -
  let ?i = "index v" and ?c = "data_nonce_counter (index v)"
  have ek: "length ek = 32" using assms(2) by (simp add: keys_live_def SUBKEY_LEN_def)
  have nz: "XCHACHA20_NONCE_LEN \<noteq> 0" by (simp add: XCHACHA20_NONCE_LEN_def)
  obtain n1 w1 where n1: "secure_bytes_fill X XCHACHA20_NONCE_LEN s = (Inr n1, s\<lparr>ext := w1\<rparr>)"
    "length n1 = XCHACHA20_NONCE_LEN" by (rule fill_works [OF assms(1) nz])
  obtain n2 w2 where n2: "secure_bytes_fill X XCHACHA20_NONCE_LEN (s\<lparr>ext := w1\<rparr>) =
      (Inr n2, s\<lparr>ext := w2\<rparr>)" "length n2 = XCHACHA20_NONCE_LEN"
    by (rule fill_works [OF assms(1) nz, of "s\<lparr>ext := w1\<rparr>"]) simp
  have small: "length p < 2 ^ 32" "length name < 2 ^ 32"
    using assms(3,4) by (simp_all add: const_defs)
  obtain c1 where c1: "seal_with_aad X ek n1 p (build_entry_aad k ?c) = Inr c1"
    by (rule seal_works [OF assms(1) ek n1(2) small(1)])
  obtain c2 where c2: "seal_with_aad X ek n2 name (build_entry_aad k ?c) = Inr c2"
    by (rule seal_works [OF assms(1) ek n2(2) small(2)])
  let ?e = "\<lparr>data_counter = ?c, encrypted_name = n2 @ c2, encrypted_data = n1 @ c1\<rparr>"
  have "extract_enc_key (s\<lparr>ext := w2\<rparr>) (enc_key ?i) = Inr ek"
    using keys_live_enc [of "s\<lparr>ext := w2\<rparr>" ?i ek hk] assms(2) by (simp add: keys_live_def)
  with c1 c2 have seal: "seal_entry X (s\<lparr>ext := w2\<rparr>) (enc_key ?i) k ?c n1 n2 name p = Inr ?e"
    by (simp add: seal_entry_def Let_def)
  have key: "hmac_key_for_name X s ?i name = Inr k"
    using assms(6) by (simp add: keys_live_hmac [OF assms(2)])
  obtain r idx' where ins: "insert_by_key (?i\<lparr>data_nonce_counter := ?c + 1\<rparr>) k ?e = (r, idx')"
    by fastforce
  show thesis
    by (rule that [OF ins store_body [OF assms(3,4) key counter_works [OF assms(5)] n1(1) n2(1)]])
      (use seal ins in simp_all)
qed

lemma store_works:
  assumes "env_works X" "keys_live s (index v) ek hk"
    and "length name \<le> MAX_ENTRY_NAME_LEN" "length p \<le> MAX_ENTRY_DATA_SIZE"
    and "unat (data_nonce_counter (index v)) + 1 < 2 ^ 64"
    and "name_key X hk name = Inr k" "has_room (index v) k"
  obtains v' w where "store X v s name p = (Inr (), v', s\<lparr>ext := w\<rparr>)"
proof (rule store_runs [OF assms(1-6)])
  fix e r idx' w
  assume ins: "insert_by_key ((index v)\<lparr>data_nonce_counter := data_nonce_counter (index v) + 1\<rparr>) k e =
      (r, idx')"
    and st: "store X v s name p = (map_err from_index_error r, v\<lparr>index := idx'\<rparr>, s\<lparr>ext := w\<rparr>)"
  have "r = Inr ()"
    using ins assms(7) by (auto simp: insert_by_key_def has_room_def lookup_by_key_def split: if_splits)
  with st show thesis by (intro that) simp
qed

text \<open>\<open>store\<close> succeeds exactly when its documented conditions hold.\<close>

lemma store_works_iff:
  assumes "env_works X" "keys_live s (index v) ek hk" "name_key X hk name = Inr k"
  shows "(\<exists>v' s'. store X v s name p = (Inr (), v', s')) \<longleftrightarrow>
    length name \<le> MAX_ENTRY_NAME_LEN \<and> length p \<le> MAX_ENTRY_DATA_SIZE \<and>
    unat (data_nonce_counter (index v)) + 1 < 2 ^ 64 \<and> has_room (index v) k"
proof
  assume "\<exists>v' s'. store X v s name p = (Inr (), v', s')"
  then obtain v' s' where "store X v s name p = (Inr (), v', s')" by blast
  then show "length name \<le> MAX_ENTRY_NAME_LEN \<and> length p \<le> MAX_ENTRY_DATA_SIZE \<and>
    unat (data_nonce_counter (index v)) + 1 < 2 ^ 64 \<and> has_room (index v) k"
    by (rule store_ok [OF env_worksD(5) [OF assms(1)] assms(2)])
      (use assms(3) in \<open>auto simp: has_room_def lookup_by_key_def\<close>)
next
  assume "length name \<le> MAX_ENTRY_NAME_LEN \<and> length p \<le> MAX_ENTRY_DATA_SIZE \<and>
    unat (data_nonce_counter (index v)) + 1 < 2 ^ 64 \<and> has_room (index v) k"
  then show "\<exists>v' s'. store X v s name p = (Inr (), v', s')"
    by (elim conjE store_works [OF assms(1,2) _ _ _ assms(3)]) auto
qed

section \<open>\<open>export\<close>, \<open>open\<close>, \<open>save\<close>\<close>

text \<open>Adding two regions keeps the memory finite.\<close>

lemma adds_keys_finite:
  assumes "adds_keys s idx ek hk s'" "finite (dom (heap s))"
  shows "finite (dom (heap s'))"
proof -
  have eq: "heap t p = secret_bytes t (LockedSecret (LockedRegion p))" for t :: "'a sys" and p
    by (simp add: secret_bytes_def)
  have addr: "LockedSecret (LockedRegion p) = e \<longleftrightarrow> p = secret_addr e" for p e
    using secret_addr_inject [of "LockedSecret (LockedRegion p)" e] by simp
  have "dom (heap s') \<subseteq> insert (secret_addr (enc_key idx))
      (insert (secret_addr (hmac_key idx)) (dom (heap s)))"
  proof
    fix p assume "p \<in> dom (heap s')"
    with assms(1) show "p \<in> insert (secret_addr (enc_key idx))
        (insert (secret_addr (hmac_key idx)) (dom (heap s)))"
      by (auto simp: adds_keys_def eq addr dom_def split: if_splits)
  qed
  then show ?thesis by (rule finite_subset) (use assms(2) in simp)
qed

text \<open>The size of the file \<open>export\<close> writes, known before anything is encrypted.\<close>

definition export_size :: "'w externals \<Rightarrow> vault \<Rightarrow> nat" where
  "export_size X v = 4 + length (projr (header_to_json X (header v))) + XCHACHA20_NONCE_LEN +
     encoded_total (index v) + POLY1305_OUTSIZE"

text \<open>With a counter left \<open>export\<close> gets as far as the check of the size.\<close>

lemma export_runs:
  assumes "env_works X" "vault_ok s v" "unat (nonce_counter (index v)) + 1 < 2 ^ 64"
    and "export_size X v < 2 ^ 32"
  obtains out n w where "length out = export_size X v"
    "export X v s = (and_then (validate_export_size (length out)) (\<lambda>_. Inr out),
       v\<lparr>index := (index v)\<lparr>nonce := n, nonce_counter := nonce_counter (index v) + 1\<rparr>\<rparr>,
       s\<lparr>ext := w\<rparr>)"
proof -
  from assms(2) obtain ek hk where live: "keys_live s (index v) ek hk"
    and files: "files_ok (files (index v))" and salt: "length (kdf_salt (header v)) = SALT_LEN"
    by (auto simp: vault_ok_def index_ok_def)
  obtain n w where n: "secure_bytes_fill X XCHACHA20_NONCE_LEN s = (Inr n, s\<lparr>ext := w\<rparr>)"
    "length n = XCHACHA20_NONCE_LEN"
    by (rule fill_works [OF assms(1), of XCHACHA20_NONCE_LEN]) (simp add: XCHACHA20_NONCE_LEN_def)
  let ?i = "(index v)\<lparr>nonce := n, nonce_counter := nonce_counter (index v) + 1\<rparr>"
  have adv: "advance_nonce X (index v) s = (Inr (), ?i, s\<lparr>ext := w\<rparr>)"
    using assms(3) n(1) by (simp add: advance_nonce_def u64_checked_add_def Let_def)
  obtain hj where hj: "to_aad_bytes X (header v) = Inr hj" "header_to_json X (header v) = Inr hj"
    by (rule to_aad_bytes_ok [OF env_worksD(9) [OF assms(1)] salt])
  let ?b = "index_layout (nonce_counter ?i) (data_nonce_counter ?i) (files ?i)"
  have enc: "encode_index ?i = Inr ?b" by (rule encode_index_ok) (simp add: files)
  have len: "length ?b = encoded_total (index v)"
    using length_index_layout [of "files (index v)"] files
    by (simp add: encoded_total_def files_ok_def)
  have key: "extract_enc_key (s\<lparr>ext := w\<rparr>) (enc_key ?i) = Inr ek"
    by (rule keys_live_enc [of _ _ _ hk]) (use live in \<open>simp add: keys_live_def\<close>)
  have ek: "length ek = 32" using live by (simp add: keys_live_def SUBKEY_LEN_def)
  have "length ?b < 2 ^ 32"
    using assms(4) unfolding len export_size_def by simp
  then obtain c where c: "seal_with_aad X ek n ?b hj = Inr c" "length c = length ?b + POLY1305_OUTSIZE"
    by (rule seal_works [OF assms(1) ek n(2)])
  have size: "length (assemble_envelope hj n c) = export_size X v"
    using c(2) n(2) len by (simp add: assemble_envelope_def export_size_def hj(2))
  have "export X v s = (and_then (validate_export_size (length (assemble_envelope hj n c)))
      (\<lambda>_. Inr (assemble_envelope hj n c)), v\<lparr>index := ?i\<rparr>, s\<lparr>ext := w\<rparr>)"
    using adv hj enc key c(1) by (simp add: export_def Let_def)
  from that [OF size this] show thesis .
qed

lemma export_works:
  assumes "env_works X" "vault_ok s v" "unat (nonce_counter (index v)) + 1 < 2 ^ 64"
    and "export_size X v \<le> MAX_VAULT_FILE_SIZE"
  obtains out v' s' where "export X v s = (Inr out, v', s')"
proof -
  have "export_size X v < 2 ^ 32" using assms(4) by (simp add: MAX_VAULT_FILE_SIZE_def)
  then show thesis
    by (rule export_runs [OF assms(1-3)])
      (use assms(4) in \<open>auto simp: validate_export_size_def intro: that\<close>)
qed

lemma export_works_iff:
  assumes "env_works X" "vault_ok s v"
  shows "(\<exists>out v' s'. export X v s = (Inr out, v', s')) \<longleftrightarrow>
    unat (nonce_counter (index v)) + 1 < 2 ^ 64 \<and> export_size X v \<le> MAX_VAULT_FILE_SIZE"
proof
  assume "\<exists>out v' s'. export X v s = (Inr out, v', s')"
  then obtain out v' s' where e: "export X v s = (Inr out, v', s')" by blast
  from assms(2) obtain ek hk where live: "keys_live s (index v) ek hk"
    and idx: "index_ok (index v)" by (auto simp: vault_ok_def)
  have fs: "list_all file_ok (files (index v))" using idx by (simp add: index_ok_def files_ok_def)
  have ek: "length ek = 32" using live by (simp add: keys_live_def SUBKEY_LEN_def)
  show "unat (nonce_counter (index v)) + 1 < 2 ^ 64 \<and> export_size X v \<le> MAX_VAULT_FILE_SIZE"
    by (rule export_ok [OF env_worksD(1) [OF assms(1)] idx live e])
      (use length_index_layout [OF fs] seal_with_aad_length [OF env_worksD(7) [OF assms(1)] ek]
       in \<open>simp add: export_size_def assemble_envelope_def encoded_total_def\<close>)
next
  assume "unat (nonce_counter (index v)) + 1 < 2 ^ 64 \<and> export_size X v \<le> MAX_VAULT_FILE_SIZE"
  then obtain out v' s' where "export X v s = (Inr out, v', s')"
    by (elim conjE) (rule export_works [OF assms])
  then show "\<exists>out v' s'. export X v s = (Inr out, v', s')" by blast
qed

lemma reopen_works:
  assumes "env_works X" "vault_ok s v" "unlocked_by X password s v"
    and "export X v s = (Inr out, v', s')" "finite (dom (heap t))"
  obtains w t' where "open_vault X password out t = (Inr w, t')"
proof -
  from assms(3) obtain ek hk where keys: "password_keys X password (header v) = Inr (ek, hk)"
    and live: "keys_live s (index v) ek hk" by (auto simp: unlocked_by_def)
  note o = export_opens_to [OF env_worksD(1) [OF assms(1)] assms(2) keys live assms(4)]
  have ver: "version (header v) = VAULT_VERSION" using assms(2) by (simp add: vault_ok_def)
  have "length ek = SUBKEY_LEN" "length hk = SUBKEY_LEN" using live by (simp_all add: keys_live_def)
  then obtain es hs t' where "lock_subkeys X ek hk t = (Inr (es, hs), t')"
    using assms(5) by (rule lock_subkeys_works [OF assms(1)])
  then show thesis
    by (intro that) (simp add: open_vault_loads [OF o] ver const_defs)
qed

section \<open>\<open>change_password\<close>\<close>

text \<open>The sizes of what an entry decrypts to.\<close>

lemma sealed_entry_plain_sizes:
  assumes "aead_laws X" "length ek = SUBKEY_LEN" "sealed_entry X ek k n p e" "sizes_ok e"
  shows "length n \<le> MAX_ENTRY_NAME_LEN" "length p \<le> MAX_ENTRY_DATA_SIZE"
proof -
  have ek: "length ek = 32" using assms(2) by (simp add: SUBKEY_LEN_def)
  from assms(3) obtain n1 c1 n2 c2 where
    n: "length n1 = XCHACHA20_NONCE_LEN" "length n2 = XCHACHA20_NONCE_LEN"
    and e: "encrypted_data e = n1 @ c1" "encrypted_name e = n2 @ c2"
    and c: "seal_with_aad X ek n1 p (build_entry_aad k (data_counter e)) = Inr c1"
      "seal_with_aad X ek n2 n (build_entry_aad k (data_counter e)) = Inr c2"
    unfolding sealed_entry_def by blast
  from seal_with_aad_length [OF assms(1) ek n(1) c(1)] seal_with_aad_length [OF assms(1) ek n(2) c(2)]
    n assms(4)
  show "length n \<le> MAX_ENTRY_NAME_LEN" "length p \<le> MAX_ENTRY_DATA_SIZE"
    by (simp_all add: sizes_ok_def e MAX_ENCRYPTED_NAME_LEN_def MAX_ENCRYPTED_DATA_LEN_def)
qed

lemma rekey_entries_works:
  assumes "env_works X" "length oek = SUBKEY_LEN"
    and "\<forall>f \<in> set fs. sizes_ok (snd f) \<and>
      (\<exists>n p. utf8_valid n \<and> sealed_entry X oek (fst f) n p (snd f))"
    and "keys_live s (index w) ek hk"
    and "length (files (index w)) + length fs \<le> MAX_INDEX_ENTRIES"
    and "unat (data_nonce_counter (index w)) + length fs < 2 ^ 64"
  shows "\<exists>w' s'. rekey_entries X oek fs w s = (Inr (), w', s')"
  using assms(3-)
proof (induction fs arbitrary: w s)
  case (Cons f fs)
  obtain k e where f: "f = (k, e)" by (cases f)
  note laws = env_worksD [OF assms(1)]
  from Cons.prems(1) obtain n p where e: "sizes_ok e" "utf8_valid n" "sealed_entry X oek k n p e"
    by (auto simp: f)
  have d: "decrypt_entry X oek k e = Inr (n, p)"
    by (rule decrypt_entry_of_sealed [OF laws(7) assms(2) e(3,2)])
  have hk: "length hk = SUBKEY_LEN" using Cons.prems(2) by (simp add: keys_live_def)
  obtain j where j: "name_key X hk n = Inr j" by (rule name_key_works [OF assms(1) hk])
  have "has_room (index w) j" using Cons.prems(3) by (simp add: has_room_def)
  moreover have "unat (data_nonce_counter (index w)) + 1 < 2 ^ 64" using Cons.prems(4) by simp
  ultimately obtain w1 x where st: "store X w s n p = (Inr (), w1, s\<lparr>ext := x\<rparr>)"
    using sealed_entry_plain_sizes [OF laws(7) assms(2) e(3,1)]
    by (elim store_works [OF assms(1) Cons.prems(2) _ _ _ j, rotated 2]) auto
  have "length (files (index w1)) \<le> Suc (length (files (index w))) \<and>
      unat (data_nonce_counter (index w1)) = Suc (unat (data_nonce_counter (index w)))"
    by (rule store_ok [OF laws(5) Cons.prems(2) st]) (simp add: length_alist_update unat_word_ariths)
  then have "\<exists>w' s'. rekey_entries X oek fs w1 (s\<lparr>ext := x\<rparr>) = (Inr (), w', s')"
    using Cons.prems store_keys(1) [OF st] by (intro Cons.IH) auto
  with d st show ?case by (simp add: f)
qed simp

text \<open>Every entry was stored under a name that is a Rust string.\<close>

abbreviation strings :: "bytes set" where
  "strings \<equiv> {n. utf8_valid n}"

lemma rekey_works:
  assumes "env_works X" "mem_ok s" "keys_live s (index v) oek ohk" "index_ok (index v)"
    and "sealed_for X oek ohk strings (files (index v))" "length pw < 2 ^ 32"
    and "finite (dom (heap s))"
  obtains v' s' where "rekey X v s pw = (Inr (), v', s')"
proof -
  note laws = env_worksD [OF assms(1)]
  obtain h x where h: "vault_header_generate X s = (Inr h, s\<lparr>ext := x\<rparr>)" "generated_header h"
    by (rule header_generate_works [OF assms(1)])
  obtain mk where mk: "derive_master_key X pw h = Inr mk"
    by (rule generated_key_works [OF assms(1) h(2) assms(6)])
  obtain idx s2 where idx: "from_master_key X mk (kdf_salt h) (s\<lparr>ext := x\<rparr>) = (Inr idx, s2)"
    by (rule from_master_key_works [OF assms(1), of "s\<lparr>ext := x\<rparr>"]) (simp_all add: assms(7))
  let ?w = "\<lparr>header = h, index = idx\<rparr>"
  obtain ek hk where fresh: "fresh_vault X pw s ?w ek hk s2"
    by (rule fresh_vaultI [OF laws(1) assms(2) h(1) mk idx])
  then have adds: "adds_keys s idx ek hk s2" and empty: "files idx = []" "data_nonce_counter idx = 0"
    by (simp_all add: fresh_vault_def)
  have live: "keys_live s2 (index ?w) ek hk" using adds by (simp add: adds_keys_def)
  have "keys_live s2 (index v) oek ohk"
    using adds assms(3) by (auto simp: adds_keys_def keys_live_def)
  note old = keys_live_enc [OF this]
  have "length (files (index v)) \<le> MAX_INDEX_ENTRIES"
    and "\<forall>f \<in> set (files (index v)). sizes_ok (snd f)"
    using assms(4) by (auto simp: index_ok_def files_ok_def list_all_iff file_ok_def)
  moreover from assms(5) have "\<forall>f \<in> set (files (index v)).
      \<exists>n p. utf8_valid n \<and> sealed_entry X oek (fst f) n p (snd f)"
    unfolding sealed_for_def by blast
  moreover have "length oek = SUBKEY_LEN" using assms(3) by (simp add: keys_live_def)
  ultimately have "\<exists>w' s'. rekey_entries X oek (files (index v)) ?w s2 = (Inr (), w', s')"
    using empty by (intro rekey_entries_works [OF assms(1) _ _ live]) (simp_all add: MAX_INDEX_ENTRIES_def)
  then obtain w' s' where "rekey_entries X oek (files (index v)) ?w s2 = (Inr (), w', s')" by blast
  with h(1) mk idx old show thesis by (intro that) (simp add: rekey_def Let_def)
qed

lemma change_password_works_iff:
  assumes "env_works X" "vault_ok s v" "keys_live s (index v) ek hk"
    and "sealed_for X ek hk strings (files (index v))" "length new < 2 ^ 32"
    and "finite (dom (heap s))"
  shows "(\<exists>v' s'. change_password X v s old new = (Inr (), v', s')) \<longleftrightarrow>
    MIN_PASSWORD_LEN \<le> length new \<and> (\<exists>h. password_keys X old (header v) = Inr (ek, h))"
proof
  assume "\<exists>v' s'. change_password X v s old new = (Inr (), v', s')"
  then obtain v' s' where "change_password X v s old new = (Inr (), v', s')" by blast
  from change_password_ok [OF this] verify_password_iff [OF env_worksD(8) [OF assms(1)] assms(3)]
  show "MIN_PASSWORD_LEN \<le> length new \<and> (\<exists>h. password_keys X old (header v) = Inr (ek, h))"
    by simp
next
  assume *: "MIN_PASSWORD_LEN \<le> length new \<and> (\<exists>h. password_keys X old (header v) = Inr (ek, h))"
  then have "verify_password X v s old = Inr ()"
    using verify_password_iff [OF env_worksD(8) [OF assms(1)] assms(3)] by simp
  moreover obtain v' s' where "rekey X v s new = (Inr (), v', s')"
    using assms(2) by (auto simp: vault_ok_def intro: rekey_works [OF assms(1) _ assms(3) _ assms(4-6)])
  ultimately show "\<exists>v' s'. change_password X v s old new = (Inr (), v', s')"
    using * by (simp add: change_password_def validate_password_def)
qed

lemma save_works:
  assumes "env_works X" "vault_ok s v" "unat (nonce_counter (index v)) + 1 < 2 ^ 64"
    and "export_size X v \<le> MAX_VAULT_FILE_SIZE"
    and "\<And>suffix. tree fs (resolve (save_tmp_path p suffix)) = None"
  obtains v' s' fs' where "save X no_faults v s fs p = (Inr (), v', s', fs')"
proof -
  obtain out v' s1 where e: "export X v s = (Inr out, v', s1)"
    by (rule export_works [OF assms(1-4)])
  obtain suffix w where n: "secure_bytes_fill X 8 s1 = (Inr suffix, s1\<lparr>ext := w\<rparr>)"
    by (rule fill_works [OF assms(1), of 8]) simp_all
  have "fst (replace_file no_faults (save_tmp_path p suffix) p out fs) = Inr ()"
    using assms(5) by (simp add: replace_file_def fs_defs no_faults_def Let_def)
  with e n show thesis
    by (cases "replace_file no_faults (save_tmp_path p suffix) p out fs")
      (auto simp: save_def intro: that)
qed

lemma saved_loads:
  assumes "env_works X" "vault_ok s v" "unlocked_by X password s v"
    and "save X io v s fs p = (Inr u, v', s', fs')" "mem_ok t" "finite (dom (heap t))"
  obtains w t' where "load_vault X no_faults fs' p password t = (Inr w, t')"
    "\<And>n. retrieve X w t' n = retrieve X v s n"
proof (rule save_ok [OF env_worksD(1) [OF assms(1)] assms(2,4)])
  fix out s1
  assume ex: "export X v s = (Inr out, v', s1)"
    and load: "\<And>password t. load_vault X no_faults fs' p password t = open_vault X password out t"
  obtain w t' where o: "open_vault X password out t = (Inr w, t')"
    by (rule reopen_works [OF assms(1-3) ex assms(6)])
  with export_reopens [OF env_worksD(1) [OF assms(1)] assms(2,3) ex assms(5)] show thesis
    by (intro that [of w t']) (simp_all add: load)
qed

end
