(* ===== verification/CodecTests.thy ===== *)
theory CodecTests
  imports CodecFacts
begin

text \<open>
  The unit tests of the index codec (\<open>mod tests\<close> of \<open>src/vault/index_codec.rs\<close>), with their
  helpers. A test is the conjunction of its assertions, \<open>False\<close> where it would panic. They are
  proved from the facts about the codec and not by running it, so the bounds they probe are
  checked on the model exactly where the tests check them on the code.
\<close>

section \<open>Helpers\<close>

text \<open>\<open>str::contains\<close>\<close>

fun str_contains :: "string \<Rightarrow> string \<Rightarrow> bool" where
  "str_contains [] t = (t = [])"
| "str_contains (c # s) t = (take (length t) (c # s) = t \<or> str_contains s t)"

lemma str_contains_append: "str_contains s t \<Longrightarrow> str_contains (x @ s) t"
  by (induction x) auto

text \<open>\<open>match r { Err(VaultError::CorruptedData(msg)) => assert!(msg.contains(t)), _ => panic!() }\<close>\<close>

fun corrupted_with :: "string \<Rightarrow> vault_error + 'a \<Rightarrow> bool" where
  "corrupted_with t (Inl (CorruptedData msg)) = str_contains msg t"
| "corrupted_with t _ = False"

definition entry :: "u64 \<Rightarrow> nat \<Rightarrow> nat \<Rightarrow> index_entry" where
  "entry counter name_len data_len =
     \<lparr>data_counter = counter, encrypted_name = replicate name_len 0xAA,
      encrypted_data = replicate data_len 0xBB\<rparr>"

fun raw_entries :: "(bytes \<times> index_entry) list \<Rightarrow> bytes" where
  "raw_entries [] = []"
| "raw_entries ((key, e) # es) =
     key @ u64_to_le (data_counter e) @
     u32_to_le (of_nat (length (encrypted_name e))) @ encrypted_name e @
     u32_to_le (of_nat (length (encrypted_data e))) @ encrypted_data e @ raw_entries es"

definition raw_encode ::
  "u16 \<Rightarrow> u64 \<Rightarrow> u64 \<Rightarrow> u32 \<Rightarrow> (bytes \<times> index_entry) list \<Rightarrow> bytes" where
  "raw_encode ver ncounter dcounter declared_count entries =
     u16_to_le ver @ u64_to_le ncounter @ u64_to_le dcounter @ u32_to_le declared_count @
     raw_entries entries"

section \<open>Facts\<close>

text \<open>The decoder after the preamble.\<close>

lemma decode_index_split:
  obtains r where "rest r = body"
    "decode_index (u16_to_le ver @ u64_to_le nc @ u64_to_le dc @ u32_to_le c @ body) =
      (if ver \<noteq> VAULT_INDEX_VERSION
       then Inl (CorruptedData (fmt ''Unsupported index version: {}'' [dec (unat ver)]))
       else if MAX_INDEX_ENTRIES < unat c
       then Inl (CorruptedData (fmt ''Index entry count {} exceeds maximum {}''
         [dec (unat c), dec MAX_INDEX_ENTRIES]))
       else if length body < unat c * MIN_ENTRY_LEN
       then Inl (CorruptedData (fmt ''Index declares {} entries but holds {} bytes''
         [dec (unat c), dec (length body)]))
       else and_then (decode_entries (unat c) r []) (\<lambda>(fs, r').
         if reader_remaining r' \<noteq> 0
         then Inl (CorruptedData (fmt ''{} trailing bytes after the last index entry''
           [dec (reader_remaining r')]))
         else Inr \<lparr>idx_nonce_counter = nc, idx_data_nonce_counter = dc, idx_files = fs\<rparr>))"
proof -
  define r0 where "r0 = \<lparr>buf = u16_to_le ver @ u64_to_le nc @ u64_to_le dc @ u32_to_le c @ body,
    pos = 0\<rparr>"
  define r1 where "r1 = r0\<lparr>pos := pos r0 + 2\<rparr>"
  define r2 where "r2 = r1\<lparr>pos := pos r1 + 8\<rparr>"
  define r3 where "r3 = r2\<lparr>pos := pos r2 + 8\<rparr>"
  define r4 where "r4 = r3\<lparr>pos := pos r3 + 4\<rparr>"
  have 0: "rest r0 = u16_to_le ver @ u64_to_le nc @ u64_to_le dc @ u32_to_le c @ body"
    by (simp add: r0_def rest_def)
  then have 1: "rest r1 = u64_to_le nc @ u64_to_le dc @ u32_to_le c @ body"
    unfolding r1_def rest_advance by simp
  then have 2: "rest r2 = u64_to_le dc @ u32_to_le c @ body"
    unfolding r2_def rest_advance by simp
  then have 3: "rest r3 = u32_to_le c @ body" unfolding r3_def rest_advance by simp
  then have 4: "rest r4 = body" unfolding r4_def rest_advance by simp
  note reads = r16.read_enc [OF 0, folded r1_def] r64.read_enc [OF 1, folded r2_def]
    r64.read_enc [OF 2, folded r3_def] r32.read_enc [OF 3, folded r4_def]
  from reads 4 show thesis
    by (intro that [of r4]) (simp_all add: decode_index_def r0_def [symmetric] reader_remaining_rest)
qed

text \<open>Unvalidated entries within the bounds are laid out as the encoder lays them out.\<close>

lemma raw_entries_layout:
  assumes "\<forall>f \<in> set es. length (fst f) = ENTRY_KEY_LEN \<and> sizes_ok (snd f)"
  shows "raw_entries es = concat (map file_bytes (map (\<lambda>(key, e). (key_to_hex key, e)) es))"
  using assms
proof (induction es)
  case (Cons f es)
  obtain key e where f: "f = (key, e)" by (cases f)
  with Cons show ?case by (simp add: file_ok_key_to_hex entry_layout_def)
qed simp

lemma decode_raw_encode:
  assumes "\<forall>f \<in> set es. length (fst f) = ENTRY_KEY_LEN \<and> sizes_ok (snd f)"
    and "distinct (map fst es)" "length es \<le> MAX_INDEX_ENTRIES"
  shows "decode_index (raw_encode VAULT_INDEX_VERSION nc dc (of_nat (length es)) es) =
    Inr \<lparr>idx_nonce_counter = nc, idx_data_nonce_counter = dc,
         idx_files = map (\<lambda>(key, e). (key_to_hex key, e)) es\<rparr>"
proof -
  let ?fs = "map (\<lambda>(key, e). (key_to_hex key, e)) es"
  have keys: "map fst ?fs = map key_to_hex (map fst es)" by (induction es) auto
  have "distinct (map fst ?fs)"
    unfolding keys using assms(2) by (simp add: distinct_map inj_on_def key_to_hex_inject)
  moreover have "list_all file_ok ?fs"
    using assms(1) by (auto simp: list_all_iff file_ok_key_to_hex)
  ultimately have "files_ok ?fs" using assms(3) by (simp add: files_ok_def)
  from decode_index_layout [OF this, of nc dc] show ?thesis
    by (simp add: raw_encode_def raw_entries_layout [OF assms(1)] index_layout_def)
qed

lemma entry_sizes_ok: "sizes_ok (entry c n d) \<longleftrightarrow>
    MIN_ENCRYPTED_LEN \<le> n \<and> n \<le> MAX_ENCRYPTED_NAME_LEN \<and>
    MIN_ENCRYPTED_LEN \<le> d \<and> d \<le> MAX_ENCRYPTED_DATA_LEN"
  by (simp add: sizes_ok_def entry_def)

text \<open>An entry whose name length or data length is out of bounds stops the decoder there.\<close>

lemma decode_entry_bad_sizes:
  assumes "rest r = key @ u64_to_le c @ u32_to_le nl @ tail" "length key = ENTRY_KEY_LEN"
    and "\<not> (MIN_ENCRYPTED_LEN \<le> unat nl \<and> unat nl \<le> MAX_ENCRYPTED_NAME_LEN)"
  shows "decode_entry r = Inl (name_len_error (unat nl))"
proof -
  define r1 where "r1 = r\<lparr>pos := pos r + ENTRY_KEY_LEN\<rparr>"
  define r2 where "r2 = r1\<lparr>pos := pos r1 + 8\<rparr>"
  define r3 where "r3 = r2\<lparr>pos := pos r2 + 4\<rparr>"
  have 0: "reader_take r ENTRY_KEY_LEN ''entry key'' = Inr (key, r1)"
    using reader_take_append [of r key] assms(1,2) by (simp add: r1_def)
  have 1: "rest r1 = u64_to_le c @ u32_to_le nl @ tail"
    unfolding r1_def rest_advance by (simp add: assms(1,2))
  then have 2: "rest r2 = u32_to_le nl @ tail" unfolding r2_def rest_advance by simp
  from r64.read_enc [OF 1, folded r2_def] r32.read_enc [OF 2, folded r3_def] 0 assms(3)
  show ?thesis by (auto simp: decode_entry_def)
qed

lemma decode_entry_bad_data:
  assumes "rest r = key @ u64_to_le c @ u32_to_le nl @ name @ u32_to_le dl @ tail"
    and "length key = ENTRY_KEY_LEN" "length name = unat nl"
    and "MIN_ENCRYPTED_LEN \<le> unat nl" "unat nl \<le> MAX_ENCRYPTED_NAME_LEN"
    and "\<not> (MIN_ENCRYPTED_LEN \<le> unat dl \<and> unat dl \<le> MAX_ENCRYPTED_DATA_LEN)"
  shows "decode_entry r = Inl (data_len_error (unat dl))"
proof -
  define r1 where "r1 = r\<lparr>pos := pos r + ENTRY_KEY_LEN\<rparr>"
  define r2 where "r2 = r1\<lparr>pos := pos r1 + 8\<rparr>"
  define r3 where "r3 = r2\<lparr>pos := pos r2 + 4\<rparr>"
  define r4 where "r4 = r3\<lparr>pos := pos r3 + unat nl\<rparr>"
  define r5 where "r5 = r4\<lparr>pos := pos r4 + 4\<rparr>"
  have 0: "reader_take r ENTRY_KEY_LEN ''entry key'' = Inr (key, r1)"
    using reader_take_append [of r key] assms(1,2) by (simp add: r1_def)
  have 1: "rest r1 = u64_to_le c @ u32_to_le nl @ name @ u32_to_le dl @ tail"
    unfolding r1_def rest_advance by (simp add: assms(1,2))
  then have 2: "rest r2 = u32_to_le nl @ name @ u32_to_le dl @ tail"
    unfolding r2_def rest_advance by simp
  then have 3: "rest r3 = name @ u32_to_le dl @ tail" unfolding r3_def rest_advance by simp
  have take: "reader_take r3 (unat nl) ''entry name ciphertext'' = Inr (name, r4)"
    using reader_take_append [OF 3] assms(3) by (simp add: r4_def)
  have 4: "rest r4 = u32_to_le dl @ tail"
    unfolding r4_def rest_advance by (simp add: 3 assms(3))
  from r64.read_enc [OF 1, folded r2_def] r32.read_enc [OF 2, folded r3_def] 0 take
    r32.read_enc [OF 4, folded r5_def] assms(4-6)
  show ?thesis by (auto simp: decode_entry_def)
qed

section \<open>The tests\<close>

definition ascii_uppercase :: "bytes \<Rightarrow> bytes" where
  "ascii_uppercase = map (\<lambda>c. if 97 \<le> c \<and> c \<le> 122 then c - 32 else c)"

definition hex_roundtrip_and_rejection :: bool where
  "hex_roundtrip_and_rejection \<longleftrightarrow>
     (let key = map (\<lambda>i. of_nat (i * 7)) [0..<32];
          hex = key_to_hex key
      in length hex = 64 \<and> hex_to_key hex = Some key \<and> hex_to_key (take 63 hex) = None \<and>
         hex_to_key (ascii_uppercase hex) = None \<and>
         hex_to_key (concat (replicate 32 (ascii ''zz''))) = None)"

definition decode_empty_index :: bool where
  "decode_empty_index \<longleftrightarrow>
     (case decode_index (raw_encode VAULT_INDEX_VERSION 1 0 0 []) of
        Inl e \<Rightarrow> False
      | Inr decoded \<Rightarrow> idx_files decoded = [] \<and> idx_nonce_counter decoded = 1)"

definition decode_rejects_wrong_version :: bool where
  "decode_rejects_wrong_version \<longleftrightarrow>
     corrupted_with ''version'' (decode_index (raw_encode 3 0 0 0 []))"

definition decode_rejects_truncation_at_every_byte :: bool where
  "decode_rejects_truncation_at_every_byte \<longleftrightarrow>
     (let bs = raw_encode VAULT_INDEX_VERSION 0 1 1 [(replicate 32 1, entry 0 40 41)]
      in list_all (\<lambda>cut. case decode_index (take cut bs) of Inl e \<Rightarrow> is_corrupted e | Inr _ \<Rightarrow> False)
           [0..<length bs] \<and> \<not> isl (decode_index bs))"

definition decode_rejects_trailing_bytes :: bool where
  "decode_rejects_trailing_bytes \<longleftrightarrow>
     corrupted_with ''trailing'' (decode_index (raw_encode VAULT_INDEX_VERSION 0 0 0 [] @ [0]))"

definition decode_rejects_entry_count_over_cap_and_over_remaining_bytes :: bool where
  "decode_rejects_entry_count_over_cap_and_over_remaining_bytes \<longleftrightarrow>
     corrupted_with ''maximum''
       (decode_index (raw_encode VAULT_INDEX_VERSION 0 0 (of_nat (MAX_INDEX_ENTRIES + 1)) [])) \<and>
     corrupted_with ''declares'' (decode_index (raw_encode VAULT_INDEX_VERSION 0 0 2 []))"

definition decode_rejects_ciphertext_lengths_outside_bounds :: bool where
  "decode_rejects_ciphertext_lengths_outside_bounds \<longleftrightarrow>
     list_all (\<lambda>(name_len, data_len).
         case decode_index (raw_encode VAULT_INDEX_VERSION 0 1 1
           [(replicate 32 1, entry 0 name_len data_len)]) of
           Inl e \<Rightarrow> is_corrupted e | Inr _ \<Rightarrow> False)
       [(MIN_ENCRYPTED_LEN - 1, MIN_ENCRYPTED_LEN), (MAX_ENCRYPTED_NAME_LEN + 1, MIN_ENCRYPTED_LEN),
        (MIN_ENCRYPTED_LEN, MIN_ENCRYPTED_LEN - 1)] \<and>
     corrupted_with ''outside'' (decode_index
       (raw_encode VAULT_INDEX_VERSION 0 1 1 [] @ replicate 32 1 @ u64_to_le 0 @
        u32_to_le (of_nat MIN_ENCRYPTED_LEN) @ replicate MIN_ENCRYPTED_LEN 0 @
        u32_to_le (of_nat (MAX_ENCRYPTED_DATA_LEN + 1)) @ replicate MIN_ENCRYPTED_LEN 0))"

definition decode_accepts_lengths_at_bounds :: bool where
  "decode_accepts_lengths_at_bounds \<longleftrightarrow>
     \<not> isl (decode_index (raw_encode VAULT_INDEX_VERSION 0 1 1
       [(replicate 32 1, entry 0 MAX_ENCRYPTED_NAME_LEN MIN_ENCRYPTED_LEN)]))"

definition decode_rejects_duplicate_keys :: bool where
  "decode_rejects_duplicate_keys \<longleftrightarrow>
     corrupted_with ''Duplicate'' (decode_index (raw_encode VAULT_INDEX_VERSION 0 1 2
       [(replicate 32 1, entry 0 40 40), (replicate 32 1, entry 0 40 40)]))"

section \<open>They pass\<close>

lemma hex_test_passes: hex_roundtrip_and_rejection
proof -
  define key :: bytes where "key = map (\<lambda>i. of_nat (i * 7)) [0..<32]"
  have len: "length key = ENTRY_KEY_LEN" by (simp add: key_def ENTRY_KEY_LEN_def)
  have 1: "hex_to_key (key_to_hex key) = Some key" using len by (simp add: hex_to_key_Some_iff)
  then have hex: "length (key_to_hex key) = 64"
    by (auto simp: hex_to_key_def ENTRY_KEY_LEN_def split: if_splits)
  then have 2: "hex_to_key (take 63 (key_to_hex key)) = None"
    by (simp add: hex_to_key_def ENTRY_KEY_LEN_def)
  have "key ! 2 = 0x0E" "2 < length key" by (simp_all add: key_def)
  then have "0x0E \<in> set key" by (metis nth_mem)
  moreover have "101 \<in> set (key_to_hex bs)" if "0x0E \<in> set bs" for bs
    using that by (induction bs) (auto simp: fmt_02x_def lower_hex_digit_def)
  ultimately have "101 \<in> set (key_to_hex key)" by blast
  then have "69 \<in> set (ascii_uppercase (key_to_hex key))"
    by (force simp: ascii_uppercase_def image_iff)
  moreover have "\<not> (48 \<le> (69 :: byte) \<and> (69 :: byte) \<le> 57 \<or> 97 \<le> (69 :: byte) \<and> (69 :: byte) \<le> 102)"
    by simp
  ultimately have "\<not> is_hex_key (ascii_uppercase (key_to_hex key))"
    unfolding is_hex_key_def list_all_iff by blast
  then have 3: "hex_to_key (ascii_uppercase (key_to_hex key)) = None"
    by (simp add: hex_to_key_None_iff)
  have "122 \<in> set (concat (replicate 32 (ascii ''zz'')))" by (simp add: ascii_def)
  then have "\<not> is_hex_key (concat (replicate 32 (ascii ''zz'')))"
    unfolding is_hex_key_def list_all_iff by fastforce
  then have "hex_to_key (concat (replicate 32 (ascii ''zz''))) = None"
    by (simp add: hex_to_key_None_iff)
  with 1 2 3 hex show ?thesis
    unfolding hex_roundtrip_and_rejection_def Let_def key_def [symmetric] by simp
qed

lemma empty_index_test_passes: decode_empty_index
  using decode_raw_encode [of "[]" 1 0] by (simp add: decode_empty_index_def)

lemma preamble_tests_pass:
  "decode_rejects_wrong_version" "decode_rejects_trailing_bytes"
  "decode_rejects_entry_count_over_cap_and_over_remaining_bytes"
proof -
  have eq: "raw_encode v nc dc c [] @ body =
      u16_to_le v @ u64_to_le nc @ u64_to_le dc @ u32_to_le c @ body" for v nc dc c body
    by (simp add: raw_encode_def)
  have version: "str_contains (fmt ''Unsupported index version: {}'' [x]) ''version''" for x
    by (simp add: fmt.simps)
  have declares: "str_contains (fmt ''Index declares {} entries but holds {} bytes'' [x, y])
      ''declares''" for x y
    by (simp add: fmt.simps)
  show decode_rejects_wrong_version
    by (rule decode_index_split [of "[]" 3 0 0 0])
      (simp add: decode_rejects_wrong_version_def eq [of _ _ _ _ "[]", simplified] version const_defs)
  show decode_rejects_trailing_bytes
    by (rule decode_index_split [of "[0]" VAULT_INDEX_VERSION 0 0 0])
      (simp add: decode_rejects_trailing_bytes_def eq reader_remaining_rest str_contains_append const_defs fmt.simps)
  have over: "corrupted_with ''maximum''
      (decode_index (raw_encode VAULT_INDEX_VERSION 0 0 (of_nat (MAX_INDEX_ENTRIES + 1)) []))"
    by (rule decode_index_split [of "[]" VAULT_INDEX_VERSION 0 0 "of_nat (MAX_INDEX_ENTRIES + 1)"])
      (simp add: eq [of _ _ _ _ "[]", simplified] str_contains_append const_defs
          fmt.simps)
  have hollow: "corrupted_with ''declares''
      (decode_index (raw_encode VAULT_INDEX_VERSION 0 0 2 []))"
    by (rule decode_index_split [of "[]" VAULT_INDEX_VERSION 0 0 2])
      (simp add: eq [of _ _ _ _ "[]", simplified] declares const_defs)
  from over hollow show decode_rejects_entry_count_over_cap_and_over_remaining_bytes
    by (simp add: decode_rejects_entry_count_over_cap_and_over_remaining_bytes_def)
qed

lemma accepting_tests_pass: decode_accepts_lengths_at_bounds
  using decode_raw_encode [of "[(replicate 32 1, entry 0 MAX_ENCRYPTED_NAME_LEN MIN_ENCRYPTED_LEN)]"
      0 1]
  by (simp add: decode_accepts_lengths_at_bounds_def entry_sizes_ok const_defs)

lemma truncation_test_passes: decode_rejects_truncation_at_every_byte
proof -
  define bs where "bs = raw_encode VAULT_INDEX_VERSION 0 1 1 [(replicate 32 1, entry 0 40 41)]"
  obtain d where d: "decode_index bs = Inr d"
    using decode_raw_encode [of "[(replicate 32 1, entry 0 40 41)]" 0 1]
    by (simp add: bs_def entry_sizes_ok const_defs)
  have "case decode_index (take cut bs) of Inl e \<Rightarrow> is_corrupted e | Inr _ \<Rightarrow> False"
    if "cut < length bs" for cut
  proof (cases "decode_index (take cut bs)")
    case (Inl e)
    then show ?thesis by (simp add: decode_index_err)
  next
    case (Inr d')
    with decode_index_prefix_free [OF Inr, of "drop cut bs"] d that show ?thesis by simp
  qed
  with d show ?thesis
    unfolding decode_rejects_truncation_at_every_byte_def bs_def [symmetric] Let_def
    by (simp add: list_all_iff)
qed

text \<open>A single raw entry with sizes out of bounds makes the decoder fail.\<close>

lemma single_entry_rejected:
  assumes "length key = ENTRY_KEY_LEN" "n < 2 ^ 32" "d < 2 ^ 32" "\<not> sizes_ok (entry c n d)"
  shows "\<exists>e. decode_index (raw_encode VAULT_INDEX_VERSION nc dc 1 [(key, entry c n d)]) = Inl e \<and>
    is_corrupted e"
proof -
  let ?nl = "of_nat n :: u32" and ?dl = "of_nat d :: u32"
  let ?body = "raw_entries [(key, entry c n d)]"
  have u: "unat ?nl = n" "unat ?dl = d" using assms(2,3) by (simp_all add: unat_u32_of_nat)
  have body: "?body = key @ u64_to_le c @ u32_to_le ?nl @ replicate n 0xAA @ u32_to_le ?dl @
      replicate d 0xBB @ []" by (simp add: entry_def)
  obtain r where r: "rest r = ?body"
    and dec: "decode_index (u16_to_le VAULT_INDEX_VERSION @ u64_to_le nc @ u64_to_le dc @
      u32_to_le 1 @ ?body) = (if length ?body < MIN_ENTRY_LEN then Inl (CorruptedData
         (fmt ''Index declares {} entries but holds {} bytes'' [dec (Suc 0), dec (length ?body)]))
       else and_then (decode_entries 1 r []) (\<lambda>(fs, r').
         if reader_remaining r' \<noteq> 0
         then Inl (CorruptedData (fmt ''{} trailing bytes after the last index entry''
           [dec (reader_remaining r')]))
         else Inr \<lparr>idx_nonce_counter = nc, idx_data_nonce_counter = dc, idx_files = fs\<rparr>))"
    by (rule decode_index_split [of ?body VAULT_INDEX_VERSION nc dc 1])
      (simp add: MAX_INDEX_ENTRIES_def)
  note rest = r [unfolded body]
  have "\<exists>e. decode_entry r = Inl e"
  proof (cases "MIN_ENCRYPTED_LEN \<le> n \<and> n \<le> MAX_ENCRYPTED_NAME_LEN")
    case True
    with assms(4) have "\<not> (MIN_ENCRYPTED_LEN \<le> d \<and> d \<le> MAX_ENCRYPTED_DATA_LEN)"
      by (simp add: entry_sizes_ok)
    with True decode_entry_bad_data [OF rest assms(1)] show ?thesis by (simp add: u)
  next
    case False
    with decode_entry_bad_sizes [OF rest assms(1)] show ?thesis by (simp add: u)
  qed
  then have "\<exists>e. decode_index (u16_to_le VAULT_INDEX_VERSION @ u64_to_le nc @ u64_to_le dc @
      u32_to_le 1 @ ?body) = Inl e" unfolding dec by auto
  then show ?thesis unfolding raw_encode_def by (auto dest: decode_index_err)
qed

lemma bounds_test_passes: decode_rejects_ciphertext_lengths_outside_bounds
proof -
  have one: "case decode_index (raw_encode VAULT_INDEX_VERSION 0 1 1
      [(replicate 32 1, entry 0 n d)]) of Inl e \<Rightarrow> is_corrupted e | Inr _ \<Rightarrow> False"
    if "n < 2 ^ 32" "d < 2 ^ 32" "\<not> sizes_ok (entry 0 n d)" for n d
    using single_entry_rejected [of "replicate 32 1" n d 0 0 1] that
    by (auto simp: ENTRY_KEY_LEN_def)
  let ?tail = "replicate 32 1 @ u64_to_le 0 @ u32_to_le (of_nat MIN_ENCRYPTED_LEN) @
    replicate MIN_ENCRYPTED_LEN 0 @ u32_to_le (of_nat (MAX_ENCRYPTED_DATA_LEN + 1)) @
    replicate MIN_ENCRYPTED_LEN 0"
  obtain r where r: "rest r = ?tail"
    and dec: "decode_index (u16_to_le VAULT_INDEX_VERSION @ u64_to_le 0 @ u64_to_le 1 @
      u32_to_le 1 @ ?tail) = and_then (decode_entries 1 r []) (\<lambda>(fs, r').
         if reader_remaining r' \<noteq> 0
         then Inl (CorruptedData (fmt ''{} trailing bytes after the last index entry''
           [dec (reader_remaining r')]))
         else Inr \<lparr>idx_nonce_counter = 0, idx_data_nonce_counter = 1, idx_files = fs\<rparr>)"
    by (rule decode_index_split [of ?tail VAULT_INDEX_VERSION 0 1 1])
      (simp add: const_defs)
  have "decode_entry r = Inl (data_len_error (MAX_ENCRYPTED_DATA_LEN + 1))"
    using decode_entry_bad_data [OF r] by (simp add: const_defs)
  then have "decode_index (u16_to_le VAULT_INDEX_VERSION @ u64_to_le 0 @ u64_to_le 1 @
      u32_to_le 1 @ ?tail) = Inl (data_len_error (MAX_ENCRYPTED_DATA_LEN + 1))"
    unfolding dec by simp
  then have "corrupted_with ''outside'' (decode_index
      (raw_encode VAULT_INDEX_VERSION 0 1 1 [] @ ?tail))"
    by (simp add: raw_encode_def data_len_error_def fmt.simps str_contains_append)
  moreover have "\<not> sizes_ok (entry 0 (MIN_ENCRYPTED_LEN - 1) MIN_ENCRYPTED_LEN)"
    "\<not> sizes_ok (entry 0 (MAX_ENCRYPTED_NAME_LEN + 1) MIN_ENCRYPTED_LEN)"
    "\<not> sizes_ok (entry 0 MIN_ENCRYPTED_LEN (MIN_ENCRYPTED_LEN - 1))"
    by (simp_all add: entry_sizes_ok const_defs)
  moreover have "MIN_ENCRYPTED_LEN < 2 ^ 32" "MAX_ENCRYPTED_NAME_LEN + 1 < 2 ^ 32"
    "MIN_ENCRYPTED_LEN - 1 < 2 ^ 32"
    by (simp_all add: const_defs)
  ultimately show ?thesis
    unfolding decode_rejects_ciphertext_lengths_outside_bounds_def
    using one by (simp only: list.pred_inject prod.case simp_thms)
qed

lemma duplicate_test_passes: decode_rejects_duplicate_keys
proof -
  let ?key = "replicate 32 1 :: bytes" and ?e = "entry 0 40 40"
  let ?body = "entry_layout ?key ?e @ entry_layout ?key ?e"
  have key: "length ?key = ENTRY_KEY_LEN" by (simp add: ENTRY_KEY_LEN_def)
  have e: "sizes_ok ?e" by (simp add: entry_sizes_ok const_defs)
  have raw: "raw_entries [(?key, ?e), (?key, ?e)] = ?body" by (simp add: entry_layout_def)
  have len: "length (entry_layout ?key ?e) = 128"
    by (simp add: length_entry_layout [OF key]) (simp add: entry_def const_defs)
  obtain r where r: "rest r = ?body"
    and dec: "decode_index (u16_to_le VAULT_INDEX_VERSION @ u64_to_le 0 @ u64_to_le 1 @
      u32_to_le 2 @ ?body) = and_then (decode_entries 2 r []) (\<lambda>(fs, r').
         if reader_remaining r' \<noteq> 0
         then Inl (CorruptedData (fmt ''{} trailing bytes after the last index entry''
           [dec (reader_remaining r')]))
         else Inr \<lparr>idx_nonce_counter = 0, idx_data_nonce_counter = 1, idx_files = fs\<rparr>)"
    by (rule decode_index_split [of ?body VAULT_INDEX_VERSION 0 1 2])
      (simp add: len const_defs)
  obtain r1 where 1: "decode_entry r = Inr ((key_to_hex ?key, ?e), r1)"
    "rest r1 = entry_layout ?key ?e @ []"
    by (rule decode_entry_ok [OF r key e]) simp
  obtain r2 where 2: "decode_entry r1 = Inr ((key_to_hex ?key, ?e), r2)"
    by (rule decode_entry_ok [OF 1(2) key e])
  have "decode_entries 2 r [] = Inl (CorruptedData ''Duplicate entry key in index'')"
    using 1(1) 2 by (simp add: hm_insert_def numeral_2_eq_2)
  then have "decode_index (raw_encode VAULT_INDEX_VERSION 0 1 2 [(?key, ?e), (?key, ?e)]) =
      Inl (CorruptedData ''Duplicate entry key in index'')"
    unfolding raw_encode_def raw dec by simp
  then show ?thesis by (simp add: decode_rejects_duplicate_keys_def)
qed

lemmas codec_tests_pass = hex_test_passes empty_index_test_passes preamble_tests_pass
  truncation_test_passes bounds_test_passes accepting_tests_pass duplicate_test_passes

end
