(* ===== verification/UnitTests.thy ===== *)
theory UnitTests
  imports Liveness CodecTests
begin

text \<open>
  The unit tests of the components below the facade: \<open>crypto/utils.rs\<close>, \<open>crypto/aad_aead.rs\<close>,
  \<open>mem/locked_secret.rs\<close>, \<open>vault/vault_header.rs\<close> and \<open>vault/vault_index.rs\<close>. A test is a
  function of the environment, \<open>False\<close> where an assertion fails or an \<open>unwrap\<close> panics; it passes
  in every working environment and not just in the one it is run in. The tests that
  assert that random bytes, or keys or tags derived from different inputs, differ are in
  \<open>FreshTests\<close>, those on threads and memory pages in \<open>DocTests\<close> and \<open>SmapsTests\<close>.
\<close>

section \<open>Panicking\<close>

text \<open>\<open>r.unwrap()\<close>, with what the test does with the value.\<close>

definition unwrap :: "'e + 'a \<Rightarrow> ('a \<Rightarrow> bool) \<Rightarrow> bool" where
  "unwrap r k = (case r of Inl e \<Rightarrow> False | Inr x \<Rightarrow> k x)"

text \<open>The same for a call that returns its result with a state.\<close>

definition unwrap_with :: "('e + 'a) \<times> 's \<Rightarrow> ('a \<Rightarrow> 's \<Rightarrow> bool) \<Rightarrow> bool" where
  "unwrap_with r k = (case r of (Inl e, s) \<Rightarrow> False | (Inr x, s) \<Rightarrow> k x s)"

lemma unwrap_simps [simp]:
  "unwrap (Inr x) k = k x"
  "unwrap (Inl e) k = False"
  "unwrap_with (Inr x, s) k' = k' x s"
  "unwrap_with (Inl e, s) k' = False"
  by (simp_all add: unwrap_def unwrap_with_def)

definition is_err :: "'e + 'a \<Rightarrow> bool" where
  "is_err r \<longleftrightarrow> isl r"

section \<open>Random bytes and the cipher\<close>

definition secure_bytes_fill_returns_error_for_empty_buffer :: "'w externals \<Rightarrow> 'w sys \<Rightarrow> bool" where
  "secure_bytes_fill_returns_error_for_empty_buffer X s \<longleftrightarrow>
     (case secure_bytes_fill X 0 s of (result, s') \<Rightarrow> is_err result)"

definition seal_and_open_roundtrip :: "'w externals \<Rightarrow> 'w sys \<Rightarrow> bool" where
  "seal_and_open_roundtrip X s \<longleftrightarrow>
     unwrap_with (secure_bytes_fill X 32 s) (\<lambda>key s1.
     unwrap_with (secure_bytes_fill X 24 s1) (\<lambda>n s2.
     let plaintext = ascii ''hello vault''; aad = ascii ''header bytes here'' in
     unwrap (seal_with_aad X key n plaintext aad) (\<lambda>ct.
     unwrap (open_with_aad X key n ct aad) (\<lambda>pt. pt = plaintext))))"

definition empty_plaintext_works :: "'w externals \<Rightarrow> 'w sys \<Rightarrow> bool" where
  "empty_plaintext_works X s \<longleftrightarrow>
     unwrap_with (secure_bytes_fill X 32 s) (\<lambda>key s1.
     unwrap_with (secure_bytes_fill X 24 s1) (\<lambda>n s2.
     unwrap (seal_with_aad X key n [] (ascii ''header'')) (\<lambda>ct.
     unwrap (open_with_aad X key n ct (ascii ''header'')) (\<lambda>pt. pt = []))))"

definition ciphertext_too_short_fails :: "'w externals \<Rightarrow> bool" where
  "ciphertext_too_short_fails X \<longleftrightarrow>
     open_with_aad X (replicate 32 0) (replicate 24 0) (replicate 15 0) (ascii ''aad'') =
       Inl CiphertextTooShort"

lemma seal_open_works:
  assumes "env_works X" "length p < 2 ^ 32"
  shows "unwrap_with (secure_bytes_fill X 32 s) (\<lambda>key s1.
     unwrap_with (secure_bytes_fill X 24 s1) (\<lambda>n s2.
     unwrap (seal_with_aad X key n p aad) (\<lambda>ct.
     unwrap (open_with_aad X key n ct aad) (\<lambda>pt. pt = p))))"
proof -
  obtain key w where key: "secure_bytes_fill X 32 s = (Inr key, s\<lparr>ext := w\<rparr>)" "length key = 32"
    by (rule fill_works [OF assms(1), of 32]) simp
  obtain n w' where n: "secure_bytes_fill X 24 (s\<lparr>ext := w\<rparr>) = (Inr n, s\<lparr>ext := w'\<rparr>)"
    "length n = XCHACHA20_NONCE_LEN"
    by (rule fill_works [OF assms(1), of 24 "s\<lparr>ext := w\<rparr>"]) (simp_all add: XCHACHA20_NONCE_LEN_def)
  obtain ct where ct: "seal_with_aad X key n p aad = Inr ct"
    by (rule seal_works [OF assms(1) key(2) n(2) assms(2)])
  with open_seal_with_aad [OF env_worksD(7) [OF assms(1)] key(2) n(2) ct] key n show ?thesis by simp
qed

lemma crypto_tests_pass:
  "secure_bytes_fill_returns_error_for_empty_buffer X s"
  "env_works X \<Longrightarrow> seal_and_open_roundtrip X s"
  "env_works X \<Longrightarrow> empty_plaintext_works X s"
  "ciphertext_too_short_fails X"
  using seal_open_works [of X "ascii ''hello vault''" s] seal_open_works [of X "[]" s]
  by (simp_all add: secure_bytes_fill_returns_error_for_empty_buffer_def is_err_def
      secure_bytes_fill_def seal_and_open_roundtrip_def empty_plaintext_works_def
      ciphertext_too_short_fails_def open_with_aad_too_short POLY1305_OUTSIZE_def Let_def)

section \<open>Locked secrets\<close>

definition locked_secret_roundtrip :: "'w externals \<Rightarrow> 'w sys \<Rightarrow> bool" where
  "locked_secret_roundtrip X s \<longleftrightarrow>
     (let data = ascii ''This is a very important secret!'' in
      unwrap_with (locked_secret_new X data s) (\<lambda>secret s1. with_bytes s1 secret (\<lambda>b. b = data)))"

definition with_bytes_returns_closure_value :: "'w externals \<Rightarrow> 'w sys \<Rightarrow> bool" where
  "with_bytes_returns_closure_value X s \<longleftrightarrow>
     unwrap_with (locked_secret_new X (replicate 32 7) s) (\<lambda>secret s1.
       with_bytes s1 secret (\<lambda>b. sum_list (map ucast b) = (7 * 32 :: u32)))"

definition empty_secret_is_rejected :: "'w externals \<Rightarrow> 'w sys \<Rightarrow> bool" where
  "empty_secret_is_rejected X s \<longleftrightarrow>
     (case locked_secret_new X [] s of (result, s1) \<Rightarrow> result = Inl Empty)"

definition debug_output_is_redacted :: "'w externals \<Rightarrow> 'w sys \<Rightarrow> bool" where
  "debug_output_is_redacted X s \<longleftrightarrow>
     unwrap_with (locked_secret_new X (ascii ''top secret'') s) (\<lambda>secret s1.
       let rendered = locked_secret_debug s1 secret in
       str_contains rendered ''REDACTED'' \<and> \<not> str_contains rendered ''top secret'')"

lemma locked_works:
  assumes "env_works X" "finite (dom (heap s))" "b \<noteq> []"
  obtains ls s' where "locked_secret_new X b s = (Inr ls, s')" "secret_bytes s' ls = Some b"
proof -
  obtain ls s' where l: "locked_secret_new X b s = (Inr ls, s')"
    by (rule locked_secret_works [OF assms(1,3,2)])
  have "secret_bytes s' ls = Some b"
    by (simp add: secret_bytes_def locked_secret_new_ok(3) [OF env_worksD(6) [OF assms(1)] l])
  with l show thesis by (rule that)
qed

lemma locked_secret_tests_pass:
  assumes "env_works X" "finite (dom (heap s))"
  shows "locked_secret_roundtrip X s" "with_bytes_returns_closure_value X s"
    "empty_secret_is_rejected X s" "debug_output_is_redacted X s"
proof -
  obtain ls1 s1 where "locked_secret_new X (ascii ''This is a very important secret!'') s = (Inr ls1, s1)"
    "secret_bytes s1 ls1 = Some (ascii ''This is a very important secret!'')"
    by (rule locked_works [OF assms, of "ascii ''This is a very important secret!''"])
      (simp_all add: ascii_def)
  then show "locked_secret_roundtrip X s" by (simp add: locked_secret_roundtrip_def)
  obtain ls2 s2 where "locked_secret_new X (replicate 32 7) s = (Inr ls2, s2)"
    "secret_bytes s2 ls2 = Some (replicate 32 7)"
    by (rule locked_works [OF assms, of "replicate 32 7"]) simp_all
  then show "with_bytes_returns_closure_value X s"
    by (simp add: with_bytes_returns_closure_value_def sum_list_replicate)
  show "empty_secret_is_rejected X s"
    by (simp add: empty_secret_is_rejected_def locked_secret_new_def)
  obtain ls3 s3 where "locked_secret_new X (ascii ''top secret'') s = (Inr ls3, s3)"
    by (rule locked_works [OF assms, of "ascii ''top secret''"]) (simp_all add: ascii_def)
  then show "debug_output_is_redacted X s"
    by (simp add: debug_output_is_redacted_def locked_secret_debug_def Let_def)
qed

section \<open>The header\<close>

definition creates_vault_header_with_correct_parameters :: bool where
  "creates_vault_header_with_correct_parameters \<longleftrightarrow>
     (let salt = replicate SALT_LEN 1;
          h = vault_header_new salt ITERATIONS MEMORY_COST (of_nat KEY_LEN)
      in version h = VAULT_VERSION \<and> kdf_salt h = salt \<and> kdf_iterations h = ITERATIONS \<and>
         kdf_memory_cost h = MEMORY_COST \<and> key_length h = of_nat KEY_LEN)"

definition different_headers_produce_different_aad :: "'w externals \<Rightarrow> bool" where
  "different_headers_produce_different_aad X \<longleftrightarrow>
     (let h1 = vault_header_new (replicate SALT_LEN 1) ITERATIONS MEMORY_COST (of_nat KEY_LEN);
          h2 = vault_header_new (replicate SALT_LEN 2) ITERATIONS MEMORY_COST (of_nat KEY_LEN)
      in unwrap (to_aad_bytes X h1) (\<lambda>a1. unwrap (to_aad_bytes X h2) (\<lambda>a2. a1 \<noteq> a2)))"

lemma header_tests_pass:
  assumes "json_laws X"
  shows "creates_vault_header_with_correct_parameters" "different_headers_produce_different_aad X"
proof -
  show "creates_vault_header_with_correct_parameters"
    by (simp add: creates_vault_header_with_correct_parameters_def vault_header_new_def)
  let ?h = "\<lambda>b. vault_header_new (replicate SALT_LEN b) ITERATIONS MEMORY_COST (of_nat KEY_LEN)"
  have salt: "length (kdf_salt (?h b)) = SALT_LEN" for b by (simp add: vault_header_new_def)
  obtain a1 where a1: "to_aad_bytes X (?h 1) = Inr a1" "header_from_json X a1 = Inr (?h 1)"
    by (rule to_aad_bytes_ok [OF assms salt])
  obtain a2 where a2: "to_aad_bytes X (?h 2) = Inr a2" "header_from_json X a2 = Inr (?h 2)"
    by (rule to_aad_bytes_ok [OF assms salt])
  have "?h 1 \<noteq> ?h 2"
    by (simp add: vault_header_new_def SALT_LEN_def numeral_eq_Suc)
  with a1 a2 have "a1 \<noteq> a2" by auto
  with a1(1) a2(1) show "different_headers_produce_different_aad X"
    by (simp add: different_headers_produce_different_aad_def)
qed

section \<open>The index\<close>

text \<open>Helpers of the tests.\<close>

definition vault_index_generate :: "'w externals \<Rightarrow> 'w sys \<Rightarrow> (index_error + vault_index) \<times> 'w sys" where
  "vault_index_generate X s =
     (case secure_bytes_fill X 32 s of
        (Inl e, s1) \<Rightarrow> (Inl (Random e), s1)
      | (Inr master, s1) \<Rightarrow> from_master_key X master [] s1)"

definition insert_named ::
  "'w externals \<Rightarrow> 'w sys \<Rightarrow> vault_index \<Rightarrow> bytes \<Rightarrow> index_entry \<Rightarrow>
    (index_error + unit) \<times> vault_index" where
  "insert_named X s idx name e =
     (case hmac_key_for_name X s idx name of
        Inl err \<Rightarrow> (Inl err, idx)
      | Inr key \<Rightarrow> insert_by_key idx key e)"

text \<open>\<open>hmac_key_for_name(name).unwrap()\<close>: an error is a panic.\<close>

definition lookup_named ::
  "'w externals \<Rightarrow> 'w sys \<Rightarrow> vault_index \<Rightarrow> bytes \<Rightarrow> index_error + index_entry option" where
  "lookup_named X s idx name =
     and_then (hmac_key_for_name X s idx name) (\<lambda>key. Inr (lookup_by_key idx key))"

text \<open>It unwraps \<open>derive_subkeys\<close>: \<open>None\<close> is the panic.\<close>

definition index_from_master ::
  "'w externals \<Rightarrow> bytes \<Rightarrow> bytes \<Rightarrow> u64 \<Rightarrow> (bytes \<times> index_entry) list \<Rightarrow> 'w sys \<Rightarrow>
    ((index_error + vault_index) \<times> 'w sys) option" where
  "index_from_master X master salt dcounter fs s =
     (case derive_subkeys X master salt of
        Inl e \<Rightarrow> None
      | Inr (enc_sub, hmac_sub) \<Rightarrow>
          Some (from_subkeys_and_data X enc_sub hmac_sub
            (replicate XCHACHA20_NONCE_LEN 0) 0 dcounter fs s))"

definition entry_with_counter :: "u64 \<Rightarrow> index_entry" where
  "entry_with_counter counter =
     \<lparr>data_counter = counter, encrypted_name = replicate 40 1, encrypted_data = replicate 40 2\<rparr>"

definition from_master_key_starts_with_counters_at_zero :: "'w externals \<Rightarrow> 'w sys \<Rightarrow> bool" where
  "from_master_key_starts_with_counters_at_zero X s \<longleftrightarrow>
     unwrap_with (vault_index_generate X s) (\<lambda>idx s1.
       nonce_counter idx = 0 \<and> data_nonce_counter idx = 0 \<and> files idx = [])"

definition insert_and_lookup_roundtrip :: "'w externals \<Rightarrow> 'w sys \<Rightarrow> bool" where
  "insert_and_lookup_roundtrip X s \<longleftrightarrow>
     unwrap_with (vault_index_generate X s) (\<lambda>idx s1.
     let e = entry_with_counter 0 in
     unwrap_with (insert_named X s1 idx (ascii ''secret.txt'') e) (\<lambda>u idx1.
     unwrap (lookup_named X s1 idx1 (ascii ''secret.txt'')) (\<lambda>found. found = Some e)))"

definition lookup_missing_returns_none :: "'w externals \<Rightarrow> 'w sys \<Rightarrow> bool" where
  "lookup_missing_returns_none X s \<longleftrightarrow>
     unwrap_with (vault_index_generate X s) (\<lambda>idx s1.
     unwrap (lookup_named X s1 idx (ascii ''nonexistent.txt'')) (\<lambda>found. found = None))"

definition map_keys_are_hex_hmacs_not_plaintext :: "'w externals \<Rightarrow> 'w sys \<Rightarrow> bool" where
  "map_keys_are_hex_hmacs_not_plaintext X s \<longleftrightarrow>
     unwrap_with (vault_index_generate X s) (\<lambda>idx s1.
     unwrap_with (insert_named X s1 idx (ascii ''secret.txt'') (entry_with_counter 0)) (\<lambda>u idx1.
     list_all (\<lambda>(key, e). key \<noteq> ascii ''secret.txt'' \<and> length key = 64 \<and>
         list_all (\<lambda>b. 48 \<le> b \<and> b \<le> 57 \<or> 65 \<le> b \<and> b \<le> 70 \<or> 97 \<le> b \<and> b \<le> 102) key)
       (files idx1)))"

definition hmac_is_deterministic :: "'w externals \<Rightarrow> 'w sys \<Rightarrow> bool" where
  "hmac_is_deterministic X s \<longleftrightarrow>
     unwrap_with (vault_index_generate X s) (\<lambda>idx s1.
     unwrap (hmac_key_for_name X s1 idx (ascii ''test.txt'')) (\<lambda>h1.
     unwrap (hmac_key_for_name X s1 idx (ascii ''test.txt'')) (\<lambda>h2. h1 = h2)))"

definition remove_by_key_works :: "'w externals \<Rightarrow> 'w sys \<Rightarrow> bool" where
  "remove_by_key_works X s \<longleftrightarrow>
     unwrap_with (vault_index_generate X s) (\<lambda>idx s1.
     let e = entry_with_counter 0; name = ascii ''to_remove.txt'' in
     unwrap_with (insert_named X s1 idx name e) (\<lambda>u idx1.
     unwrap (hmac_key_for_name X s1 idx1 name) (\<lambda>key.
     case remove_by_key idx1 key of (r1, idx2) \<Rightarrow>
       r1 = Some e \<and> unwrap (lookup_named X s1 idx2 name) (\<lambda>found. found = None) \<and>
       fst (remove_by_key idx2 key) = None)))"

definition advance_nonce_overflow :: "'w externals \<Rightarrow> 'w sys \<Rightarrow> bool" where
  "advance_nonce_overflow X s \<longleftrightarrow>
     unwrap_with (vault_index_generate X s) (\<lambda>idx s1.
     case advance_nonce X (idx\<lparr>nonce_counter := 2 ^ 64 - 1\<rparr>) s1 of
       (Inl (CounterOverflow m), idx1, s2) \<Rightarrow> True | _ \<Rightarrow> False)"

definition data_nonce_counter_overflow :: "'w externals \<Rightarrow> 'w sys \<Rightarrow> bool" where
  "data_nonce_counter_overflow X s \<longleftrightarrow>
     unwrap_with (vault_index_generate X s) (\<lambda>idx s1.
     case next_data_nonce_counter (idx\<lparr>data_nonce_counter := 2 ^ 64 - 1\<rparr>) of
       (Inl (CounterOverflow m), idx1) \<Rightarrow> True | _ \<Rightarrow> False)"

text \<open>From the tests of the codec; it needs an index.\<close>

definition encode_is_compact :: "'w externals \<Rightarrow> 'w sys \<Rightarrow> bool" where
  "encode_is_compact X s \<longleftrightarrow>
     unwrap_with (vault_index_generate X s) (\<lambda>idx s1.
     unwrap (hmac_key_for_name X s1 idx (ascii ''a'')) (\<lambda>k.
     unwrap_with (insert_by_key idx k (entry 0 40 10000)) (\<lambda>u idx1.
     unwrap (encode_index idx1) (\<lambda>bs.
       length bs = INDEX_PREAMBLE_LEN + ENTRY_FIXED_LEN + 40 + 10000))))"

definition entry_zeroize_clears_ciphertext_fields :: bool where
  "entry_zeroize_clears_ciphertext_fields \<longleftrightarrow>
     (let e = entry_zeroize (entry_with_counter 3)
      in encrypted_data e = [] \<and> encrypted_name e = [] \<and> data_counter e = 0)"

definition from_subkeys_and_data_rejects_counter_not_ahead_of_entries ::
  "'w externals \<Rightarrow> 'w sys \<Rightarrow> bool" where
  "from_subkeys_and_data_rejects_counter_not_ahead_of_entries X s \<longleftrightarrow>
     (let master = replicate 32 0x11; salt = replicate 16 0x22;
          fs = snd (hm_insert (ascii ''a'') (entry_with_counter 5) [])
      in (case index_from_master X master salt 5 fs s of
            Some (Inl (Inconsistent m), s1) \<Rightarrow>
              (case index_from_master X master salt 3 fs s1 of
                 Some (Inl (Inconsistent m), s2) \<Rightarrow> True | _ \<Rightarrow> False)
          | _ \<Rightarrow> False))"

definition from_subkeys_and_data_accepts_counter_ahead_of_entries ::
  "'w externals \<Rightarrow> 'w sys \<Rightarrow> bool" where
  "from_subkeys_and_data_accepts_counter_ahead_of_entries X s \<longleftrightarrow>
     (let fs = snd (hm_insert (ascii ''a'') (entry_with_counter 5) [])
      in case index_from_master X (replicate 32 0x11) (replicate 16 0x22) 6 fs s of
           Some (r, s1) \<Rightarrow> \<not> is_err r | None \<Rightarrow> False)"

definition from_subkeys_and_data_accepts_empty_files_with_zero_counter ::
  "'w externals \<Rightarrow> 'w sys \<Rightarrow> bool" where
  "from_subkeys_and_data_accepts_empty_files_with_zero_counter X s \<longleftrightarrow>
     (case index_from_master X (replicate 32 0x11) (replicate 16 0x22) 0 [] s of
        Some (r, s1) \<Rightarrow> \<not> is_err r | None \<Rightarrow> False)"

lemma generate_works:
  assumes "env_works X" "mem_ok s" "finite (dom (heap s))"
  obtains idx s' ek hk where "vault_index_generate X s = (Inr idx, s')"
    "keys_live s' idx ek hk" "files idx = []" "nonce_counter idx = 0" "data_nonce_counter idx = 0"
proof -
  obtain m w where m: "secure_bytes_fill X 32 s = (Inr m, s\<lparr>ext := w\<rparr>)"
    by (rule fill_works [OF assms(1), of 32]) simp
  obtain idx s' where idx: "from_master_key X m [] (s\<lparr>ext := w\<rparr>) = (Inr idx, s')"
    by (rule from_master_key_works [OF assms(1), of "s\<lparr>ext := w\<rparr>"]) (simp_all add: assms(3))
  have "mem_ok (s\<lparr>ext := w\<rparr>)" using assms(2) by simp
  then obtain ek hk where "adds_keys (s\<lparr>ext := w\<rparr>) idx ek hk s'" "files idx = []"
    "nonce_counter idx = 0" "data_nonce_counter idx = 0"
    by (rule from_master_key_ok [OF env_worksD(1) [OF assms(1)] _ idx])
  with m idx show thesis
    by (intro that [of idx s' ek hk]) (simp_all add: vault_index_generate_def adds_keys_def)
qed

text \<open>Inserting under a name into an empty index.\<close>

lemma insert_named_works:
  assumes "env_works X" "keys_live s idx ek hk" "files idx = []"
  obtains k where "name_key X hk name = Inr k" "is_hex_key k"
    "insert_named X s idx name e = (Inr (), idx\<lparr>files := [(k, e)]\<rparr>)"
proof -
  have "length hk = SUBKEY_LEN" using assms(2) by (simp add: keys_live_def)
  then obtain k where k: "name_key X hk name = Inr k" "is_hex_key k"
    by (rule name_key_works [OF assms(1)])
  with assms(3) show thesis
    by (intro that [of k]) (simp_all add: insert_named_def keys_live_hmac [OF assms(2)]
        insert_by_key_def hm_insert_def MAX_INDEX_ENTRIES_def)
qed

lemma lookup_named_eq:
  assumes "keys_live s idx ek hk" "enc_key idx' = enc_key idx" "hmac_key idx' = hmac_key idx"
    and "name_key X hk name = Inr k"
  shows "hmac_key_for_name X s idx' name = Inr k"
    "lookup_named X s idx' name = Inr (map_of (files idx') k)"
proof -
  have "keys_live s idx' ek hk" using assms(1-3) by (simp add: keys_live_def)
  from keys_live_hmac [OF this] assms(4)
  show "hmac_key_for_name X s idx' name = Inr k"
    "lookup_named X s idx' name = Inr (map_of (files idx') k)"
    by (simp_all add: lookup_named_def lookup_by_key_def)
qed

lemma index_tests_pass:
  assumes "env_works X" "mem_ok s" "finite (dom (heap s))"
  shows "from_master_key_starts_with_counters_at_zero X s" "insert_and_lookup_roundtrip X s"
    "lookup_missing_returns_none X s" "map_keys_are_hex_hmacs_not_plaintext X s"
    "hmac_is_deterministic X s" "remove_by_key_works X s" "advance_nonce_overflow X s"
    "data_nonce_counter_overflow X s" "encode_is_compact X s"
proof -
  obtain idx s1 ek hk where g: "vault_index_generate X s = (Inr idx, s1)"
    and live: "keys_live s1 idx ek hk" and zero: "files idx = []" "nonce_counter idx = 0"
      "data_nonce_counter idx = 0"
    by (rule generate_works [OF assms])
  note ins = insert_named_works [OF assms(1) live zero(1)]
  have hk: "length hk = SUBKEY_LEN" using live by (simp add: keys_live_def)
  note lookup = lookup_named_eq [OF live]
  show "from_master_key_starts_with_counters_at_zero X s"
    by (simp add: from_master_key_starts_with_counters_at_zero_def g zero)
  show "insert_and_lookup_roundtrip X s"
    by (rule ins [of "ascii ''secret.txt''" "entry_with_counter 0"])
      (simp add: insert_and_lookup_roundtrip_def g Let_def lookup)
  show "lookup_missing_returns_none X s"
    by (rule name_key_works [OF assms(1) hk, of "ascii ''nonexistent.txt''"])
      (simp add: lookup_missing_returns_none_def g lookup zero)
  show "map_keys_are_hex_hmacs_not_plaintext X s"
    by (rule ins [of "ascii ''secret.txt''" "entry_with_counter 0"])
      (auto simp: map_keys_are_hex_hmacs_not_plaintext_def g is_hex_key_def list_all_iff)
  show "hmac_is_deterministic X s"
    by (rule name_key_works [OF assms(1) hk, of "ascii ''test.txt''"])
      (simp add: hmac_is_deterministic_def g lookup)
  show "remove_by_key_works X s"
    by (rule ins [of "ascii ''to_remove.txt''" "entry_with_counter 0"])
      (simp add: remove_by_key_works_def g Let_def lookup remove_by_key_def)
  show "advance_nonce_overflow X s"
    by (simp add: advance_nonce_overflow_def g advance_nonce_def u64_checked_add_def)
  show "data_nonce_counter_overflow X s"
    by (simp add: data_nonce_counter_overflow_def g next_data_nonce_counter_def
        u64_checked_add_def)
  obtain k where k: "name_key X hk (ascii ''a'') = Inr k" "is_hex_key k"
    "insert_named X s1 idx (ascii ''a'') (entry 0 40 10000) =
       (Inr (), idx\<lparr>files := [(k, entry 0 40 10000)]\<rparr>)" by (rule ins)
  have key: "hmac_key_for_name X s1 idx (ascii ''a'') = Inr k" using lookup(1) [of idx] k(1) by simp
  have "files_ok [(k, entry 0 40 10000)]"
    using k(2) by (simp add: files_ok_def file_ok_def entry_sizes_ok const_defs)
  note encode_index_ok [of "idx\<lparr>files := [(k, entry 0 40 10000)]\<rparr>", simplified, OF this]
  moreover have "length (index_layout nc dc [(k, entry 0 40 10000)]) =
      INDEX_PREAMBLE_LEN + ENTRY_FIXED_LEN + 40 + 10000" for nc dc
    using k(2) by (simp add: length_index_layout file_ok_def entry_sizes_ok const_defs)
      (simp add: entry_def)
  ultimately show "encode_is_compact X s"
    using k(3) by (simp add: encode_is_compact_def g key insert_named_def)
qed

lemma from_subkeys_tests_pass:
  assumes "env_works X" "finite (dom (heap s))"
  shows "entry_zeroize_clears_ciphertext_fields"
    "from_subkeys_and_data_rejects_counter_not_ahead_of_entries X s"
    "from_subkeys_and_data_accepts_counter_ahead_of_entries X s"
    "from_subkeys_and_data_accepts_empty_files_with_zero_counter X s"
proof -
  show "entry_zeroize_clears_ciphertext_fields"
    by (simp add: entry_zeroize_clears_ciphertext_fields_def entry_zeroize_def)
  obtain a b where sub: "derive_subkeys X (replicate 32 0x11) (replicate 16 0x22) = Inr (a, b)"
    "length a = SUBKEY_LEN" "length b = SUBKEY_LEN"
    by (rule derive_subkeys_works [OF assms(1)])
  obtain ek hk s' where lock: "lock_subkeys X a b s = (Inr (ek, hk), s')"
    by (rule lock_subkeys_works [OF assms(1) sub(2,3) assms(2)])
  show "from_subkeys_and_data_rejects_counter_not_ahead_of_entries X s"
    "from_subkeys_and_data_accepts_counter_ahead_of_entries X s"
    "from_subkeys_and_data_accepts_empty_files_with_zero_counter X s"
    using sub(1) lock
    by (simp_all add: from_subkeys_and_data_rejects_counter_not_ahead_of_entries_def
        from_subkeys_and_data_accepts_counter_ahead_of_entries_def
        from_subkeys_and_data_accepts_empty_files_with_zero_counter_def index_from_master_def
        from_subkeys_and_data_eq hm_insert_def entry_with_counter_def is_err_def)
qed

end
