(* ===== verification/Refinement.thy ===== *)
theory Refinement
  imports Liveness
begin

text \<open>
  A vault in the hands of a program, as a password-protected map. A configuration is the process,
  the vault and the password it is under; a program stores, removes, changes the password, and
  writes the vault out and opens it again. The abstract state is a password and a map from names
  to secrets. The locale \<open>call_simulation\<close> carries a simulation of single calls over sequences;
  it is interpreted on the operations of the vault.
\<close>

section \<open>Simulation of call sequences\<close>

text \<open>The success of each call and the configuration after it.\<close>

fun run_calls :: "('c \<Rightarrow> 's \<Rightarrow> bool \<times> 's) \<Rightarrow> 'c list \<Rightarrow> 's \<Rightarrow> (bool \<times> 's) list" where
  "run_calls perform [] s = []"
| "run_calls perform (c # cs) s =
     (case perform c s of (ok, s1) \<Rightarrow> (ok, s1) # run_calls perform cs s1)"

definition final_state :: "'s \<Rightarrow> (bool \<times> 's) list \<Rightarrow> 's" where
  "final_state s steps = (if steps = [] then s else snd (last steps))"

fun run_effects :: "('c \<Rightarrow> bool \<Rightarrow> 'a \<Rightarrow> 'a) \<Rightarrow> 'c list \<Rightarrow> bool list \<Rightarrow> 'a \<Rightarrow> 'a" where
  "run_effects effect (c # cs) (ok # oks) a = run_effects effect cs oks (effect c ok a)"
| "run_effects effect _ _ a = a"

lemma final_state_simps [simp]:
  "final_state s [] = s"
  "final_state s ((ok, t) # steps) = final_state t steps"
  by (simp_all add: final_state_def)

locale call_simulation =
  fixes good :: "'s \<Rightarrow> bool"
    and calls :: "'c set"
    and rel :: "'s \<Rightarrow> 'a \<Rightarrow> bool"
    and perform :: "'c \<Rightarrow> 's \<Rightarrow> bool \<times> 's"
    and effect :: "'c \<Rightarrow> bool \<Rightarrow> 'a \<Rightarrow> 'a"
  assumes simulates: "\<lbrakk>rel s a; good s; c \<in> calls; perform c s = (ok, s'); good s'\<rbrakk> \<Longrightarrow>
      rel s' (effect c ok a)"
begin

lemma run_simulates:
  assumes "rel s a" "good s" "set cs \<subseteq> calls"
    and "\<forall>t \<in> set (run_calls perform cs s). good (snd t)"
  shows "rel (final_state s (run_calls perform cs s))
    (run_effects effect cs (map fst (run_calls perform cs s)) a)"
  using assms
proof (induction cs arbitrary: s a)
  case (Cons c cs)
  obtain ok s1 where p: "perform c s = (ok, s1)" by fastforce
  have "rel s1 (effect c ok a)"
    using Cons.prems p by (intro simulates [OF Cons.prems(1,2) _ p]) auto
  with Cons.prems p show ?case by (auto intro: Cons.IH)
qed simp

end

section \<open>Programs\<close>

datatype vault_call =
    CallStore bytes bytes
  | CallRemove bytes
  | CallChange bytes bytes
  | CallReopen

type_synonym 'w config = "'w sys \<times> vault \<times> bytes"

text \<open>Write the vault out, open the bytes again, drop the old vault.\<close>

definition reopen :: "'w externals \<Rightarrow> 'w config \<Rightarrow> bool \<times> 'w config" where
  "reopen X = (\<lambda>(s, v, password).
     case export X v s of
       (Inl e, v1, s1) \<Rightarrow> (False, s1, v1, password)
     | (Inr data, v1, s1) \<Rightarrow>
         (case open_vault X password data s1 of
            (Inl e, s2) \<Rightarrow> (False, s2, v1, password)
          | (Inr w, s2) \<Rightarrow> (True, vault_index_drop X (index v1) s2, w, password)))"

fun perform_call :: "'w externals \<Rightarrow> vault_call \<Rightarrow> 'w config \<Rightarrow> bool \<times> 'w config" where
  "perform_call X (CallStore name secret) (s, v, password) =
     (case store X v s name secret of (r, v1, s1) \<Rightarrow> (\<not> isl r, s1, v1, password))"
| "perform_call X (CallRemove name) (s, v, password) =
     (case remove X v s name of (r, v1) \<Rightarrow> (\<not> isl r, s, v1, password))"
| "perform_call X (CallChange old new) (s, v, password) =
     (case change_password X v s old new of
        (r, v1, s1) \<Rightarrow> (\<not> isl r, s1, v1, if isl r then password else new))"
| "perform_call X CallReopen c = reopen X c"

text \<open>The names a program uses.\<close>

fun call_names :: "vault_call \<Rightarrow> bytes set" where
  "call_names (CallStore name secret) = {name}"
| "call_names (CallRemove name) = {name}"
| "call_names _ = {}"

text \<open>What a call does to the password and the map; a failing call does nothing.\<close>

fun call_effect :: "vault_call \<Rightarrow> bool \<Rightarrow> bytes \<times> (bytes \<Rightarrow> bytes option) \<Rightarrow>
    bytes \<times> (bytes \<Rightarrow> bytes option)" where
  "call_effect c False a = a"
| "call_effect (CallStore name secret) True (password, m) = (password, m(name := Some secret))"
| "call_effect (CallRemove name) True (password, m) = (password, m(name := None))"
| "call_effect (CallChange old new) True (password, m) = (new, m)"
| "call_effect CallReopen True a = a"

text \<open>The HMAC separates the names in use, under the key the vault has.\<close>

definition config_apart :: "'w externals \<Rightarrow> bytes set \<Rightarrow> 'w config \<Rightarrow> bool" where
  "config_apart X N = (\<lambda>(s, v, password).
     \<forall>ek hk. keys_live s (index v) ek hk \<longrightarrow> names_apart X hk N)"

text \<open>A configuration stands for a password and a map.\<close>

definition stands_for ::
  "'w externals \<Rightarrow> bytes set \<Rightarrow> 'w config \<Rightarrow> bytes \<times> (bytes \<Rightarrow> bytes option) \<Rightarrow> bool" where
  "stands_for X N = (\<lambda>(s, v, password) (password', m).
     password = password' \<and> vault_ok s v \<and> unlocked_by X password s v \<and>
     (\<exists>ek hk. keys_live s (index v) ek hk \<and> sealed_for X ek hk N (files (index v))) \<and>
     (\<forall>n \<in> N. retrieve X v s n = Inr (m n)))"

lemma stands_forD:
  assumes "stands_for X N (s, v, password) (password', m)"
  obtains ek hk where "password' = password" "vault_ok s v" "keys_live s (index v) ek hk"
    "password_keys X password (header v) = Inr (ek, hk)"
    "sealed_for X ek hk N (files (index v))"
    "\<forall>n \<in> N. read_secret X ek hk (files (index v)) n = Inr (m n)"
proof -
  from assms obtain ek hk ek' hk' where k: "password' = password" "vault_ok s v"
    "keys_live s (index v) ek hk" "password_keys X password (header v) = Inr (ek, hk)"
    "keys_live s (index v) ek' hk'" "sealed_for X ek' hk' N (files (index v))"
    "\<forall>n \<in> N. retrieve X v s n = Inr (m n)"
    by (auto simp: stands_for_def unlocked_by_def)
  moreover from k(3,5) have "ek' = ek" "hk' = hk" by (auto simp: keys_live_def)
  ultimately show thesis using that by (simp add: retrieve_eq [OF k(3)])
qed

lemma stands_forI:
  assumes "vault_ok s v" "keys_live s (index v) ek hk"
    and "password_keys X password (header v) = Inr (ek, hk)"
    and "sealed_for X ek hk N (files (index v))"
    and "\<And>n. n \<in> N \<Longrightarrow> read_secret X ek hk (files (index v)) n = Inr (m n)"
  shows "stands_for X N (s, v, password) (password, m)"
  using assms by (auto simp: stands_for_def unlocked_by_def retrieve_eq [OF assms(2)])

lemma config_apartD:
  "config_apart X N (s, v, password) \<Longrightarrow> keys_live s (index v) ek hk \<Longrightarrow> names_apart X hk N"
  unfolding config_apart_def by blast

section \<open>The entries stay sealed for the names in use\<close>

lemma store_sealed_for:
  assumes "ext_laws X" "keys_live s (index v) ek hk" "distinct (map fst (files (index v)))"
    and "sealed_for X ek hk N (files (index v))" "name \<in> N" "store X v s name p = (r, v', s')"
  shows "sealed_for X ek hk N (files (index v'))"
proof (cases r)
  case (Inl e)
  with store_err(2) [of X v s name p e v' s'] assms(4,6) show ?thesis by auto
next
  case (Inr u)
  obtain k e where k: "name_key X hk name = Inr k" "sealed_entry X ek k name p e"
    and v': "v' = v\<lparr>index := (index v)\<lparr>data_nonce_counter := data_nonce_counter (index v) + 1,
       files := AList.update k e (files (index v))\<rparr>\<rparr>"
    by (rule store_ok [OF ext_lawsD(1) [OF assms(1)] assms(2) assms(6) [unfolded Inr]])
  then have "files (index v') = AList.update k e (files (index v))" by simp
  with k assms(4,5) show ?thesis
    by (auto simp: sealed_for_def set_alist_update [OF assms(3)])
qed

lemma remove_sealed_for:
  assumes "keys_live s (index v) ek hk" "sealed_for X ek hk N (files (index v))"
    and "remove X v s name = (r, v')"
  shows "sealed_for X ek hk N (files (index v'))"
  using assms(1,3)
proof (cases rule: remove_cases)
  case (ok k)
  with assms(2) set_alist_delete [of k "files (index v)"] show ?thesis
    by (auto simp: sealed_for_def)
qed (use assms(2) in simp)

lemma rekey_entries_sealed_for:
  assumes "ext_laws X" "length oek = SUBKEY_LEN" "sealed_for X oek ohk N fs"
    and "keys_live s (index w) ek hk" "index_ok (index w)" "sealed_for X ek hk N (files (index w))"
    and "rekey_entries X oek fs w s = (r, w', s')"
  shows "sealed_for X ek hk N (files (index w'))"
  using assms(3-)
proof (induction fs arbitrary: w s)
  case (Cons f fs)
  obtain k e where f: "f = (k, e)" by (cases f)
  note laws = ext_lawsD [OF assms(1)]
  from Cons.prems(1) obtain n p where n: "n \<in> N" "sealed_entry X oek k n p e"
    by (auto simp: sealed_for_def f)
  show ?case
  proof (cases "decrypt_entry X oek k e")
    case (Inl d)
    with Cons.prems show ?thesis by (simp add: f)
  next
    case (Inr np)
    then have np: "np = (n, p)" by (rule decrypt_entry_sealed [OF laws(3) assms(2) n(2)])
    obtain q w1 s1 where st: "store X w s n p = (q, w1, s1)" by (cases "store X w s n p") auto
    have dist: "distinct (map fst (files (index w)))"
      using Cons.prems(3) by (simp add: index_ok_def files_ok_def)
    note sealed = store_sealed_for [OF assms(1) Cons.prems(2) dist Cons.prems(4) n(1) st]
    have live: "keys_live s1 (index w1) ek hk"
      using Cons.prems(2) store_keys(1) [OF st] by blast
    have ok: "index_ok (index w1)"
      by (rule store_index_ok [OF laws(1,3,4) Cons.prems(2,3) st])
    have "sealed_for X oek ohk N fs" using Cons.prems(1) by (simp add: sealed_for_def)
    from Cons.IH [OF this live ok sealed] Cons.prems(5) Inr st sealed show ?thesis
      by (cases q) (auto simp: f np)
  qed
qed simp

lemma rekey_sealed_for:
  assumes "ext_laws X" "mem_ok s" "keys_live s (index v) oek ohk"
    and "sealed_for X oek ohk N (files (index v))" "rekey X v s password = (Inr u, v', s')"
    and "keys_live s' (index v') ek hk"
  shows "sealed_for X ek hk N (files (index v'))"
  using assms(1,2)
proof (cases rule: rekey_starts [where v = v and password = password])
  case (err e s1)
  with assms(5) show ?thesis by simp
next
  case (fresh w ek' hk' s2)
  then have adds: "adds_keys s (index w) ek' hk' s2" and w: "index_ok (index w)"
    "files (index w) = []" by (simp_all add: fresh_vault_def)
  then have live: "keys_live s2 (index w) ek' hk'" by (simp add: adds_keys_def)
  have old: "keys_live s2 (index v) oek ohk"
    using adds assms(3) by (auto simp: adds_keys_def keys_live_def)
  from keys_live_enc [OF old] fresh(2) assms(5) obtain w1 s3 where
    run: "rekey_entries X oek (files (index v)) w s2 = (Inr (), w1, s3)"
    and v': "v' = v\<lparr>header := header w1, index := index w1\<rparr>"
    and s': "s' = vault_index_drop X (index v) s3"
    by (auto split: prod.splits sum.splits)
  note frame = rekey_entries_frame [OF run]
  have "moves_keys s (index v) (index w1) ek' hk' s'"
    unfolding s' using frame
    by (intro moves_keysI [OF ext_lawsD(2) [OF assms(1)] assms(3) adds]) auto
  then have "ek' = ek" "hk' = hk"
    using assms(6) by (auto simp: moves_keys_def keys_live_def v')
  moreover have "sealed_for X ek' hk' N (files (index w1))"
    using assms(3,4) w live
    by (intro rekey_entries_sealed_for [OF assms(1) _ _ live _ _ run])
      (auto simp: keys_live_def sealed_for_def)
  ultimately show ?thesis by (simp add: v')
qed

section \<open>Each call simulates its effect\<close>

lemma stands_for_store:
  assumes "ext_laws X" "stands_for X N (s, v, pw) (pw', m)" "config_apart X N (s, v, pw)"
    and "name \<in> N" "store X v s name p = (r, v', s')"
  shows "stands_for X N (s', v', pw) (call_effect (CallStore name p) (\<not> isl r) (pw', m))"
  using assms(2)
proof (rule stands_forD)
  fix ek hk
  assume c: "pw' = pw" "vault_ok s v" "keys_live s (index v) ek hk"
    "password_keys X pw (header v) = Inr (ek, hk)" "sealed_for X ek hk N (files (index v))"
    "\<forall>n \<in> N. read_secret X ek hk (files (index v)) n = Inr (m n)"
  have apart: "names_apart X hk N" by (rule config_apartD [OF assms(3) c(3)])
  have dist: "distinct (map fst (files (index v)))"
    using c(2) by (simp add: vault_ok_def index_ok_def files_ok_def)
  have live: "keys_live s' (index v') ek hk" using c(3) store_keys(1) [OF assms(5)] by blast
  have ok: "vault_ok s' v'" by (rule store_vault_ok [OF assms(1) c(2) assms(5)])
  have keys: "password_keys X pw (header v') = Inr (ek, hk)"
    by (simp add: store_keys(2) [OF assms(5)] c(4))
  note sealed = store_sealed_for [OF assms(1) c(3) dist c(5) assms(4,5)]
  note other = store_read_other [OF assms(1) c(3) assms(5) names_apart_same [OF apart assms(4)]]
  show ?thesis
  proof (cases r)
    case (Inl e)
    then show ?thesis
      using other c(6) by (auto simp: c(1) intro!: stands_forI [OF ok live keys sealed])
  next
    case (Inr u)
    have "read_secret X ek hk (files (index v')) n = Inr ((m(name := Some p)) n)" if "n \<in> N" for n
      using other [OF that] c(6) that store_read_same [OF assms(1) c(3) assms(5) [unfolded Inr]]
      by auto
    with Inr show ?thesis by (auto simp: c(1) intro!: stands_forI [OF ok live keys sealed])
  qed
qed

lemma stands_for_remove:
  assumes "stands_for X N (s, v, pw) (pw', m)" "config_apart X N (s, v, pw)"
    and "name \<in> N" "remove X v s name = (r, v')"
  shows "stands_for X N (s, v', pw) (call_effect (CallRemove name) (\<not> isl r) (pw', m))"
  using assms(1)
proof (rule stands_forD)
  fix ek hk
  assume c: "pw' = pw" "vault_ok s v" "keys_live s (index v) ek hk"
    "password_keys X pw (header v) = Inr (ek, hk)" "sealed_for X ek hk N (files (index v))"
    "\<forall>n \<in> N. read_secret X ek hk (files (index v)) n = Inr (m n)"
  have apart: "names_apart X hk N" by (rule config_apartD [OF assms(2) c(3)])
  have live: "keys_live s (index v') ek hk" using c(3) remove_keys(1) [OF assms(4)] by blast
  have ok: "vault_ok s v'" by (rule remove_vault_ok [OF c(2) assms(4)])
  have keys: "password_keys X pw (header v') = Inr (ek, hk)"
    by (simp add: remove_keys(2) [OF assms(4)] c(4))
  note sealed = remove_sealed_for [OF c(3,5) assms(4)]
  show ?thesis
  proof (cases r)
    case (Inl e)
    have "v' = v" using c(3) assms(4) by (cases rule: remove_cases) (use Inl in auto)
    with Inl assms(1) show ?thesis by simp
  next
    case (Inr b)
    have "read_secret X ek hk (files (index v')) n = Inr ((m(name := None)) n)" if "n \<in> N" for n
      using remove_read(1,3) [OF c(3) assms(4) [unfolded Inr]] c(6) that
        names_apart_same [OF apart assms(3) that] by auto
    with Inr show ?thesis by (auto simp: c(1) intro!: stands_forI [OF ok live keys sealed])
  qed
qed

lemma stands_for_change:
  assumes "ext_laws X" "stands_for X N (s, v, pw) (pw', m)" "config_apart X N (s, v, pw)"
    and "change_password X v s old new = (r, v', s')"
    and "config_apart X N (s', v', if isl r then pw else new)"
  shows "stands_for X N (s', v', if isl r then pw else new)
    (call_effect (CallChange old new) (\<not> isl r) (pw', m))"
  using assms(2)
proof (rule stands_forD)
  fix oek ohk
  assume c: "pw' = pw" "vault_ok s v" "keys_live s (index v) oek ohk"
    "password_keys X pw (header v) = Inr (oek, ohk)" "sealed_for X oek ohk N (files (index v))"
    "\<forall>n \<in> N. read_secret X oek ohk (files (index v)) n = Inr (m n)"
  have mem: "mem_ok s" using c(2) by (simp add: vault_ok_def)
  show ?thesis
  proof (cases r)
    case (Inl e)
    note err = change_password_err [OF assms(1) mem assms(4) [unfolded Inl]]
    have "keys_live s' (index v) oek ohk" "vault_ok s' v"
      using c(2,3) err(2,3) by (auto simp: keys_live_def vault_ok_def)
    with Inl err(1) c show ?thesis by (auto intro!: stands_forI)
  next
    case (Inr u)
    note rk = change_password_ok(3) [OF assms(4) [unfolded Inr]]
    from rekey_vault_ok [OF assms(1) _ rk] c(2) have ok: "vault_ok s' v'" "unlocked_by X new s' v'"
      by blast+
    then obtain ek hk where live: "keys_live s' (index v') ek hk"
      and keys: "password_keys X new (header v') = Inr (ek, hk)" by (auto simp: unlocked_by_def)
    have dist: "distinct (map fst (files (index v)))"
      using c(2) by (simp add: vault_ok_def index_ok_def files_ok_def)
    have apart: "names_apart X ohk N" "names_apart X hk N"
      by (rule config_apartD [OF assms(3) c(3)], rule config_apartD [OF assms(5) live])
    note sealed = rekey_sealed_for [OF assms(1) mem c(3,5) rk live]
    have "read_secret X ek hk (files (index v')) n = Inr (m n)" if "n \<in> N" for n
      using rekey_reads [OF assms(1) mem c(3) dist c(5) apart(1) rk live apart(2) that] c(6) that
      by simp
    with Inr show ?thesis by (auto intro!: stands_forI [OF ok(1) live keys sealed])
  qed
qed

text \<open>The regions of a reopened export are new, so the old ones can go.\<close>

lemma reopened_keys:
  assumes "ext_laws X" "vault_ok s v" "unlocked_by X pw s v" "mem_ok t"
    and "export X v s = (Inr out, v', s')" "open_vault X pw out t = (Inr w, t')"
  obtains ek hk where "adds_keys t (index w) ek hk t'"
proof -
  from assms(3) obtain ek hk where keys: "password_keys X pw (header v) = Inr (ek, hk)"
    and live: "keys_live s (index v) ek hk" by (auto simp: unlocked_by_def)
  note o = export_opens_to [OF assms(1,2) keys live assms(5)]
  have ver: "version (header v) \<noteq> LEGACY_VAULT_VERSION_1"
    using assms(2) by (simp add: vault_ok_def const_defs)
  show thesis
  proof (rule open_vault_ok [OF assms(1,4,6)])
    fix env ek' hk' d
    assume o': "opens_to X pw out env ek' hk' d"
      and adds: "version (env_header env) \<noteq> LEGACY_VAULT_VERSION_1 \<Longrightarrow>
        (\<exists>es hs. w = loaded_vault env d es hs) \<and> adds_keys t (index w) ek' hk' t'"
    have "env_header env = header v" using o o' by (auto simp: opens_to_def)
    with ver adds show thesis by (intro that [of ek' hk']) simp
  qed
qed

lemma stands_for_reopen:
  assumes "ext_laws X" "stands_for X N (s, v, pw) (pw', m)" "reopen X (s, v, pw) = (ok, c')"
  shows "stands_for X N c' (call_effect CallReopen ok (pw', m))"
  using assms(2)
proof (rule stands_forD)
  fix ek hk
  assume c: "pw' = pw" "vault_ok s v" "keys_live s (index v) ek hk"
    "password_keys X pw (header v) = Inr (ek, hk)" "sealed_for X ek hk N (files (index v))"
    "\<forall>n \<in> N. read_secret X ek hk (files (index v)) n = Inr (m n)"
  obtain a v1 s1 where e: "export X v s = (a, v1, s1)" by (cases "export X v s") auto
  note eff = export_effect [OF e]
  have ok1: "vault_ok s1 v1" by (rule export_vault_ok [OF assms(1) c(2) e])
  have live1: "keys_live s1 (index v1) ek hk" using c(3) keys_live_ext [OF eff(7,4,5)] by blast
  have keep: "stands_for X N (s2, v1, pw) (pw', m)"
    if "mem_ok s2" "secret_bytes s2 = secret_bytes s1" for s2
    using that ok1 live1 c eff(1,2)
    by (auto simp: c(1) vault_ok_def keys_live_def intro!: stands_forI [of s2 v1 ek hk])
  have mem1: "mem_ok s1" using ok1 by (simp add: vault_ok_def)
  show ?thesis
  proof (cases a)
    case (Inl d)
    with assms(3) keep [OF mem1] show ?thesis by (auto simp: reopen_def e)
  next
    case a: (Inr out)
    have un: "unlocked_by X pw s v" using c(3,4) by (auto simp: unlocked_by_def)
    note ex = e [unfolded a]
    note re = export_reopens [OF assms(1) c(2) un ex mem1]
    obtain b s2 where b: "open_vault X pw out s1 = (b, s2)" by fastforce
    show ?thesis
    proof (cases b)
      case (Inl d)
      with open_vault_err [OF assms(1) mem1, of pw out d s2] b assms(3) keep [of s2]
      show ?thesis by (auto simp: reopen_def e a)
    next
      case (Inr w)
      note op = b [unfolded Inr]
      obtain ek' hk' where adds: "adds_keys s1 (index w) ek' hk' s2"
        by (rule reopened_keys [OF assms(1) c(2) un mem1 ex op])
      from re op have w: "header w = header v" "files (index w) = files (index v)" "vault_ok s2 w"
        "unlocked_by X pw s2 w" by simp_all
      let ?s3 = "vault_index_drop X (index v1) s2"
      have mem2: "mem_ok s2" using w(3) by (simp add: vault_ok_def)
      note drop = vault_index_drop_effect [OF ext_lawsD(2) [OF assms(1)] mem2, of "index v1"]
      have live2: "keys_live s2 (index w) ek hk"
        using w(1,4) c(4) by (simp add: unlocked_by_def)
      have live3: "keys_live ?s3 (index w) ek hk"
        using live2 adds live1 by (auto simp: keys_live_def drop(2) adds_keys_def)
      have "vault_ok ?s3 w" using w(3) drop(1) live3 by (auto simp: vault_ok_def)
      then have "stands_for X N (?s3, w, pw) (pw, m)"
        using live3 c(4-6) w(1,2) by (intro stands_forI) auto
      with assms(3) op show ?thesis by (simp add: reopen_def e a c(1))
    qed
  qed
qed

interpretation program: call_simulation "config_apart X N" "{c. call_names c \<subseteq> N}"
  "\<lambda>c a. ext_laws X \<and> stands_for X N c a" "perform_call X" call_effect
  for X :: "'w externals" and N :: "bytes set"
proof unfold_locales
  fix c c' :: "'w config" and a :: "bytes \<times> (bytes \<Rightarrow> bytes option)" and op ok
  assume rel: "ext_laws X \<and> stands_for X N c a" and apart: "config_apart X N c"
    and op: "op \<in> {c. call_names c \<subseteq> N}" and p: "perform_call X op c = (ok, c')"
    and apart': "config_apart X N c'"
  obtain s v pw where c: "c = (s, v, pw)" by (cases c)
  obtain pw' m where a: "a = (pw', m)" by (cases a)
  from rel have X: "ext_laws X" and st: "stands_for X N (s, v, pw) (pw', m)" by (simp_all add: c a)
  show "ext_laws X \<and> stands_for X N c' (call_effect op ok a)"
  proof (cases op)
    case (CallStore name p)
    obtain r v' s' where r: "store X v s name p = (r, v', s')" by (cases "store X v s name p") auto
    with CallStore \<open>perform_call X op c = (ok, c')\<close> have c': "ok = (\<not> isl r)" "c' = (s', v', pw)"
      by (auto simp: c)
    from stands_for_store [OF X st apart [unfolded c] _ r] CallStore op X show ?thesis
      by (simp add: a c')
  next
    case (CallRemove name)
    obtain r v' where r: "remove X v s name = (r, v')" by fastforce
    with CallRemove p have c': "ok = (\<not> isl r)" "c' = (s, v', pw)" by (auto simp: c)
    from stands_for_remove [OF st apart [unfolded c] _ r] CallRemove op X show ?thesis
      by (simp add: a c')
  next
    case (CallChange old new)
    obtain r v' s' where ch: "change_password X v s old new = (r, v', s')"
      by (cases "change_password X v s old new") auto
    with CallChange p have c': "ok = (\<not> isl r)" "c' = (s', v', if isl r then pw else new)"
      by (auto simp: c)
    from stands_for_change [OF X st apart [unfolded c] ch] apart' X show ?thesis
      by (simp add: CallChange a c')
  next
    case CallReopen
    with stands_for_reopen [OF X st] X p show ?thesis by (auto simp: c a)
  qed
qed

text \<open>A created vault stands for its password and the empty map.\<close>

lemma fresh_stands_for:
  assumes "fresh_vault X pw s v ek hk s'" "names_apart X hk N"
  shows "stands_for X N (s', v, pw) (pw, Map.empty)"
proof (rule stands_forI)
  show "vault_ok s' v" by (rule fresh_vault_ok [OF assms(1)])
  from assms(1) show "keys_live s' (index v) ek hk" "password_keys X pw (header v) = Inr (ek, hk)"
    "sealed_for X ek hk N (files (index v))"
    by (simp_all add: fresh_vault_def adds_keys_def sealed_for_def)
  show "read_secret X ek hk (files (index v)) n = Inr (Map.empty n)" if "n \<in> N" for n
    using assms that by (auto simp: fresh_vault_def names_apart_def read_secret_def)
qed

end
