(* ===== verification/FacadeTests.thy ===== *)
theory FacadeTests
  imports UnitTests Refinement
begin

text \<open>
  The unit tests of the facade (\<open>mod tests\<close> of \<open>src/vault/facade.rs\<close>) that go through the
  public interface of one vault: creating, storing, reading, removing, and opening what was
  exported. They pass on every machine whose libraries work.
\<close>

section \<open>Round trips\<close>

definition extract_enc_key_returns_32_bytes_for_valid_subkey :: "'w externals \<Rightarrow> 'w sys \<Rightarrow> bool" where
  "extract_enc_key_returns_32_bytes_for_valid_subkey X s \<longleftrightarrow>
     (let key = replicate 32 7 in
      unwrap_with (locked_secret_new X key s) (\<lambda>secret s1.
      unwrap (extract_enc_key s1 secret) (\<lambda>extracted. extracted = key)))"

text \<open>The loop over the lengths; the secret of a turn is dropped at its end.\<close>

fun extract_rejects_lengths :: "'w externals \<Rightarrow> nat list \<Rightarrow> 'w sys \<Rightarrow> bool" where
  "extract_rejects_lengths X [] s = True"
| "extract_rejects_lengths X (len # lens) s =
     unwrap_with (locked_secret_new X (replicate len 1) s) (\<lambda>secret s1.
       (case extract_enc_key s1 secret of Inl e \<Rightarrow> is_crypto_error e | Inr k \<Rightarrow> False) \<and>
       extract_rejects_lengths X lens (locked_secret_drop X secret s1))"

definition extract_enc_key_rejects_wrong_length_subkey :: "'w externals \<Rightarrow> 'w sys \<Rightarrow> bool" where
  "extract_enc_key_rejects_wrong_length_subkey X s \<longleftrightarrow>
     extract_rejects_lengths X [16, 31, 33, 64] s"

definition create_and_export_open_roundtrip :: "'w externals \<Rightarrow> 'w sys \<Rightarrow> bool" where
  "create_and_export_open_roundtrip X s \<longleftrightarrow>
     unwrap_with (create X (ascii ''test-password-123'') s) (\<lambda>v s1.
     unwrap_with (export X v s1) (\<lambda>exported (v1, s2).
     unwrap_with (open_vault X (ascii ''test-password-123'') exported s2) (\<lambda>reopened s3. True)))"

definition store_and_retrieve_roundtrip :: "'w externals \<Rightarrow> 'w sys \<Rightarrow> bool" where
  "store_and_retrieve_roundtrip X s \<longleftrightarrow>
     unwrap_with (create X (ascii ''test-password'') s) (\<lambda>v s1.
     unwrap_with (store X v s1 (ascii ''api_key'') (ascii ''sk-secret-12345'')) (\<lambda>u (v1, s2).
     unwrap_with (export X v1 s2) (\<lambda>exported (v2, s3).
     unwrap_with (open_vault X (ascii ''test-password'') exported s3) (\<lambda>reopened s4.
     unwrap (retrieve X reopened s4 (ascii ''api_key'')) (\<lambda>r.
       r = Some (ascii ''sk-secret-12345''))))))"

definition with_secret_borrows_plaintext_and_returns_callback_value ::
  "'w externals \<Rightarrow> 'w sys \<Rightarrow> bool" where
  "with_secret_borrows_plaintext_and_returns_callback_value X s \<longleftrightarrow>
     unwrap_with (create X (ascii ''test-password'') s) (\<lambda>v s1.
     unwrap_with (store X v s1 (ascii ''api_key'') (ascii ''sk-secret-12345'')) (\<lambda>u (v1, s2).
     unwrap (with_secret X v1 s2 (ascii ''api_key'')
         (\<lambda>secret. (secret = ascii ''sk-secret-12345'', length secret))) (\<lambda>observed.
       observed = Some (True, 15))))"

text \<open>The callback sets \<open>invoked\<close>; its effect is its value here.\<close>

definition with_secret_missing_does_not_invoke_callback :: "'w externals \<Rightarrow> 'w sys \<Rightarrow> bool" where
  "with_secret_missing_does_not_invoke_callback X s \<longleftrightarrow>
     unwrap_with (create X (ascii ''test-password'') s) (\<lambda>v s1.
     unwrap (with_secret X v s1 (ascii ''missing'') (\<lambda>secret. True)) (\<lambda>result.
       let invoked = (result = Some True) in result = None \<and> \<not> invoked))"

definition with_secret_supports_empty_plaintext :: "'w externals \<Rightarrow> 'w sys \<Rightarrow> bool" where
  "with_secret_supports_empty_plaintext X s \<longleftrightarrow>
     unwrap_with (create X (ascii ''test-password'') s) (\<lambda>v s1.
     unwrap_with (store X v s1 (ascii ''empty'') []) (\<lambda>u (v1, s2).
     unwrap (with_secret X v1 s2 (ascii ''empty'') (\<lambda>secret. secret = [])) (\<lambda>is_empty.
       is_empty = Some True)))"

text \<open>\<open>Option<Result<T, E>>::transpose\<close>\<close>

fun transpose_result :: "('e + 'a) option \<Rightarrow> 'e + 'a option" where
  "transpose_result None = Inr None"
| "transpose_result (Some (Inr x)) = Inr (Some x)"
| "transpose_result (Some (Inl e)) = Inl e"

definition with_secret_preserves_fallible_callback_result :: "'w externals \<Rightarrow> 'w sys \<Rightarrow> bool" where
  "with_secret_preserves_fallible_callback_result X s \<longleftrightarrow>
     unwrap_with (create X (ascii ''test-password'') s) (\<lambda>v s1.
     unwrap_with (store X v s1 (ascii ''number'') (ascii ''42'')) (\<lambda>u (v1, s2).
     unwrap (with_secret X v1 s2 (ascii ''number'') (\<lambda>secret.
         if secret = ascii ''42'' then Inr (42 :: byte) else Inl ''unexpected value'')) (\<lambda>result.
     unwrap (transpose_result result) (\<lambda>parsed. parsed = Some 42))))"

definition retrieve_missing_returns_none :: "'w externals \<Rightarrow> 'w sys \<Rightarrow> bool" where
  "retrieve_missing_returns_none X s \<longleftrightarrow>
     unwrap_with (create X (ascii ''password'') s) (\<lambda>v s1.
     unwrap (retrieve X v s1 (ascii ''nonexistent'')) (\<lambda>r. r = None))"

definition remove_returns_true_for_existing :: "'w externals \<Rightarrow> 'w sys \<Rightarrow> bool" where
  "remove_returns_true_for_existing X s \<longleftrightarrow>
     unwrap_with (create X (ascii ''password'') s) (\<lambda>v s1.
     unwrap_with (store X v s1 (ascii ''key'') (ascii ''value'')) (\<lambda>u (v1, s2).
     unwrap_with (remove X v1 s2 (ascii ''key'')) (\<lambda>found v2. found \<and>
     unwrap (retrieve X v2 s2 (ascii ''key'')) (\<lambda>r. r = None))))"

definition remove_returns_false_for_missing :: "'w externals \<Rightarrow> 'w sys \<Rightarrow> bool" where
  "remove_returns_false_for_missing X s \<longleftrightarrow>
     unwrap_with (create X (ascii ''password'') s) (\<lambda>v s1.
     unwrap_with (remove X v s1 (ascii ''nonexistent'')) (\<lambda>found v1. \<not> found))"

definition empty_vault_roundtrip :: "'w externals \<Rightarrow> 'w sys \<Rightarrow> bool" where
  "empty_vault_roundtrip X s \<longleftrightarrow>
     unwrap_with (create X (ascii ''password'') s) (\<lambda>v s1.
     unwrap_with (export X v s1) (\<lambda>exported (v1, s2).
     unwrap_with (open_vault X (ascii ''password'') exported s2) (\<lambda>reopened s3. True)))"

definition store_empty_data :: "'w externals \<Rightarrow> 'w sys \<Rightarrow> bool" where
  "store_empty_data X s \<longleftrightarrow>
     unwrap_with (create X (ascii ''password'') s) (\<lambda>v s1.
     unwrap_with (store X v s1 (ascii ''empty'') []) (\<lambda>u (v1, s2).
     unwrap_with (export X v1 s2) (\<lambda>exported (v2, s3).
     unwrap_with (open_vault X (ascii ''password'') exported s3) (\<lambda>reopened s4.
     unwrap (retrieve X reopened s4 (ascii ''empty'')) (\<lambda>r. r = Some [])))))"

definition multiple_entries :: "'w externals \<Rightarrow> 'w sys \<Rightarrow> bool" where
  "multiple_entries X s \<longleftrightarrow>
     unwrap_with (create X (ascii ''password'') s) (\<lambda>v s1.
     unwrap_with (store X v s1 (ascii ''key1'') (ascii ''value1'')) (\<lambda>u (v1, s2).
     unwrap_with (store X v1 s2 (ascii ''key2'') (ascii ''value2'')) (\<lambda>u (v2, s3).
     unwrap_with (store X v2 s3 (ascii ''key3'') (ascii ''value3'')) (\<lambda>u (v3, s4).
     unwrap_with (export X v3 s4) (\<lambda>exported (v4, s5).
     unwrap_with (open_vault X (ascii ''password'') exported s5) (\<lambda>reopened s6.
     unwrap (retrieve X reopened s6 (ascii ''key1'')) (\<lambda>r. r = Some (ascii ''value1'')) \<and>
     unwrap (retrieve X reopened s6 (ascii ''key2'')) (\<lambda>r. r = Some (ascii ''value2'')) \<and>
     unwrap (retrieve X reopened s6 (ascii ''key3'')) (\<lambda>r. r = Some (ascii ''value3''))))))))"

text \<open>\<open>dir\<close> is the temporary directory.\<close>

definition save_and_load_roundtrip ::
  "'w externals \<Rightarrow> file_system \<Rightarrow> path \<Rightarrow> 'w sys \<Rightarrow> bool" where
  "save_and_load_roundtrip X fs dir s \<longleftrightarrow>
     (let path = path_join dir ''vault.seal'' in
      unwrap_with (create X (ascii ''file-password'') s) (\<lambda>v s1.
      unwrap_with (store X v s1 (ascii ''secret'') (ascii ''file-stored-value'')) (\<lambda>u (v1, s2).
      unwrap_with (save X no_faults v1 s2 fs path) (\<lambda>u (v2, s3, fs1).
      unwrap_with (load_vault X no_faults fs1 path (ascii ''file-password'') s3) (\<lambda>loaded s4.
      unwrap (retrieve X loaded s4 (ascii ''secret'')) (\<lambda>r.
        r = Some (ascii ''file-stored-value'')))))))"

definition change_password_rejects_short_new_password :: "'w externals \<Rightarrow> 'w sys \<Rightarrow> bool" where
  "change_password_rejects_short_new_password X s \<longleftrightarrow>
     unwrap_with (create X (ascii ''real-pwd!'') s) (\<lambda>v s1.
     case change_password X v s1 (ascii ''real-pwd!'') (ascii ''short'') of
       (Inl e, v1, s2) \<Rightarrow> is_invalid_input e \<and> nonce_counter (index v1) = 0
     | _ \<Rightarrow> False)"

definition short_password_rejected :: "'w externals \<Rightarrow> 'w sys \<Rightarrow> bool" where
  "short_password_rejected X s \<longleftrightarrow>
     (case create X (ascii ''short'') s of (Inl e, s1) \<Rightarrow> is_invalid_input e | _ \<Rightarrow> False)"

definition long_entry_name_rejected :: "'w externals \<Rightarrow> 'w sys \<Rightarrow> bool" where
  "long_entry_name_rejected X s \<longleftrightarrow>
     unwrap_with (create X (ascii ''password'') s) (\<lambda>v s1.
     let long_name = concat (replicate (MAX_ENTRY_NAME_LEN + 1) (ascii ''x'')) in
     case store X v s1 long_name (ascii ''data'') of
       (Inl e, v1, s2) \<Rightarrow> is_invalid_input e | _ \<Rightarrow> False)"

section \<open>They pass\<close>

text \<open>What the tests assume of the machine they run on.\<close>

definition test_machine :: "'w externals \<Rightarrow> 'w sys \<Rightarrow> bool" where
  "test_machine X s \<longleftrightarrow> env_works X \<and> mem_ok s \<and> finite (dom (heap s))"

lemma header_json_small:
  assumes "env_works X" "vault_ok s v"
  shows "length (projr (header_to_json X (header v))) \<le> MAX_HEADER_JSON_LEN"
proof -
  have "length (kdf_salt (header v)) = SALT_LEN" using assms(2) by (simp add: vault_ok_def)
  then obtain b where "header_to_json X (header v) = Inr b" "length b \<le> MAX_HEADER_JSON_LEN"
    by (rule to_aad_bytes_ok [OF env_worksD(9) [OF assms(1)]])
  then show ?thesis by simp
qed

lemma single_apart: "env_works X \<Longrightarrow> config_apart X {name} c"
  by (cases c) (auto simp: config_apart_def keys_live_def names_apart_def elim: name_key_works)

lemma created:
  assumes "test_machine X s" "MIN_PASSWORD_LEN \<le> length pw" "length pw < 2 ^ 32"
  obtains v s1 where "create X pw s = (Inr v, s1)"
    "\<And>N. config_apart X N (s1, v, pw) \<Longrightarrow> stands_for X N (s1, v, pw) (pw, Map.empty)"
    "\<And>n. stands_for X {n} (s1, v, pw) (pw, Map.empty)" "files (index v) = []"
    "nonce_counter (index v) = 0" "data_nonce_counter (index v) = 0"
    "export_size X v \<le> MAX_VAULT_FILE_SIZE" "test_machine X s1"
proof -
  have m: "env_works X" "mem_ok s" "finite (dom (heap s))"
    using assms(1) by (simp_all add: test_machine_def)
  obtain v s1 where c: "create X pw s = (Inr v, s1)"
    by (rule create_works [OF m(1) assms(2,3) m(3)])
  obtain ek hk where f: "fresh_vault X pw s v ek hk s1"
    by (rule create_ok [OF env_worksD(1) [OF m(1)] m(2) c])
  then have zero: "files (index v) = []" "nonce_counter (index v) = 0"
    "data_nonce_counter (index v) = 0" "adds_keys s (index v) ek hk s1"
    by (simp_all add: fresh_vault_def)
  note ok = fresh_vault_ok(1) [OF f]
  have live: "keys_live s1 (index v) ek hk" using zero(4) by (simp add: adds_keys_def)
  have stands: "stands_for X N (s1, v, pw) (pw, Map.empty)" if "config_apart X N (s1, v, pw)" for N
    using fresh_stands_for [OF f config_apartD [OF that live]] .
  have "export_size X v \<le> MAX_VAULT_FILE_SIZE"
    using header_json_small [OF m(1) ok]
    by (simp add: export_size_def encoded_total_def zero(1) const_defs)
  moreover have "test_machine X s1"
    using adds_keys_finite [OF zero(4) m(3)] m(1) ok by (simp add: test_machine_def vault_ok_def)
  ultimately show thesis
    using stands single_apart [OF m(1)] by (intro that [OF c _ _ zero(1-3)]) auto
qed

text \<open>Three entries of any admissible size always fit into a file.\<close>

lemma export_size_small:
  assumes "env_works X" "vault_ok s v" "length (files (index v)) \<le> 3"
  shows "export_size X v \<le> MAX_VAULT_FILE_SIZE"
proof -
  let ?size = "\<lambda>f. ENTRY_FIXED_LEN + length (encrypted_name (snd f)) + length (encrypted_data (snd f))"
  have "?size f \<le> ENTRY_FIXED_LEN + MAX_ENCRYPTED_NAME_LEN + MAX_ENCRYPTED_DATA_LEN"
    if "f \<in> set (files (index v))" for f
  proof -
    have "sizes_ok (snd f)"
      using assms(2) that by (auto simp: vault_ok_def index_ok_def files_ok_def list_all_iff file_ok_def)
    then show ?thesis by (simp add: sizes_ok_def)
  qed
  from sum_list_mono [OF this, of "files (index v)" "\<lambda>f. f"]
  have "sum_list (map ?size (files (index v))) \<le>
      length (files (index v)) * (ENTRY_FIXED_LEN + MAX_ENCRYPTED_NAME_LEN + MAX_ENCRYPTED_DATA_LEN)"
    by (simp add: sum_list_triv)
  also have "\<dots> \<le> 3 * (ENTRY_FIXED_LEN + MAX_ENCRYPTED_NAME_LEN + MAX_ENCRYPTED_DATA_LEN)"
    using assms(3) by (rule mult_right_mono) simp
  finally show ?thesis
    using header_json_small [OF assms(1,2)]
    by (simp add: export_size_def encoded_total_def const_defs)
qed

text \<open>Storing under one of the names in use.\<close>

lemma stored:
  assumes "test_machine X s" "stands_for X N (s, v, pw) (pw, m)" "config_apart X N (s, v, pw)"
    and "name \<in> N" "length (files (index v)) < MAX_INDEX_ENTRIES"
    and "unat (data_nonce_counter (index v)) + 1 < 2 ^ 64"
    and "length name \<le> MAX_ENTRY_NAME_LEN" "length p \<le> MAX_ENTRY_DATA_SIZE"
  obtains v1 s1 where "store X v s name p = (Inr (), v1, s1)" "test_machine X s1"
    "stands_for X N (s1, v1, pw) (pw, m(name \<mapsto> p))" "config_apart X N (s1, v1, pw)"
    "nonce_counter (index v1) = nonce_counter (index v)"
    "unat (data_nonce_counter (index v1)) = Suc (unat (data_nonce_counter (index v)))"
    "length (files (index v1)) \<le> Suc (length (files (index v)))"
  using assms(2)
proof (rule stands_forD)
  fix ek hk
  assume c: "vault_ok s v" "keys_live s (index v) ek hk"
  have env: "env_works X" using assms(1) by (simp add: test_machine_def)
  note laws = env_worksD [OF env]
  have hk: "length hk = SUBKEY_LEN" using c(2) by (simp add: keys_live_def)
  obtain k where k: "name_key X hk name = Inr k" by (rule name_key_works [OF env hk])
  have room: "has_room (index v) k" using assms(5) by (simp add: has_room_def)
  obtain v1 w where st: "store X v s name p = (Inr (), v1, s\<lparr>ext := w\<rparr>)"
    by (rule store_works [OF env c(2) assms(7,8,6) k room])
  have new: "stands_for X N (s\<lparr>ext := w\<rparr>, v1, pw) (pw, m(name \<mapsto> p))"
    using stands_for_store [OF laws(1) assms(2,3,4) st] by simp
  have "keys_live (s\<lparr>ext := w\<rparr>) (index v1) ek' hk' \<Longrightarrow> keys_live s (index v) ek' hk'" for ek' hk'
    using store_keys(1) [OF st] by blast
  then have apart: "config_apart X N (s\<lparr>ext := w\<rparr>, v1, pw)"
    using assms(3) by (simp add: config_apart_def) blast
  have "test_machine X (s\<lparr>ext := w\<rparr>)" using assms(1) by (simp add: test_machine_def)
  moreover have "nonce_counter (index v1) = nonce_counter (index v) \<and>
      unat (data_nonce_counter (index v1)) = Suc (unat (data_nonce_counter (index v))) \<and>
      length (files (index v1)) \<le> Suc (length (files (index v)))"
    by (rule store_ok [OF laws(5) c(2) st]) (simp add: length_alist_update unat_word_ariths)
  ultimately show thesis
    using st new apart by (intro that [of v1 "s\<lparr>ext := w\<rparr>"]) auto
qed

lemma exported:
  assumes "test_machine X s" "stands_for X N (s, v, pw) (pw, m)"
    and "unat (nonce_counter (index v)) < 2" "export_size X v \<le> MAX_VAULT_FILE_SIZE"
  obtains out v1 s1 u t where "export X v s = (Inr out, v1, s1)"
    "open_vault X pw out s1 = (Inr u, t)" "\<And>n. n \<in> N \<Longrightarrow> retrieve X u t n = Inr (m n)"
proof -
  have m: "env_works X" "mem_ok s" "finite (dom (heap s))"
    using assms(1) by (simp_all add: test_machine_def)
  have c: "vault_ok s v" "unlocked_by X pw s v" "\<forall>n \<in> N. retrieve X v s n = Inr (m n)"
    using assms(2) by (simp_all add: stands_for_def)
  obtain out v1 s1 where e: "export X v s = (Inr out, v1, s1)"
    by (rule export_works [OF m(1) c(1) _ assms(4)]) (use assms(3) in simp)
  have s1: "mem_ok s1" "finite (dom (heap s1))"
    using export_effect(7) [OF e] m by auto
  obtain u t where "open_vault X pw out s1 = (Inr u, t)"
    by (rule reopen_works [OF m(1) c(1,2) e s1(2)])
  with export_reopens [OF env_worksD(1) [OF m(1)] c(1,2) e s1(1)] c(3) e show thesis
    by (intro that) auto
qed

lemma extract_tests_pass:
  assumes "test_machine X s"
  shows "extract_enc_key_returns_32_bytes_for_valid_subkey X s"
    "extract_enc_key_rejects_wrong_length_subkey X s"
proof -
  have m: "env_works X" "memsec_laws X" "mem_ok s" "finite (dom (heap s))"
    using assms env_worksD(6) by (auto simp: test_machine_def)
  obtain ls s1 where "locked_secret_new X (replicate 32 7) s = (Inr ls, s1)"
    "secret_bytes s1 ls = Some (replicate 32 7)"
    by (rule locked_works [OF m(1,4), of "replicate 32 7"]) simp_all
  then show "extract_enc_key_returns_32_bytes_for_valid_subkey X s"
    by (simp add: extract_enc_key_returns_32_bytes_for_valid_subkey_def extract_enc_key_def Let_def)
  have rejects: "extract_rejects_lengths X lens t"
    if "finite (dom (heap t))" "\<forall>len \<in> set lens. len \<noteq> 0 \<and> len \<noteq> 32" for lens t
    using that
  proof (induction lens arbitrary: t)
    case (Cons len lens)
    have ne: "replicate len (1 :: byte) \<noteq> []" using Cons.prems(2) by (cases len) simp_all
    obtain ls t1 where new: "locked_secret_new X (replicate len 1) t = (Inr ls, t1)"
      "finite (dom (heap t1))"
      by (rule locked_secret_works [OF m(1) ne Cons.prems(1)])
    have "secret_bytes t1 ls = Some (replicate len 1)"
      by (simp add: secret_bytes_def locked_secret_new_ok(3) [OF m(2) new(1)])
    moreover have "dom (heap (locked_secret_drop X ls t1)) \<subseteq> dom (heap t1)"
      by (cases ls) (auto simp: locked_secret_drop_def locked_region_drop_def
          mem_defs Let_def)
    then have "finite (dom (heap (locked_secret_drop X ls t1)))"
      by (rule finite_subset) (rule new(2))
    ultimately show ?case
      using Cons new by (simp add: extract_enc_key_def)
  qed simp
  show "extract_enc_key_rejects_wrong_length_subkey X s"
    unfolding extract_enc_key_rejects_wrong_length_subkey_def by (rule rejects) (simp_all add: m(4))
qed

lemmas test_lengths = MIN_PASSWORD_LEN_def MAX_ENTRY_NAME_LEN_def MAX_ENTRY_DATA_SIZE_def

text \<open>A test that exports a new vault and opens it again.\<close>

lemma empty_roundtrip:
  assumes "test_machine X s" "MIN_PASSWORD_LEN \<le> length pw" "length pw < 2 ^ 32"
  shows "unwrap_with (create X pw s) (\<lambda>v s1.
     unwrap_with (export X v s1) (\<lambda>exported (v1, s2).
     unwrap_with (open_vault X pw exported s2) (\<lambda>reopened s3. True)))"
proof -
  obtain v s1 where v: "create X pw s = (Inr v, s1)" "\<And>n. stands_for X {n} (s1, v, pw) (pw, Map.empty)"
    "nonce_counter (index v) = 0" "export_size X v \<le> MAX_VAULT_FILE_SIZE" "test_machine X s1"
    by (rule created [OF assms]) blast
  obtain out v1 s2 u t where "export X v s1 = (Inr out, v1, s2)" "open_vault X pw out s2 = (Inr u, t)"
    by (rule exported [OF v(5,2) _ v(4)]) (simp_all add: v(3))
  with v(1) show ?thesis by simp
qed

text \<open>Tests that store one secret in a new vault, and read it there or in the reopened export.\<close>

lemma one_secret:
  assumes "test_machine X s" "MIN_PASSWORD_LEN \<le> length pw" "length pw < 2 ^ 32"
    and "length name \<le> MAX_ENTRY_NAME_LEN" "length p \<le> MAX_ENTRY_DATA_SIZE"
  obtains v s1 v1 s2 out v2 s3 u t where "create X pw s = (Inr v, s1)"
    "store X v s1 name p = (Inr (), v1, s2)" "stands_for X {name} (s2, v1, pw) (pw, [name \<mapsto> p])"
    "config_apart X {name} (s2, v1, pw)" "export X v1 s2 = (Inr out, v2, s3)"
    "open_vault X pw out s3 = (Inr u, t)" "retrieve X u t name = Inr (Some p)" "test_machine X s2"
proof -
  obtain v s1 where v: "create X pw s = (Inr v, s1)"
    "\<And>n. stands_for X {n} (s1, v, pw) (pw, Map.empty)" "files (index v) = []"
    "data_nonce_counter (index v) = 0" "nonce_counter (index v) = 0" "test_machine X s1"
    by (rule created [OF assms(1-3)]) blast
  have apart: "config_apart X {name} (s1, v, pw)"
    using v(6) by (simp add: test_machine_def single_apart)
  obtain v1 s2 where st: "store X v s1 name p = (Inr (), v1, s2)" "test_machine X s2"
    "stands_for X {name} (s2, v1, pw) (pw, [name \<mapsto> p])" "config_apart X {name} (s2, v1, pw)"
    "nonce_counter (index v1) = nonce_counter (index v)"
    "length (files (index v1)) \<le> Suc (length (files (index v)))"
    by (rule stored [OF v(6,2) apart _ _ _ assms(4,5)])
      (simp_all add: v(3,4) MAX_INDEX_ENTRIES_def)
  have "vault_ok s2 v1" using st(3) by (simp add: stands_for_def)
  then have size: "export_size X v1 \<le> MAX_VAULT_FILE_SIZE"
    using st(2,6) v(3) by (intro export_size_small) (simp_all add: test_machine_def)
  have zero: "unat (nonce_counter (index v1)) < 2" using st(5) v(5) by simp
  obtain out v2 s3 u t where "export X v1 s2 = (Inr out, v2, s3)"
    "open_vault X pw out s3 = (Inr u, t)"
    "\<And>n. n \<in> {name} \<Longrightarrow> retrieve X u t n = Inr ([name \<mapsto> p] n)"
    by (rule exported [OF st(2,3) zero size]) blast
  then show thesis using v(1) st(1-4) by (intro that) auto
qed

lemma retrieve_stands_for:
  "stands_for X N (s, v, pw) (pw', m) \<Longrightarrow> n \<in> N \<Longrightarrow> decrypt_secret X v s n = Inr (m n)"
  by (simp add: stands_for_def retrieve_def)

lemma roundtrip_tests_pass:
  assumes "test_machine X s"
  shows "create_and_export_open_roundtrip X s" "empty_vault_roundtrip X s"
    "store_and_retrieve_roundtrip X s" "store_empty_data X s"
    "with_secret_borrows_plaintext_and_returns_callback_value X s"
    "with_secret_supports_empty_plaintext X s" "with_secret_preserves_fallible_callback_result X s"
    "with_secret_missing_does_not_invoke_callback X s" "retrieve_missing_returns_none X s"
proof -
  show "create_and_export_open_roundtrip X s" "empty_vault_roundtrip X s"
    using empty_roundtrip [OF assms]
    by (simp_all add: create_and_export_open_roundtrip_def empty_vault_roundtrip_def test_lengths)
  note one = one_secret [OF assms]
  show "store_and_retrieve_roundtrip X s"
    by (rule one [of "ascii ''test-password''" "ascii ''api_key''" "ascii ''sk-secret-12345''"])
      (simp_all add: store_and_retrieve_roundtrip_def test_lengths)
  show "store_empty_data X s"
    by (rule one [of "ascii ''password''" "ascii ''empty''" "[]"])
      (simp_all add: store_empty_data_def test_lengths)
  show "with_secret_borrows_plaintext_and_returns_callback_value X s"
    by (rule one [of "ascii ''test-password''" "ascii ''api_key''" "ascii ''sk-secret-12345''"])
      (simp_all add: with_secret_borrows_plaintext_and_returns_callback_value_def with_secret_def
        retrieve_stands_for test_lengths)
  show "with_secret_supports_empty_plaintext X s"
    by (rule one [of "ascii ''test-password''" "ascii ''empty''" "[]"])
      (simp_all add: with_secret_supports_empty_plaintext_def with_secret_def
        retrieve_stands_for test_lengths)
  show "with_secret_preserves_fallible_callback_result X s"
    by (rule one [of "ascii ''test-password''" "ascii ''number''" "ascii ''42''"])
      (simp_all add: with_secret_preserves_fallible_callback_result_def with_secret_def
        retrieve_stands_for test_lengths)
  have missing: "create X pw s = (Inr v, s1) \<Longrightarrow>
      (\<And>n. stands_for X {n} (s1, v, pw) (pw, Map.empty)) \<Longrightarrow> decrypt_secret X v s1 n = Inr None"
    for pw v s1 n using retrieve_stands_for [of X "{n}" s1 v pw pw Map.empty n] by simp
  show "with_secret_missing_does_not_invoke_callback X s"
    by (rule created [OF assms, of "ascii ''test-password''"])
      (simp_all add: with_secret_missing_does_not_invoke_callback_def with_secret_def missing
        test_lengths)
  show "retrieve_missing_returns_none X s"
    by (rule created [OF assms, of "ascii ''password''"])
      (simp_all add: retrieve_missing_returns_none_def retrieve_def missing test_lengths)
qed

text \<open>Removing one of the names in use.\<close>

lemma remove_stands_for:
  assumes "env_works X" "stands_for X N (s, v, pw) (pw, m)" "config_apart X N (s, v, pw)" "n \<in> N"
  obtains v1 where "remove X v s n = (Inr (m n \<noteq> None), v1)"
    "stands_for X N (s, v1, pw) (pw, m(n := None))"
  using assms(2)
proof (rule stands_forD)
  fix ek hk
  assume c: "keys_live s (index v) ek hk"
    "\<forall>i \<in> N. read_secret X ek hk (files (index v)) i = Inr (m i)"
  have "length hk = SUBKEY_LEN" using c(1) by (simp add: keys_live_def)
  then obtain k where "name_key X hk n = Inr k" by (rule name_key_works [OF assms(1)])
  then obtain b v1 where r: "remove X v s n = (Inr b, v1)"
    by (cases "remove X v s n") (auto simp: remove_def keys_live_hmac [OF c(1)] split: prod.splits)
  have "stands_for X N (s, v1, pw) (pw, m(n := None))"
    using stands_for_remove [OF assms(2-4) r] by simp
  with r remove_read(2) [OF c(1) r] c(2) assms(4) show thesis by (intro that) auto
qed

lemma remove_tests_pass:
  assumes "test_machine X s"
  shows "remove_returns_true_for_existing X s" "remove_returns_false_for_missing X s"
proof -
  have m: "env_works X" using assms by (simp add: test_machine_def)
  obtain v s1 v1 s2 where a: "create X (ascii ''password'') s = (Inr v, s1)"
    "store X v s1 (ascii ''key'') (ascii ''value'') = (Inr (), v1, s2)"
    "stands_for X {ascii ''key''} (s2, v1, ascii ''password'')
       (ascii ''password'', [ascii ''key'' \<mapsto> ascii ''value''])"
    "config_apart X {ascii ''key''} (s2, v1, ascii ''password'')"
    by (rule one_secret [OF assms, of "ascii ''password''" "ascii ''key''" "ascii ''value''"])
      (simp_all add: test_lengths)
  show "remove_returns_true_for_existing X s"
    by (rule remove_stands_for [OF m a(3,4), of "ascii ''key''"])
      (simp_all add: remove_returns_true_for_existing_def a(1,2) stands_for_def)
  obtain v s1 where b: "create X (ascii ''password'') s = (Inr v, s1)"
    "\<And>n. stands_for X {n} (s1, v, ascii ''password'') (ascii ''password'', Map.empty)"
    by (rule created [OF assms, of "ascii ''password''"]) (simp_all add: test_lengths)
  have "config_apart X {ascii ''nonexistent''} (s1, v, ascii ''password'')"
    by (rule single_apart [OF m])
  then obtain v1 where "remove X v s1 (ascii ''nonexistent'') = (Inr False, v1)"
    by (rule remove_stands_for [OF m b(2), of "ascii ''nonexistent''"]) simp_all
  then show "remove_returns_false_for_missing X s"
    by (simp add: remove_returns_false_for_missing_def b(1))
qed

lemma refusal_tests_pass:
  assumes "test_machine X s"
  shows "change_password_rejects_short_new_password X s" "short_password_rejected X s"
    "long_entry_name_rejected X s"
proof -
  show "change_password_rejects_short_new_password X s"
    by (rule created [OF assms, of "ascii ''real-pwd!''"])
      (simp_all add: change_password_rejects_short_new_password_def change_password_def
        validate_password_def MIN_PASSWORD_LEN_def)
  show "short_password_rejected X s"
    by (simp add: short_password_rejected_def create_def validate_password_def MIN_PASSWORD_LEN_def)
  show "long_entry_name_rejected X s"
    by (rule created [OF assms, of "ascii ''password''"])
      (simp_all add: long_entry_name_rejected_def store_def MIN_PASSWORD_LEN_def Let_def
        length_concat sum_list_replicate)
qed

text \<open>Tests with several names pass where the HMAC separates the names.\<close>

definition names_separated :: "'w externals \<Rightarrow> bytes set \<Rightarrow> bool" where
  "names_separated X N \<longleftrightarrow> (\<forall>hk. length hk = SUBKEY_LEN \<longrightarrow> names_apart X hk N)"

lemma separated_apart: "names_separated X N \<Longrightarrow> config_apart X N c"
  by (cases c) (simp add: names_separated_def config_apart_def keys_live_def)

lemma multiple_entries_passes:
  assumes "test_machine X s" "names_separated X {ascii ''key1'', ascii ''key2'', ascii ''key3''}"
  shows "multiple_entries X s"
proof -
  let ?N = "{ascii ''key1'', ascii ''key2'', ascii ''key3''}" and ?pw = "ascii ''password''"
  let ?n1 = "ascii ''key1''" and ?n2 = "ascii ''key2''" and ?n3 = "ascii ''key3''"
  let ?m1 = "[?n1 \<mapsto> ascii ''value1'']"
  let ?m2 = "?m1(?n2 \<mapsto> ascii ''value2'')"
  let ?m3 = "?m2(?n3 \<mapsto> ascii ''value3'')"
  note apart = separated_apart [OF assms(2)]
  obtain v s1 where v: "create X ?pw s = (Inr v, s1)"
    "stands_for X ?N (s1, v, ?pw) (?pw, Map.empty)"
    "files (index v) = []" "nonce_counter (index v) = 0" "data_nonce_counter (index v) = 0"
    "test_machine X s1"
    by (rule created [OF assms(1), of ?pw]) (use apart in \<open>auto simp: test_lengths\<close>)
  obtain v1 s2 where 1: "store X v s1 ?n1 (ascii ''value1'') = (Inr (), v1, s2)" "test_machine X s2"
    "stands_for X ?N (s2, v1, ?pw) (?pw, ?m1)" "nonce_counter (index v1) = 0"
    "unat (data_nonce_counter (index v1)) = 1" "length (files (index v1)) \<le> 1"
    by (rule stored [OF v(6,2) apart, of ?n1 "ascii ''value1''"])
      (simp_all add: v(3-5) test_lengths MAX_INDEX_ENTRIES_def)
  obtain v2 s3 where 2: "store X v1 s2 ?n2 (ascii ''value2'') = (Inr (), v2, s3)" "test_machine X s3"
    "stands_for X ?N (s3, v2, ?pw) (?pw, ?m2)" "nonce_counter (index v2) = 0"
    "unat (data_nonce_counter (index v2)) = 2" "length (files (index v2)) \<le> 2"
    by (rule stored [OF 1(2,3) apart, of ?n2 "ascii ''value2''"])
      (use 1(4-6) in \<open>auto simp: test_lengths MAX_INDEX_ENTRIES_def\<close>)
  obtain v3 s4 where 3: "store X v2 s3 ?n3 (ascii ''value3'') = (Inr (), v3, s4)" "test_machine X s4"
    "stands_for X ?N (s4, v3, ?pw) (?pw, ?m3)" "nonce_counter (index v3) = 0"
    "length (files (index v3)) \<le> 3"
    by (rule stored [OF 2(2,3) apart, of ?n3 "ascii ''value3''"])
      (use 2(4-6) in \<open>auto simp: test_lengths MAX_INDEX_ENTRIES_def\<close>)
  have "export_size X v3 \<le> MAX_VAULT_FILE_SIZE"
    using 3(2,3,5) by (intro export_size_small) (auto simp: test_machine_def stands_for_def)
  moreover have "unat (nonce_counter (index v3)) < 2" by (simp add: 3(4))
  ultimately obtain out v4 s5 u t where "export X v3 s4 = (Inr out, v4, s5)"
    "open_vault X ?pw out s5 = (Inr u, t)" "\<And>n. n \<in> ?N \<Longrightarrow> retrieve X u t n = Inr (?m3 n)"
    by (rule_tac exported [OF 3(2,3)]) blast+
  moreover have "?n1 \<noteq> ?n2" "?n1 \<noteq> ?n3" "?n2 \<noteq> ?n3" by (simp_all add: ascii_def)
  ultimately show ?thesis
    by (simp add: multiple_entries_def v(1) 1(1) 2(1) 3(1))
qed

text \<open>The directory is fresh: no temporary file is in it.\<close>

lemma save_and_load_passes:
  assumes "test_machine X s"
    and "\<And>suffix. tree fs (resolve (save_tmp_path (path_join dir ''vault.seal'') suffix)) = None"
  shows "save_and_load_roundtrip X fs dir s"
proof -
  let ?pw = "ascii ''file-password''" and ?n = "ascii ''secret''"
    and ?p = "ascii ''file-stored-value''" and ?path = "path_join dir ''vault.seal''"
  obtain v s1 v1 s2 out v2 s3 where r: "create X ?pw s = (Inr v, s1)"
    "store X v s1 ?n ?p = (Inr (), v1, s2)" "stands_for X {?n} (s2, v1, ?pw) (?pw, [?n \<mapsto> ?p])"
    "export X v1 s2 = (Inr out, v2, s3)" and tm: "test_machine X s2"
    by (rule one_secret [OF assms(1), of ?pw ?n ?p]) (simp_all add: test_lengths)
  have m: "env_works X" using assms(1) by (simp add: test_machine_def)
  have v1: "vault_ok s2 v1" "unlocked_by X ?pw s2 v1" "retrieve X v1 s2 ?n = Inr (Some ?p)"
    using r(3) by (simp_all add: stands_for_def)
  have size: "unat (nonce_counter (index v1)) + 1 < 2 ^ 64 \<and> export_size X v1 \<le> MAX_VAULT_FILE_SIZE"
    using r(4) export_works_iff [OF m v1(1)] by blast
  obtain v4 s4 fs1 where sv: "save X no_faults v1 s2 fs ?path = (Inr (), v4, s4, fs1)"
    using size by (elim conjE) (rule save_works [OF m v1(1) _ _ assms(2)])
  have s4: "mem_ok s4" "finite (dom (heap s4))"
    using tm by (auto simp: test_machine_def intro: save_ok [OF env_worksD(1) [OF m] v1(1) sv])
  obtain w t where "load_vault X no_faults fs1 ?path ?pw s4 = (Inr w, t)"
    "\<And>n. retrieve X w t n = retrieve X v1 s2 n"
    by (rule saved_loads [OF m v1(1,2) sv s4]) blast
  then show ?thesis
    using v1(3) by (simp add: save_and_load_roundtrip_def Let_def r(1,2) sv)
qed

end
