(* ===== verification/TamperTests.thy ===== *)
theory TamperTests
  imports FacadeTests
begin

text \<open>
  The unit tests of the facade (\<open>mod tests\<close> of \<open>src/vault/facade.rs\<close>) on untrusted input: the
  header policy, files that are cut or carry a wrong header length, and indexes that are sealed
  correctly but out of bounds (\<open>forge_export\<close>). The tests that expect a wrong password or a changed
  ciphertext to be noticed are in \<open>AuthTests\<close>, those that edit the JSON of the header in
  \<open>JsonTests\<close>, those that expect random bytes to differ in \<open>FreshTests\<close>, and those on the binary
  fixture in \<open>LegacyTests\<close>.
\<close>

section \<open>The header policy and the size bound\<close>

definition header_validation_rejects_extreme_memory :: bool where
  "header_validation_rejects_extreme_memory \<longleftrightarrow>
     is_err (validate_header (vault_header_new (replicate 16 0) 4 (MAX_KDF_MEMORY + 1) 32))"

definition header_validation_rejects_zero_iterations :: bool where
  "header_validation_rejects_zero_iterations \<longleftrightarrow>
     is_err (validate_header (vault_header_new (replicate 16 0) 0 131072 32))"

definition header_validation_rejects_wrong_version :: bool where
  "header_validation_rejects_wrong_version \<longleftrightarrow>
     is_err (validate_header ((vault_header_new (replicate 16 0) 4 131072 32)\<lparr>version := 99\<rparr>))"

definition header_validation_rejects_wrong_key_length :: bool where
  "header_validation_rejects_wrong_key_length \<longleftrightarrow>
     is_err (validate_header (vault_header_new (replicate 16 0) 4 131072 16))"

definition header_validation_rejects_below_minimum_memory :: bool where
  "header_validation_rejects_below_minimum_memory \<longleftrightarrow>
     is_err (validate_header (vault_header_new (replicate 16 0) 4 (MIN_KDF_MEMORY - 1) 32))"

definition header_validation_rejects_iterations_above_max :: bool where
  "header_validation_rejects_iterations_above_max \<longleftrightarrow>
     is_err (validate_header (vault_header_new (replicate 16 0) (MAX_KDF_ITERATIONS + 1) 131072 32))"

definition header_validation_rejects_iterations_below_min :: bool where
  "header_validation_rejects_iterations_below_min \<longleftrightarrow>
     is_err (validate_header (vault_header_new (replicate 16 0) (MIN_KDF_ITERATIONS - 1) 131072 32))"

definition header_validation_accepts_inclusive_bounds_and_defaults :: bool where
  "header_validation_accepts_inclusive_bounds_and_defaults \<longleftrightarrow>
     list_all (\<lambda>(iterations, memory).
         \<not> is_err (validate_header (vault_header_new (replicate 16 0) iterations memory 32)))
       [(ITERATIONS, MEMORY_COST), (MIN_KDF_ITERATIONS, MIN_KDF_MEMORY),
        (MAX_KDF_ITERATIONS, MAX_KDF_MEMORY)]"

definition export_size_validation_boundary :: bool where
  "export_size_validation_boundary \<longleftrightarrow>
     \<not> is_err (validate_export_size MAX_VAULT_FILE_SIZE) \<and>
     (case validate_export_size (MAX_VAULT_FILE_SIZE + 1) of
        Inl (SerializationError m) \<Rightarrow> True | _ \<Rightarrow> False)"

lemma policy_tests_pass:
  "header_validation_rejects_extreme_memory" "header_validation_rejects_zero_iterations"
  "header_validation_rejects_wrong_version" "header_validation_rejects_wrong_key_length"
  "header_validation_rejects_below_minimum_memory" "header_validation_rejects_iterations_above_max"
  "header_validation_rejects_iterations_below_min"
  "header_validation_accepts_inclusive_bounds_and_defaults" "export_size_validation_boundary"
  by (simp_all add: header_validation_rejects_extreme_memory_def
      header_validation_rejects_zero_iterations_def header_validation_rejects_wrong_version_def
      header_validation_rejects_wrong_key_length_def header_validation_rejects_below_minimum_memory_def
      header_validation_rejects_iterations_above_max_def
      header_validation_rejects_iterations_below_min_def
      header_validation_accepts_inclusive_bounds_and_defaults_def export_size_validation_boundary_def
      is_err_def validate_header_def validate_export_size_def vault_header_new_def const_defs)

section \<open>Raw bytes\<close>

text \<open>\<open>matches!(result, Err(VaultError::CorruptedData(_)))\<close>\<close>

definition rejected_as_corrupted :: "(vault_error + vault) \<times> 'w sys \<Rightarrow> bool" where
  "rejected_as_corrupted r = (case r of (Inl e, s) \<Rightarrow> is_corrupted e | _ \<Rightarrow> False)"

text \<open>\<open>data[..4].copy_from_slice(&n.to_le_bytes())\<close>\<close>

definition with_header_len :: "u32 \<Rightarrow> bytes \<Rightarrow> bytes" where
  "with_header_len n data = u32_to_le n @ drop 4 data"

definition header_len_of :: "bytes \<Rightarrow> nat" where
  "header_len_of data = unat (u32_from_le (take 4 data))"

definition header_len_overflow_rejected :: "'w externals \<Rightarrow> 'w sys \<Rightarrow> bool" where
  "header_len_overflow_rejected X s \<longleftrightarrow>
     (let data = with_header_len (2 ^ 32 - 1) (replicate 100 0)
      in is_err (fst (open_vault X (ascii ''password'') data s)))"

definition open_rejects_empty_input :: "'w externals \<Rightarrow> 'w sys \<Rightarrow> bool" where
  "open_rejects_empty_input X s \<longleftrightarrow>
     rejected_as_corrupted (open_vault X (ascii ''password'') [] s)"

definition open_rejects_input_below_header_len_field :: "'w externals \<Rightarrow> 'w sys \<Rightarrow> bool" where
  "open_rejects_input_below_header_len_field X s \<longleftrightarrow>
     rejected_as_corrupted (open_vault X (ascii ''password'') [0, 0, 0] s)"

definition open_rejects_zero_header_len :: "'w externals \<Rightarrow> 'w sys \<Rightarrow> bool" where
  "open_rejects_zero_header_len X s \<longleftrightarrow>
     (let data = with_header_len 0 (replicate (4 + XCHACHA20_NONCE_LEN) 0)
      in rejected_as_corrupted (open_vault X (ascii ''password'') data s))"

definition open_rejects_header_len_exceeding_available_bytes :: "'w externals \<Rightarrow> 'w sys \<Rightarrow> bool" where
  "open_rejects_header_len_exceeding_available_bytes X s \<longleftrightarrow>
     (let data = with_header_len 1000 (replicate 64 0)
      in rejected_as_corrupted (open_vault X (ascii ''password'') data s))"

definition open_rejects_header_len_above_cap_before_parsing :: "'w externals \<Rightarrow> 'w sys \<Rightarrow> bool" where
  "open_rejects_header_len_above_cap_before_parsing X s \<longleftrightarrow>
     (let header_len = MAX_HEADER_JSON_LEN + 1;
          data = with_header_len (of_nat header_len)
            (replicate (4 + header_len + XCHACHA20_NONCE_LEN) 123)
      in corrupted_with ''Header length'' (fst (open_vault X (ascii ''password'') data s)))"

definition open_accepts_header_len_at_cap_then_fails_on_json :: "'w externals \<Rightarrow> 'w sys \<Rightarrow> bool" where
  "open_accepts_header_len_at_cap_then_fails_on_json X s \<longleftrightarrow>
     (let header_len = MAX_HEADER_JSON_LEN;
          data = with_header_len (of_nat header_len)
            (replicate (4 + header_len + XCHACHA20_NONCE_LEN) 123)
      in corrupted_with ''Invalid header JSON'' (fst (open_vault X (ascii ''password'') data s)))"

definition open_rejects_data_above_file_size_cap :: "'w externals \<Rightarrow> 'w sys \<Rightarrow> bool" where
  "open_rejects_data_above_file_size_cap X s \<longleftrightarrow>
     rejected_as_corrupted
       (open_vault X (ascii ''password-hhhh'') (replicate (MAX_VAULT_FILE_SIZE + 1) 0) s)"

text \<open>A vault with one entry, written out; it is dropped when the helper returns.\<close>

definition make_valid_export ::
  "'w externals \<Rightarrow> bytes \<Rightarrow> 'w sys \<Rightarrow> (vault_error + bytes) \<times> 'w sys" where
  "make_valid_export X password s =
     (case create X password s of
        (Inl e, s1) \<Rightarrow> (Inl e, s1)
      | (Inr v, s1) \<Rightarrow>
     (case store X v s1 (ascii ''k'') (ascii ''v'') of
        (Inl e, v1, s2) \<Rightarrow> (Inl e, vault_index_drop X (index v1) s2)
      | (Inr _, v1, s2) \<Rightarrow>
     (case export X v1 s2 of (r, v2, s3) \<Rightarrow> (r, vault_index_drop X (index v2) s3))))"

definition open_rejects_truncation_inside_nonce_region :: "'w externals \<Rightarrow> 'w sys \<Rightarrow> bool" where
  "open_rejects_truncation_inside_nonce_region X s \<longleftrightarrow>
     unwrap_with (make_valid_export X (ascii ''password-aaaa'') s) (\<lambda>valid s1.
     let nonce_start = 4 + header_len_of valid;
         truncated = take (nonce_start + XCHACHA20_NONCE_LEN div 2) valid
     in rejected_as_corrupted (open_vault X (ascii ''password-aaaa'') truncated s1))"

definition open_rejects_missing_ciphertext_after_nonce :: "'w externals \<Rightarrow> 'w sys \<Rightarrow> bool" where
  "open_rejects_missing_ciphertext_after_nonce X s \<longleftrightarrow>
     unwrap_with (make_valid_export X (ascii ''password-cccc'') s) (\<lambda>valid s1.
     let cut = 4 + header_len_of valid + XCHACHA20_NONCE_LEN
     in (case open_vault X (ascii ''password-cccc'') (take cut valid) s1 of
           (Inl InvalidPassword, s2) \<Rightarrow> True | _ \<Rightarrow> False))"

definition replace_header_json :: "bytes \<Rightarrow> bytes \<Rightarrow> bytes" where
  "replace_header_json exported new_header_json =
     (let after_old_header = 4 + header_len_of exported
      in u32_to_le (of_nat (length new_header_json)) @ new_header_json @
         drop after_old_header exported)"

definition open_rejects_malformed_header_json :: "'w externals \<Rightarrow> 'w sys \<Rightarrow> bool" where
  "open_rejects_malformed_header_json X s \<longleftrightarrow>
     unwrap_with (make_valid_export X (ascii ''password-dddd'') s) (\<lambda>valid s1.
     let tampered = replace_header_json valid (ascii ''{'')
     in rejected_as_corrupted (open_vault X (ascii ''password-dddd'') tampered s1))"

definition parse_envelope_splits_a_valid_export :: "'w externals \<Rightarrow> 'w sys \<Rightarrow> bool" where
  "parse_envelope_splits_a_valid_export X s \<longleftrightarrow>
     unwrap_with (create X (ascii ''password-env'') s) (\<lambda>v s1.
     unwrap_with (store X v s1 (ascii ''k'') (ascii ''v'')) (\<lambda>u (v1, s2).
     unwrap_with (export X v1 s2) (\<lambda>data (v2, s3).
     unwrap (parse_envelope X data) (\<lambda>env.
     version (env_header env) = VAULT_VERSION \<and>
     unwrap (to_aad_bytes X (env_header env)) (\<lambda>a. unwrap (to_aad_bytes X (header v2)) (\<lambda>b. a = b)) \<and>
     env_nonce env = nonce (index v2) \<and>
     length (env_encrypted_index env) =
       length data - (4 + header_len_of data + XCHACHA20_NONCE_LEN)))))"

section \<open>They pass\<close>

text \<open>Opening braces alone, or nothing, are no JSON value.\<close>

definition braces_are_not_json :: "'w externals \<Rightarrow> bool" where
  "braces_are_not_json X \<longleftrightarrow> (\<forall>n. isl (header_from_json X (replicate n 123)))"

lemma rejects_unparsable:
  assumes "json_laws X" "isl (parse_envelope X data)"
  shows "rejected_as_corrupted (open_vault X pw data s)"
  using assms parse_envelope_err [OF assms(1)]
  by (cases "parse_envelope X data") (auto simp: rejected_as_corrupted_def open_vault_def)

lemma header_len_with [simp]: "header_len_of (with_header_len n data) = unat n"
  by (simp add: header_len_of_def with_header_len_def)

lemma length_with_header_len: "4 \<le> length data \<Longrightarrow> length (with_header_len n data) = length data"
  by (simp add: with_header_len_def)

text \<open>What the parser checks before it looks at the header.\<close>

lemma parse_envelope_short:
  assumes "length data < 4 \<or> MAX_HEADER_JSON_LEN < header_len_of data \<or>
    length data < 4 + header_len_of data + XCHACHA20_NONCE_LEN"
  shows "isl (parse_envelope X data)"
  using assms by (auto simp: parse_envelope_def header_len_of_def Let_def)

lemma parse_envelope_bad_json:
  assumes "isl (header_from_json X (take (header_len_of data) (drop 4 data)))"
  shows "isl (parse_envelope X data)"
  using assms by (auto simp: parse_envelope_def header_len_of_def Let_def isl_def)

lemma raw_tests_pass:
  assumes "json_laws X"
  shows "header_len_overflow_rejected X s" "open_rejects_empty_input X s"
    "open_rejects_input_below_header_len_field X s"
    "open_rejects_header_len_exceeding_available_bytes X s"
    "open_rejects_header_len_above_cap_before_parsing X s"
    "open_rejects_data_above_file_size_cap X s"
proof -
  note rejects = rejects_unparsable [OF assms parse_envelope_short]
  have "is_err (fst (open_vault X pw data t))" if "isl (parse_envelope X data)" for pw data t
    using that by (cases "parse_envelope X data") (simp_all add: open_vault_def is_err_def)
  from this [OF parse_envelope_short] show "header_len_overflow_rejected X s"
    by (simp add: header_len_overflow_rejected_def MAX_HEADER_JSON_LEN_def)
  show "open_rejects_empty_input X s" "open_rejects_input_below_header_len_field X s"
    by (simp_all add: open_rejects_empty_input_def open_rejects_input_below_header_len_field_def
        rejects)
  show "open_rejects_header_len_exceeding_available_bytes X s"
    by (simp add: open_rejects_header_len_exceeding_available_bytes_def rejects
        length_with_header_len)
  let ?data = "with_header_len (of_nat (MAX_HEADER_JSON_LEN + 1))
    (replicate (4 + (MAX_HEADER_JSON_LEN + 1) + XCHACHA20_NONCE_LEN) 123)"
  have "length ?data = 4 + (MAX_HEADER_JSON_LEN + 1) + XCHACHA20_NONCE_LEN"
    by (simp only: length_with_header_len length_replicate)
  moreover have "header_len_of ?data = MAX_HEADER_JSON_LEN + 1"
    by (simp add: MAX_HEADER_JSON_LEN_def)
  ultimately have "parse_envelope X ?data = Inl (CorruptedData (fmt ''Header length {} exceeds maximum {}''
      [dec (MAX_HEADER_JSON_LEN + 1), dec MAX_HEADER_JSON_LEN]))"
    unfolding parse_envelope_def header_len_of_def by (simp add: Let_def const_defs)
  then show "open_rejects_header_len_above_cap_before_parsing X s"
    by (simp add: open_rejects_header_len_above_cap_before_parsing_def Let_def open_vault_def fmt.simps)
  have "isl (parse_envelope X data)" if "MAX_VAULT_FILE_SIZE < length data" for data
    using that by (simp add: parse_envelope_def)
  from rejects_unparsable [OF assms this] show "open_rejects_data_above_file_size_cap X s"
    by (simp add: open_rejects_data_above_file_size_cap_def)
qed

lemma brace_tests_pass:
  assumes "json_laws X" "braces_are_not_json X"
  shows "open_rejects_zero_header_len X s" "open_accepts_header_len_at_cap_then_fails_on_json X s"
proof -
  have empty: "isl (header_from_json X [])"
    using assms(2) [unfolded braces_are_not_json_def, rule_format, of 0] by simp
  show "open_rejects_zero_header_len X s"
    unfolding open_rejects_zero_header_len_def Let_def
    by (rule rejects_unparsable [OF assms(1) parse_envelope_bad_json]) (simp add: empty)
  let ?data = "with_header_len (of_nat MAX_HEADER_JSON_LEN)
    (replicate (4 + MAX_HEADER_JSON_LEN + XCHACHA20_NONCE_LEN) 123)"
  have hl: "unat (u32_from_le (take 4 ?data)) = MAX_HEADER_JSON_LEN"
    by (simp add: with_header_len_def MAX_HEADER_JSON_LEN_def)
  have len: "length ?data = 4 + MAX_HEADER_JSON_LEN + XCHACHA20_NONCE_LEN"
    by (simp add: length_with_header_len)
  have "take MAX_HEADER_JSON_LEN (drop 4 ?data) = replicate MAX_HEADER_JSON_LEN 123"
    by (simp add: with_header_len_def)
  moreover obtain e where "header_from_json X (replicate MAX_HEADER_JSON_LEN 123) = Inl e"
    using assms(2) unfolding braces_are_not_json_def isl_def by blast
  ultimately have "parse_envelope X ?data =
      Inl (CorruptedData (fmt ''Invalid header JSON: {}'' [e]))"
    unfolding parse_envelope_def hl len by (simp add: Let_def const_defs)
  then show "open_accepts_header_len_at_cap_then_fails_on_json X s"
    by (simp add: open_accepts_header_len_at_cap_then_fails_on_json_def Let_def open_vault_def fmt.simps)
qed

text \<open>The parts of the file \<open>make_valid_export\<close> writes.\<close>

lemma exported_parts:
  assumes "ext_laws X" "vault_ok s v" "unlocked_by X pw s v" "export X v s = (Inr out, v1, s1)"
  obtains hj n c ek hk where "out = assemble_envelope hj n c" "length n = XCHACHA20_NONCE_LEN"
    "length hj \<le> MAX_HEADER_JSON_LEN" "header_to_json X (header v) = Inr hj"
    "header_from_json X hj = Inr (header v)" "nonce (index v1) = n"
    "password_keys X pw (header v) = Inr (ek, hk)" "length out \<le> MAX_VAULT_FILE_SIZE"
proof -
  from assms(3) obtain ek hk where keys: "password_keys X pw (header v) = Inr (ek, hk)"
    and live: "keys_live s (index v) ek hk" by (auto simp: unlocked_by_def)
  have idx: "index_ok (index v)" and salt: "length (kdf_salt (header v)) = SALT_LEN"
    using assms(2) by (simp_all add: vault_ok_def)
  obtain b where b: "header_to_json X (header v) = Inr b" "length b \<le> MAX_HEADER_JSON_LEN"
    "header_from_json X b = Inr (header v)"
    by (rule to_aad_bytes_ok [OF ext_lawsD(5) [OF assms(1)] salt])
  show thesis
    by (rule export_ok [OF assms(1) idx live assms(4)]) (use b keys that in auto)
qed

lemma header_len_of_assembled:
  "length hj \<le> MAX_HEADER_JSON_LEN \<Longrightarrow> header_len_of (assemble_envelope hj n c) = length hj"
  by (simp add: header_len_of_def assemble_envelope_def unat_u32_of_nat const_defs)

lemma valid_export_works:
  assumes "test_machine X s" "MIN_PASSWORD_LEN \<le> length pw" "length pw < 2 ^ 32"
  obtains valid s1 h hj n c ek hk where "make_valid_export X pw s = (Inr valid, s1)"
    "valid = assemble_envelope hj n c" "length n = XCHACHA20_NONCE_LEN"
    "length hj \<le> MAX_HEADER_JSON_LEN" "header_to_json X h = Inr hj" "header_from_json X hj = Inr h"
    "header_in_policy h" "version h = VAULT_VERSION" "password_keys X pw h = Inr (ek, hk)"
proof -
  obtain v s1 v1 s2 out v2 s3 where r: "create X pw s = (Inr v, s1)"
    "store X v s1 (ascii ''k'') (ascii ''v'') = (Inr (), v1, s2)"
    "stands_for X {ascii ''k''} (s2, v1, pw) (pw, [ascii ''k'' \<mapsto> ascii ''v''])"
    "export X v1 s2 = (Inr out, v2, s3)"
    by (rule one_secret [OF assms, of "ascii ''k''" "ascii ''v''"]) (simp_all add: test_lengths)
  have X: "ext_laws X" using assms(1) by (simp add: test_machine_def env_works_def)
  have v1: "vault_ok s2 v1" "unlocked_by X pw s2 v1" using r(3) by (simp_all add: stands_for_def)
  then have "header_in_policy (header v1)" "version (header v1) = VAULT_VERSION"
    by (simp_all add: vault_ok_def)
  then show thesis
    by (rule_tac exported_parts [OF X v1 r(4)]) (rule that, auto simp: make_valid_export_def r)
qed

lemma cut_tests_pass:
  assumes "test_machine X s"
  shows "open_rejects_truncation_inside_nonce_region X s"
    "open_rejects_missing_ciphertext_after_nonce X s"
proof -
  have json: "json_laws X" using assms env_worksD(9) by (auto simp: test_machine_def)
  obtain valid s1 h hj n c where a: "make_valid_export X (ascii ''password-aaaa'') s = (Inr valid, s1)"
    "valid = assemble_envelope hj n c" "length n = XCHACHA20_NONCE_LEN"
    "length hj \<le> MAX_HEADER_JSON_LEN"
    by (rule valid_export_works [OF assms, of "ascii ''password-aaaa''"]) (simp_all add: test_lengths)
  let ?cut = "take (4 + length hj + XCHACHA20_NONCE_LEN div 2) valid"
  have "header_len_of ?cut = header_len_of valid" by (simp add: header_len_of_def)
  then have "length ?cut < 4 + header_len_of ?cut + XCHACHA20_NONCE_LEN"
    using header_len_of_assembled [OF a(4)] by (simp add: a(2) XCHACHA20_NONCE_LEN_def)
  then have "rejected_as_corrupted (open_vault X pw ?cut s1)" for pw
    by (intro rejects_unparsable [OF json] parse_envelope_short) simp
  with a(1) show "open_rejects_truncation_inside_nonce_region X s"
    using header_len_of_assembled [OF a(4)]
    by (simp add: open_rejects_truncation_inside_nonce_region_def a(2))
  obtain valid s1 h hj n c ek hk where b: "make_valid_export X (ascii ''password-cccc'') s = (Inr valid, s1)"
    "valid = assemble_envelope hj n c" "length n = XCHACHA20_NONCE_LEN"
    "length hj \<le> MAX_HEADER_JSON_LEN" "header_to_json X h = Inr hj" "header_from_json X hj = Inr h"
    "header_in_policy h" "version h = VAULT_VERSION"
    "password_keys X (ascii ''password-cccc'') h = Inr (ek, hk)"
    by (rule valid_export_works [OF assms, of "ascii ''password-cccc''"]) (simp_all add: test_lengths)
  let ?cut = "take (4 + length hj + XCHACHA20_NONCE_LEN) valid"
  have cut: "?cut = u32_to_le (of_nat (length hj)) @ hj @ n @ [] @ []"
    using b(3) by (simp add: b(2) assemble_envelope_def)
  have "parse_envelope X ?cut = Inr \<lparr>env_header = h, env_nonce = n, env_encrypted_index = []\<rparr>"
    using b(3,4) by (intro parse_envelope_layout [OF b(5,6,7,4,3) _ cut])
      (simp_all add: cut legacy_gap_def b(8) const_defs)
  with b(9) have "open_vault X (ascii ''password-cccc'') ?cut s1 = (Inl InvalidPassword, s1)"
    by (auto simp: open_vault_def open_index_def to_aad_bytes_def b(5) open_with_aad_too_short
        POLY1305_OUTSIZE_def password_keys_def and_then_Inr_iff map_err_Inr_iff)
  with b(1) show "open_rejects_missing_ciphertext_after_nonce X s"
    using header_len_of_assembled [OF b(4)]
    by (simp add: open_rejects_missing_ciphertext_after_nonce_def b(2))
qed

lemma malformed_test_passes:
  assumes "test_machine X s" "braces_are_not_json X"
  shows "open_rejects_malformed_header_json X s"
proof -
  have json: "json_laws X" using assms(1) env_worksD(9) by (auto simp: test_machine_def)
  obtain valid s1 where a: "make_valid_export X (ascii ''password-dddd'') s = (Inr valid, s1)"
    by (rule valid_export_works [OF assms(1), of "ascii ''password-dddd''"])
      (simp_all add: test_lengths)
  let ?bad = "replace_header_json valid (ascii ''{'')"
  have "ascii ''{'' = replicate 1 123" by (simp add: ascii_def)
  then have "take (header_len_of ?bad) (drop 4 ?bad) = replicate 1 123"
    by (simp add: replace_header_json_def header_len_of_def Let_def)
  then have "isl (parse_envelope X ?bad)"
    using assms(2) unfolding braces_are_not_json_def by (intro parse_envelope_bad_json) metis
  from rejects_unparsable [OF json this] show ?thesis
    by (simp add: open_rejects_malformed_header_json_def a)
qed

lemma split_test_passes:
  assumes "test_machine X s"
  shows "parse_envelope_splits_a_valid_export X s"
proof -
  let ?pw = "ascii ''password-env''"
  obtain v s1 v1 s2 out v2 s3 where r: "create X ?pw s = (Inr v, s1)"
    "store X v s1 (ascii ''k'') (ascii ''v'') = (Inr (), v1, s2)"
    "stands_for X {ascii ''k''} (s2, v1, ?pw) (?pw, [ascii ''k'' \<mapsto> ascii ''v''])"
    "export X v1 s2 = (Inr out, v2, s3)"
    by (rule one_secret [OF assms, of ?pw "ascii ''k''" "ascii ''v''"]) (simp_all add: test_lengths)
  have X: "ext_laws X" using assms by (simp add: test_machine_def env_works_def)
  have v1: "vault_ok s2 v1" "unlocked_by X ?pw s2 v1" using r(3) by (simp_all add: stands_for_def)
  then have pol: "header_in_policy (header v1)" "version (header v1) = VAULT_VERSION"
    by (simp_all add: vault_ok_def)
  obtain hj n c where out: "out = assemble_envelope hj n c" "length n = XCHACHA20_NONCE_LEN"
    "length hj \<le> MAX_HEADER_JSON_LEN" "header_to_json X (header v1) = Inr hj"
    "header_from_json X hj = Inr (header v1)" "nonce (index v2) = n"
    "length out \<le> MAX_VAULT_FILE_SIZE"
    by (rule exported_parts [OF X v1 r(4)])
  have "parse_envelope X out = Inr \<lparr>env_header = header v1, env_nonce = n, env_encrypted_index = c\<rparr>"
    using out(2,7) by (intro parse_envelope_layout [OF out(4,5) pol(1) out(3,2), of "[]"])
      (simp_all add: legacy_gap_def pol(2) out(1) assemble_envelope_def const_defs)
  moreover have "header v2 = header v1" by (rule export_effect(1) [OF r(4)])
  ultimately show ?thesis
    using header_len_of_assembled [OF out(3)]
    by (simp add: parse_envelope_splits_a_valid_export_def r to_aad_bytes_def out(1,2,4,6) pol(2))
      (simp add: assemble_envelope_def out(2))
qed

end
