(* ===== verification/ForgeTests.thy ===== *)
theory ForgeTests
  imports TamperTests
begin

text \<open>
  The unit tests of the facade on forged files (group E of \<open>mod tests\<close> in
  \<open>src/vault/facade.rs\<close>): an index of unvalidated entries, sealed correctly under the key the
  password derives. \<open>open\<close> must hold an authenticated index to the bounds of the format too.
\<close>

section \<open>The forger and the tests\<close>

text \<open>\<open>Inl ()\<close> is a panic.\<close>

definition forge_export ::
  "'w externals \<Rightarrow> bytes \<Rightarrow> u32 \<Rightarrow> (bytes \<times> index_entry) list \<Rightarrow> 'w sys \<Rightarrow>
    (unit + bytes) \<times> 'w sys" where
  "forge_export X password declared_count entries s =
     (case vault_header_generate X s of
        (Inl _, s1) \<Rightarrow> (Inl (), s1)
      | (Inr h, s1) \<Rightarrow>
     (case derive_master_key X password h of
        Inl _ \<Rightarrow> (Inl (), s1)
      | Inr master_key \<Rightarrow>
     (case derive_subkeys X master_key (kdf_salt h) of
        Inl _ \<Rightarrow> (Inl (), s1)
      | Inr (enc_sub, hmac_sub) \<Rightarrow>
     (case secure_bytes_fill X XCHACHA20_NONCE_LEN s1 of
        (Inl _, s2) \<Rightarrow> (Inl (), s2)
      | (Inr n, s2) \<Rightarrow>
     (let index_bytes = raw_encode VAULT_INDEX_VERSION 1 1 declared_count entries in
      (and_then (map_err (\<lambda>_. ()) (to_aad_bytes X h)) (\<lambda>aad.
       and_then (map_err (\<lambda>_. ()) (seal_with_aad X enc_sub n index_bytes aad)) (\<lambda>encrypted_index.
       and_then (map_err (\<lambda>_. ()) (header_to_json X h)) (\<lambda>header_json.
       Inr (assemble_envelope header_json n encrypted_index)))), s2))))))"

definition forged_entries :: "nat \<Rightarrow> (bytes \<times> index_entry) list" where
  "forged_entries entry_count =
     map (\<lambda>i. (u64_to_le (of_nat i) @ replicate (ENTRY_KEY_LEN - 8) 0,
               entry 0 MIN_ENCRYPTED_LEN MIN_ENCRYPTED_LEN)) [0..<entry_count]"

definition forge_export_with_entries ::
  "'w externals \<Rightarrow> bytes \<Rightarrow> nat \<Rightarrow> 'w sys \<Rightarrow> (unit + bytes) \<times> 'w sys" where
  "forge_export_with_entries X password entry_count s =
     forge_export X password (of_nat entry_count) (forged_entries entry_count) s"

definition open_accepts_index_at_entry_cap :: "'w externals \<Rightarrow> 'w sys \<Rightarrow> bool" where
  "open_accepts_index_at_entry_cap X s \<longleftrightarrow>
     (let password = ascii ''password-cap-ok''; m = MAX_INDEX_ENTRIES in
      unwrap_with (forge_export_with_entries X password m s) (\<lambda>data s1.
      unwrap_with (open_vault X password data s1) (\<lambda>v s2. length (files (index v)) = m)))"

definition open_rejects_index_over_entry_cap :: "'w externals \<Rightarrow> 'w sys \<Rightarrow> bool" where
  "open_rejects_index_over_entry_cap X s \<longleftrightarrow>
     (let password = ascii ''password-cap-no''; m = MAX_INDEX_ENTRIES in
      unwrap_with (forge_export_with_entries X password (m + 1) s) (\<lambda>data s1.
      rejected_as_corrupted (open_vault X password data s1)))"

definition open_rejects_entry_name_ciphertext_over_bound :: "'w externals \<Rightarrow> 'w sys \<Rightarrow> bool" where
  "open_rejects_entry_name_ciphertext_over_bound X s \<longleftrightarrow>
     (let password = ascii ''password-name-big'';
          entries = [(replicate ENTRY_KEY_LEN 1,
            entry 0 (MAX_ENCRYPTED_NAME_LEN + 1) MIN_ENCRYPTED_LEN)] in
      unwrap_with (forge_export X password 1 entries s) (\<lambda>data s1.
      rejected_as_corrupted (open_vault X password data s1)))"

definition open_accepts_entry_ciphertexts_at_bound :: "'w externals \<Rightarrow> 'w sys \<Rightarrow> bool" where
  "open_accepts_entry_ciphertexts_at_bound X s \<longleftrightarrow>
     (let password = ascii ''password-name-max'';
          entries = [(replicate ENTRY_KEY_LEN 1,
            entry 0 MAX_ENCRYPTED_NAME_LEN MIN_ENCRYPTED_LEN)] in
      unwrap_with (forge_export X password 1 entries s) (\<lambda>data s1.
      unwrap_with (open_vault X password data s1) (\<lambda>v s2. length (files (index v)) = 1)))"

definition open_rejects_index_with_trailing_bytes :: "'w externals \<Rightarrow> 'w sys \<Rightarrow> bool" where
  "open_rejects_index_with_trailing_bytes X s \<longleftrightarrow>
     (let password = ascii ''password-trailing'';
          entries = [(replicate ENTRY_KEY_LEN 1, entry 0 MIN_ENCRYPTED_LEN MIN_ENCRYPTED_LEN),
            (replicate ENTRY_KEY_LEN 2, entry 0 MIN_ENCRYPTED_LEN MIN_ENCRYPTED_LEN)] in
      unwrap_with (forge_export X password 1 entries s) (\<lambda>data s1.
      rejected_as_corrupted (open_vault X password data s1)))"

section \<open>They pass\<close>

lemma length_raw_entries:
  "length (raw_entries es) = sum_list (map (\<lambda>(key, e). length key + 16 +
     length (encrypted_name e) + length (encrypted_data e)) es)"
  by (induction es rule: raw_entries.induct) simp_all

lemma length_raw_encode: "length (raw_encode ver nc dc c es) = 22 + length (raw_entries es)"
  by (simp add: raw_encode_def)

text \<open>A forged file of moderate size is opened as far as its index.\<close>

lemma forge_opens:
  assumes "test_machine X s" "length pw < 2 ^ 32" "length (raw_entries es) \<le> 2 ^ 20"
  obtains data s1 env ek hk where "forge_export X pw c es s = (Inr data, s1)"
    "parse_envelope X data = Inr env" "version (env_header env) = VAULT_VERSION"
    "password_keys X pw (env_header env) = Inr (ek, hk)"
    "open_index X env ek = decode_index (raw_encode VAULT_INDEX_VERSION 1 1 c es)"
    "length ek = SUBKEY_LEN" "length hk = SUBKEY_LEN" "finite (dom (heap s1))"
proof -
  have m: "env_works X" "finite (dom (heap s))" using assms(1) by (simp_all add: test_machine_def)
  note laws = env_worksD [OF m(1)]
  obtain h w where h: "vault_header_generate X s = (Inr h, s\<lparr>ext := w\<rparr>)" "generated_header h"
    by (rule header_generate_works [OF m(1)])
  obtain mk where mk: "derive_master_key X pw h = Inr mk"
    by (rule generated_key_works [OF m(1) h(2) assms(2)])
  obtain ek hk where sub: "derive_subkeys X mk (kdf_salt h) = Inr (ek, hk)"
    "length ek = SUBKEY_LEN" "length hk = SUBKEY_LEN" by (rule derive_subkeys_works [OF m(1)])
  obtain n w' where n: "secure_bytes_fill X XCHACHA20_NONCE_LEN (s\<lparr>ext := w\<rparr>) = (Inr n, s\<lparr>ext := w'\<rparr>)"
    "length n = XCHACHA20_NONCE_LEN"
    by (rule fill_works [OF m(1), of XCHACHA20_NONCE_LEN "s\<lparr>ext := w\<rparr>"])
      (simp_all add: XCHACHA20_NONCE_LEN_def)
  obtain hj where hj: "to_aad_bytes X h = Inr hj" "header_to_json X h = Inr hj"
    "length hj \<le> MAX_HEADER_JSON_LEN" "header_from_json X hj = Inr h"
    by (rule to_aad_bytes_ok [OF laws(9) generated_header_salt [OF h(2)]])
  let ?b = "raw_encode VAULT_INDEX_VERSION 1 1 c es"
  have ek: "length ek = 32" using sub(2) by (simp add: SUBKEY_LEN_def)
  have len: "length ?b \<le> 22 + 2 ^ 20" using assms(3) by (simp only: length_raw_encode)
  then have "length ?b < 2 ^ 32" by simp
  then obtain ct where ct: "seal_with_aad X ek n ?b hj = Inr ct"
    "length ct = length ?b + POLY1305_OUTSIZE" by (rule seal_works [OF m(1) ek n(2)])
  let ?data = "assemble_envelope hj n ct"
  let ?env = "\<lparr>env_header = h, env_nonce = n, env_encrypted_index = ct\<rparr>"
  have ver: "version h = VAULT_VERSION" by (rule generated_header_version [OF h(2)])
  have "length ?data \<le> MAX_VAULT_FILE_SIZE"
    using len hj(3) by (simp add: assemble_envelope_def ct(2) n(2) const_defs)
  then have "parse_envelope X ?data = Inr ?env"
    by (intro parse_envelope_layout [OF hj(2,4) generated_header_in_policy [OF h(2)] hj(3) n(2), of "[]"])
      (simp_all add: legacy_gap_def ver assemble_envelope_def const_defs)
  moreover have "open_index X ?env ek = decode_index ?b"
    using open_seal_with_aad [OF laws(7) ek n(2) ct(1)]
    by (simp add: open_index_def hj(1) ver const_defs)
  moreover have "forge_export X pw c es s = (Inr ?data, s\<lparr>ext := w'\<rparr>)"
    by (simp add: forge_export_def h(1) mk sub(1) n(1) hj(1,2) ct(1) Let_def)
  ultimately show thesis
    using mk sub ver m(2) by (intro that [of ?data "s\<lparr>ext := w'\<rparr>" ?env ek hk]) (simp_all add: password_keys_def)
qed

lemma forge_rejected:
  assumes "test_machine X s" "length pw < 2 ^ 32" "length (raw_entries es) \<le> 2 ^ 20"
    and "decode_index (raw_encode VAULT_INDEX_VERSION 1 1 c es) = Inl e"
  shows "unwrap_with (forge_export X pw c es s) (\<lambda>data s1.
    rejected_as_corrupted (open_vault X pw data s1))"
proof -
  obtain data s1 env ek hk where f: "forge_export X pw c es s = (Inr data, s1)"
    "parse_envelope X data = Inr env" "password_keys X pw (env_header env) = Inr (ek, hk)"
    "open_index X env ek = Inl e"
    using assms(4) by (rule_tac forge_opens [OF assms(1-3), of c]) auto
  then have "open_vault X pw data s1 = (Inl e, s1)"
    by (auto simp: open_vault_def password_keys_def and_then_Inr_iff map_err_Inr_iff)
  with f(1) decode_index_err [OF assms(4)] show ?thesis
    by (simp add: rejected_as_corrupted_def)
qed

lemma forge_accepted:
  assumes "test_machine X s" "length pw < 2 ^ 32" "length (raw_entries es) \<le> 2 ^ 20"
    and "\<forall>f \<in> set es. length (fst f) = ENTRY_KEY_LEN \<and> sizes_ok (snd f) \<and> data_counter (snd f) = 0"
    and "distinct (map fst es)" "length es \<le> MAX_INDEX_ENTRIES" "c = of_nat (length es)"
  shows "unwrap_with (forge_export X pw c es s) (\<lambda>data s1.
    unwrap_with (open_vault X pw data s1) (\<lambda>v s2. length (files (index v)) = length es))"
proof -
  have m: "env_works X" using assms(1) by (simp add: test_machine_def)
  let ?d = "\<lparr>idx_nonce_counter = 1, idx_data_nonce_counter = 1,
    idx_files = map (\<lambda>(key, e). (key_to_hex key, e)) es\<rparr>"
  have "decode_index (raw_encode VAULT_INDEX_VERSION 1 1 c es) = Inr ?d"
    unfolding assms(7) using assms(4-6) by (intro decode_raw_encode) auto
  then obtain data s1 env ek hk where f: "forge_export X pw c es s = (Inr data, s1)"
    "parse_envelope X data = Inr env" "version (env_header env) = VAULT_VERSION"
    "password_keys X pw (env_header env) = Inr (ek, hk)" "open_index X env ek = Inr ?d"
    "length ek = SUBKEY_LEN" "length hk = SUBKEY_LEN" "finite (dom (heap s1))"
    by (rule_tac forge_opens [OF assms(1-3), of c]) auto
  have o: "opens_to X pw data env ek hk ?d"
    using f(2,4,5) assms(4) by (auto simp: opens_to_def list_all_iff)
  obtain es' hs s2 where "lock_subkeys X ek hk s1 = (Inr (es', hs), s2)"
    by (rule lock_subkeys_works [OF m f(6-8)])
  then have "open_vault X pw data s1 = (Inr (loaded_vault env ?d es' hs), s2)"
    by (simp add: open_vault_loads [OF o] f(3) Let_def const_defs)
  with f(1) show ?thesis by (simp add: loaded_vault_def)
qed

text \<open>The entries of the forger.\<close>

lemma forged_entries_ok:
  "f \<in> set (forged_entries n) \<Longrightarrow>
     length (fst f) = ENTRY_KEY_LEN \<and> sizes_ok (snd f) \<and> data_counter (snd f) = 0"
  by (auto simp: forged_entries_def entry_sizes_ok const_defs) (simp add: entry_def)

lemma forged_entries_keys:
  assumes "n \<le> MAX_INDEX_ENTRIES"
  shows "distinct (map fst (forged_entries n))"
proof -
  have "unat (of_nat i :: u64) = i" if "i < n" for i
    using that assms by (simp add: unat_of_nat MAX_INDEX_ENTRIES_def)
  then have "i = j" if "(of_nat i :: u64) = of_nat j" "i < n" "j < n" for i j
    using that by metis
  then show ?thesis
    by (auto simp: forged_entries_def distinct_map inj_on_def le64.enc_inject o_def)
qed

lemma forged_entries_length: "length (raw_entries (forged_entries n)) = n * 128"
  by (simp add: length_raw_entries forged_entries_def o_def entry_def const_defs sum_list_triv)

lemma forge_tests_pass:
  assumes "test_machine X s"
  shows "open_accepts_index_at_entry_cap X s" "open_rejects_index_over_entry_cap X s"
    "open_rejects_entry_name_ciphertext_over_bound X s"
    "open_accepts_entry_ciphertexts_at_bound X s" "open_rejects_index_with_trailing_bytes X s"
proof -
  have len: "length (forged_entries n) = n" for n by (simp add: forged_entries_def)
  have size: "length (raw_entries (forged_entries n)) \<le> 2 ^ 20" if "n \<le> MAX_INDEX_ENTRIES + 1" for n
    using that by (simp add: forged_entries_length MAX_INDEX_ENTRIES_def)
  have "unwrap_with (forge_export X (ascii ''password-cap-ok'') (of_nat MAX_INDEX_ENTRIES)
      (forged_entries MAX_INDEX_ENTRIES) s) (\<lambda>data s1.
    unwrap_with (open_vault X (ascii ''password-cap-ok'') data s1)
      (\<lambda>v s2. length (files (index v)) = length (forged_entries MAX_INDEX_ENTRIES)))"
    using forged_entries_ok forged_entries_keys [of MAX_INDEX_ENTRIES]
    by (intro forge_accepted [OF assms _ size]) (auto simp: len MAX_INDEX_ENTRIES_def)
  then show "open_accepts_index_at_entry_cap X s"
    by (simp add: open_accepts_index_at_entry_cap_def forge_export_with_entries_def len Let_def)
  have "\<exists>e. decode_index (raw_encode VAULT_INDEX_VERSION 1 1 (of_nat (MAX_INDEX_ENTRIES + 1))
      (forged_entries (MAX_INDEX_ENTRIES + 1))) = Inl e"
    by (rule decode_index_split [of "raw_entries (forged_entries (MAX_INDEX_ENTRIES + 1))"
        VAULT_INDEX_VERSION 1 1 "of_nat (MAX_INDEX_ENTRIES + 1)"])
      (simp add: raw_encode_def MAX_INDEX_ENTRIES_def)
  then show "open_rejects_index_over_entry_cap X s"
    using forge_rejected [OF assms _ size, of "ascii ''password-cap-no''" "MAX_INDEX_ENTRIES + 1"]
    by (auto simp: open_rejects_index_over_entry_cap_def forge_export_with_entries_def Let_def)
  let ?key = "replicate ENTRY_KEY_LEN 1 :: bytes"
  let ?big = "entry 0 (MAX_ENCRYPTED_NAME_LEN + 1) MIN_ENCRYPTED_LEN"
    and ?max = "entry 0 MAX_ENCRYPTED_NAME_LEN MIN_ENCRYPTED_LEN"
    and ?min = "entry 0 MIN_ENCRYPTED_LEN MIN_ENCRYPTED_LEN"
  have "\<exists>e. decode_index (raw_encode VAULT_INDEX_VERSION 1 1 1 [(?key, ?big)]) = Inl e"
    using single_entry_rejected [of ?key "MAX_ENCRYPTED_NAME_LEN + 1" MIN_ENCRYPTED_LEN 0 1 1]
    by (force simp: entry_sizes_ok const_defs)
  then show "open_rejects_entry_name_ciphertext_over_bound X s"
    using forge_rejected [OF assms, of "ascii ''password-name-big''" "[(?key, ?big)]" 1]
    by (auto simp: open_rejects_entry_name_ciphertext_over_bound_def length_raw_entries entry_def
        const_defs)
  show "open_accepts_entry_ciphertexts_at_bound X s"
    using forge_accepted [OF assms, of "ascii ''password-name-max''" "[(?key, ?max)]" 1]
    by (simp add: open_accepts_entry_ciphertexts_at_bound_def length_raw_entries entry_sizes_ok
        const_defs) (simp add: entry_def)
  let ?two = "[(?key, ?min), (replicate ENTRY_KEY_LEN 2, ?min)]"
  have "\<exists>e. decode_index (raw_encode VAULT_INDEX_VERSION 1 1 1 ?two) = Inl e"
  proof -
    obtain r where r: "rest r = raw_entries ?two"
      and dec: "decode_index (raw_encode VAULT_INDEX_VERSION 1 1 1 ?two) =
        and_then (decode_entries 1 r []) (\<lambda>(fs, r').
         if reader_remaining r' \<noteq> 0
         then Inl (CorruptedData (fmt ''{} trailing bytes after the last index entry''
           [dec (reader_remaining r')]))
         else Inr \<lparr>idx_nonce_counter = 1, idx_data_nonce_counter = 1, idx_files = fs\<rparr>)"
      by (rule decode_index_split [of "raw_entries ?two" VAULT_INDEX_VERSION 1 1 1])
        (simp add: raw_encode_def length_raw_entries entry_def const_defs)
    have "rest r = entry_layout ?key ?min @ raw_entries [(replicate ENTRY_KEY_LEN 2, ?min)]"
      by (simp add: r entry_layout_def)
    then obtain r1 where "decode_entry r = Inr ((key_to_hex ?key, ?min), r1)"
      "rest r1 = raw_entries [(replicate ENTRY_KEY_LEN 2, ?min)]"
      by (rule decode_entry_ok) (simp_all add: entry_sizes_ok const_defs)
    then show ?thesis
      unfolding dec by (simp add: hm_insert_def reader_remaining_rest)
        (simp add: const_defs)
  qed
  then show "open_rejects_index_with_trailing_bytes X s"
    using forge_rejected [OF assms, of "ascii ''password-trailing''" ?two 1]
    by (auto simp: open_rejects_index_with_trailing_bytes_def length_raw_entries entry_def const_defs)
qed

end
