(* ===== verification/CapTests.thy ===== *)
theory CapTests
  imports FacadeTests
begin

text \<open>
  The unit tests that fill an index or a vault, in \<open>src/vault/vault_index.rs\<close> and
  \<open>src/vault/facade.rs\<close>: the cap on the number of entries and the bound on the size of the file.
  They use many names, and pass where the HMAC separates them.
\<close>

section \<open>The tests\<close>

text \<open>The loops over the names; an error is a panic.\<close>

fun insert_each ::
  "'w externals \<Rightarrow> 'w sys \<Rightarrow> (bytes \<times> index_entry) list \<Rightarrow> vault_index \<Rightarrow>
    (index_error + unit) \<times> vault_index" where
  "insert_each X s [] idx = (Inr (), idx)"
| "insert_each X s ((name, e) # es) idx =
     (case insert_named X s idx name e of
        (Inl err, idx1) \<Rightarrow> (Inl err, idx1)
      | (Inr _, idx1) \<Rightarrow> insert_each X s es idx1)"

fun store_each ::
  "'w externals \<Rightarrow> (bytes \<times> bytes) list \<Rightarrow> vault \<Rightarrow> 'w sys \<Rightarrow>
    (vault_error + unit) \<times> vault \<times> 'w sys" where
  "store_each X [] v s = (Inr (), v, s)"
| "store_each X ((name, secret) # ps) v s =
     (case store X v s name secret of
        (Inl e, v1, s1) \<Rightarrow> (Inl e, v1, s1)
      | (Inr _, v1, s1) \<Rightarrow> store_each X ps v1 s1)"

definition entry_name :: "nat \<Rightarrow> bytes" where
  "entry_name i = ascii (fmt ''entry-{}'' [dec i])"

definition k_name :: "nat \<Rightarrow> bytes" where
  "k_name i = ascii (fmt ''k{}'' [dec i])"

definition overwrite_keeps_one_entry_and_is_allowed_at_the_cap ::
  "'w externals \<Rightarrow> 'w sys \<Rightarrow> bool" where
  "overwrite_keeps_one_entry_and_is_allowed_at_the_cap X s \<longleftrightarrow>
     unwrap_with (vault_index_generate X s) (\<lambda>idx s1.
     unwrap_with (insert_each X s1 (map (\<lambda>i. (entry_name i, entry_with_counter (of_nat i)))
       [0..<MAX_INDEX_ENTRIES]) idx) (\<lambda>u idx1.
     length (files idx1) = MAX_INDEX_ENTRIES \<and>
     unwrap_with (insert_named X s1 idx1 (ascii ''entry-0'') (entry_with_counter 9999)) (\<lambda>u idx2.
     length (files idx2) = MAX_INDEX_ENTRIES \<and>
     unwrap (lookup_named X s1 idx2 (ascii ''entry-0'')) (\<lambda>found.
       case found of None \<Rightarrow> False | Some e \<Rightarrow> data_counter e = 9999) \<and>
     fst (insert_named X s1 idx2 (ascii ''one-too-many'') (entry_with_counter 1)) =
       Inl (Full MAX_INDEX_ENTRIES))))"

definition insert_at_cap_allows_overwrite_but_rejects_new_entry ::
  "'w externals \<Rightarrow> 'w sys \<Rightarrow> bool" where
  "insert_at_cap_allows_overwrite_but_rejects_new_entry X s \<longleftrightarrow>
     unwrap_with (vault_index_generate X s) (\<lambda>idx s1.
     unwrap_with (insert_each X s1 (map (\<lambda>i. (entry_name i, entry_with_counter 0))
       [0..<MAX_INDEX_ENTRIES]) idx) (\<lambda>u idx1.
     length (files idx1) = MAX_INDEX_ENTRIES \<and>
     unwrap_with (insert_named X s1 idx1 (ascii ''entry-0'') (entry_with_counter 1)) (\<lambda>u idx2.
     length (files idx2) = MAX_INDEX_ENTRIES \<and>
     fst (insert_named X s1 idx2 (ascii ''one-too-many'') (entry_with_counter 2)) =
       Inl (Full MAX_INDEX_ENTRIES))))"

definition full_vault_rejects_new_name_as_invalid_input :: "'w externals \<Rightarrow> 'w sys \<Rightarrow> bool" where
  "full_vault_rejects_new_name_as_invalid_input X s \<longleftrightarrow>
     unwrap_with (create X (ascii ''password'') s) (\<lambda>v s1.
     unwrap_with (store_each X (map (\<lambda>i. (k_name i, ascii ''v'')) [0..<MAX_INDEX_ENTRIES]) v s1)
       (\<lambda>u (v1, s2).
     case store X v1 s2 (ascii ''one-more'') (ascii ''v'') of
       (Inl e, v2, s3) \<Rightarrow> is_invalid_input e \<and>
         unwrap_with (store X v2 s3 (ascii ''k0'') (ascii ''v2'')) (\<lambda>u (v3, s4).
         unwrap (retrieve X v3 s4 (ascii ''k0'')) (\<lambda>r. r = Some (ascii ''v2'')))
     | _ \<Rightarrow> False))"

definition pseudo_bytes :: "nat \<Rightarrow> u64 \<Rightarrow> bytes" where
  "pseudo_bytes len seed =
     map (\<lambda>i. ucast (drop_bit 7 (xor (of_nat i) seed * 2654435761))) [0..<len]"

definition export_rejects_vault_exceeding_max_file_size :: "'w externals \<Rightarrow> 'w sys \<Rightarrow> bool" where
  "export_rejects_vault_exceeding_max_file_size X s \<longleftrightarrow>
     unwrap_with (create X (ascii ''password-size-cap'') s) (\<lambda>v s1.
     unwrap_with (store_each X
       [(ascii ''a'', pseudo_bytes MAX_ENTRY_DATA_SIZE 1), (ascii ''b'', pseudo_bytes MAX_ENTRY_DATA_SIZE 2),
        (ascii ''c'', pseudo_bytes MAX_ENTRY_DATA_SIZE 3), (ascii ''d'', pseudo_bytes MAX_ENTRY_DATA_SIZE 4)]
       v s1) (\<lambda>u (v1, s2).
     case export X v1 s2 of
       (Inl (SerializationError m), v2, s3) \<Rightarrow>
         unwrap_with (remove X v2 s3 (ascii ''d'')) (\<lambda>found v3. found \<and>
         unwrap_with (export X v3 s3) (\<lambda>exported (v4, s4).
         length exported \<le> MAX_VAULT_FILE_SIZE \<and>
         unwrap_with (open_vault X (ascii ''password-size-cap'') exported s4) (\<lambda>reopened s5.
         unwrap (with_secret X reopened s5 (ascii ''a'') length) (\<lambda>r.
           r = Some MAX_ENTRY_DATA_SIZE))))
     | _ \<Rightarrow> False))"

section \<open>Numbered names are distinct\<close>

fun read_dec :: "string \<Rightarrow> nat" where
  "read_dec ds = foldl (\<lambda>n c. 10 * n + (of_char c - 48)) 0 ds"

lemma read_dec_digits: "n < 10 ^ fuel \<Longrightarrow> read_dec (dec_digits fuel n) = n"
proof (induction fuel arbitrary: n)
  case (Suc fuel)
  have digit: "of_char (char_of (48 + d) :: char) = 48 + d" if "d < 10" for d :: nat
    using that by simp
  have "n div 10 < 10 ^ fuel" using Suc.prems by (simp add: less_mult_imp_div_less mult.commute)
  from Suc.IH [OF this] show ?case
    using digit [of n] digit [of "n mod 10"] by simp
qed simp

lemma length_dec: "length (dec n) \<le> 20"
proof -
  have "length (dec_digits fuel n) \<le> fuel" for fuel
    by (induction fuel arbitrary: n) auto
  then show ?thesis unfolding dec_def .
qed

lemma dec_inject:
  assumes "m < 10 ^ 20" "n < 10 ^ 20" "dec m = dec n"
  shows "m = n"
proof -
  have "m = read_dec (dec m)"
    unfolding dec_def by (rule read_dec_digits [OF assms(1), symmetric])
  also have "\<dots> = read_dec (dec n)" by (rule arg_cong [OF assms(3)])
  also have "\<dots> = n" unfolding dec_def by (rule read_dec_digits [OF assms(2)])
  finally show ?thesis .
qed

lemma ascii_inject:
  assumes "ascii s = ascii t"
  shows "s = t"
proof -
  have "inj (of_char :: char \<Rightarrow> byte)"
  proof (rule injI)
    fix c d :: char
    assume "(of_char c :: byte) = of_char d"
    then have "unat (of_nat (of_char c) :: byte) = unat (of_nat (of_char d) :: byte)"
      by (simp only: of_nat_of_char)
    then show "c = d" using nat_of_char_less_256 [of c] nat_of_char_less_256 [of d]
      by (simp add: unat_of_nat)
  qed
  with assms show ?thesis unfolding ascii_def by (rule map_injective)
qed

lemma numbered_distinct:
  assumes "f = (\<lambda>i. ascii (prefix @ dec i))" "n \<le> MAX_INDEX_ENTRIES"
  shows "distinct (map f [0..<n])"
proof -
  have "i = j" if "f i = f j" "i < n" "j < n" for i j
    using that assms ascii_inject [of "prefix @ dec i" "prefix @ dec j"]
    by (intro dec_inject) (auto simp: MAX_INDEX_ENTRIES_def)
  then show ?thesis by (auto simp: distinct_map inj_on_def)
qed

section \<open>They pass\<close>

lemma entry_name_eq: "entry_name = (\<lambda>i. ascii (''entry-'' @ dec i))"
  by (rule ext) (simp add: entry_name_def fmt.simps)

lemma k_name_eq: "k_name = (\<lambda>i. ascii (''k'' @ dec i))"
  by (rule ext) (simp add: k_name_def fmt.simps)

lemma name_zero: "ascii ''entry-0'' = entry_name 0" "ascii ''k0'' = k_name 0"
proof -
  have "dec_digits (Suc m) 0 = ''0''" for m by (simp add: char_of_def bit_Suc_0_iff)
  moreover have "(20 :: nat) = Suc 19" by simp
  ultimately have "dec 0 = ''0''" by (simp only: dec_def)
  then show "ascii ''entry-0'' = entry_name 0" "ascii ''k0'' = k_name 0"
    by (simp_all add: entry_name_eq k_name_eq)
qed

lemma new_names: "ascii ''one-too-many'' \<noteq> entry_name i" "ascii ''one-more'' \<noteq> k_name i"
  by (simp_all add: entry_name_eq k_name_eq ascii_def)

lemmas entry_names_distinct = numbered_distinct [OF entry_name_eq]
lemmas k_names_distinct = numbered_distinct [OF k_name_eq]

text \<open>Insertion under a name, where the keys of the index are known.\<close>

lemma insert_named_eq:
  assumes "keys_live s idx ek hk" "name_key X hk name = Inr k"
  shows "insert_named X s idx name e =
    (if k \<in> set (map fst (files idx)) \<or> length (files idx) < MAX_INDEX_ENTRIES
     then (Inr (), idx\<lparr>files := AList.update k e (files idx)\<rparr>)
     else (Inl (Full MAX_INDEX_ENTRIES), idx))"
  using assms(2)
  by (auto simp: insert_named_def keys_live_hmac [OF assms(1)] insert_by_key_def hm_insert_def
      map_of_eq_None_iff)

text \<open>The key of a name in use.\<close>

abbreviation key_of :: "'w externals \<Rightarrow> bytes \<Rightarrow> bytes \<Rightarrow> bytes" where
  "key_of X hk n \<equiv> projr (name_key X hk n)"

lemma key_of_apart:
  assumes "names_apart X hk N"
  shows "n \<in> N \<Longrightarrow> name_key X hk n = Inr (key_of X hk n)"
    "n \<in> N \<Longrightarrow> set ns \<subseteq> N \<Longrightarrow> key_of X hk n \<in> key_of X hk ` set ns \<longleftrightarrow> n \<in> set ns"
proof -
  show key: "name_key X hk n = Inr (key_of X hk n)" if "n \<in> N" for n
    using assms that by (auto simp: names_apart_def)
  show "key_of X hk n \<in> key_of X hk ` set ns \<longleftrightarrow> n \<in> set ns" if "n \<in> N" "set ns \<subseteq> N"
    using assms that key by (auto simp: names_apart_def image_iff) (metis subsetD)
qed

lemma insert_each_works:
  assumes "names_apart X hk N"
  shows "\<lbrakk>keys_live s idx ek hk; map fst (files idx) = map (key_of X hk) ns;
      set ns \<union> set (map fst es) \<subseteq> N; distinct (ns @ map fst es);
      length ns + length es \<le> MAX_INDEX_ENTRIES\<rbrakk> \<Longrightarrow>
    \<exists>idx'. insert_each X s es idx = (Inr (), idx') \<and> keys_live s idx' ek hk \<and>
      map fst (files idx') = map (key_of X hk) (ns @ map fst es)"
proof (induction es arbitrary: idx ns)
  case (Cons f es)
  obtain n e where f: "f = (n, e)" by (cases f)
  let ?idx = "idx\<lparr>files := AList.update (key_of X hk n) e (files idx)\<rparr>"
  have n: "n \<in> N" "n \<notin> set ns" "set ns \<subseteq> N" using Cons.prems(3,4) by (auto simp: f)
  have len: "length (files idx) = length ns" using arg_cong [OF Cons.prems(2), of length] by simp
  have step: "insert_named X s idx n e = (Inr (), ?idx)"
    using Cons.prems(5) len
    by (simp add: insert_named_eq [OF Cons.prems(1) key_of_apart(1) [OF assms n(1)]] f)
  have "map fst (files ?idx) = map (key_of X hk) (ns @ [n])"
    using key_of_apart(2) [OF assms n(1,3)] n(2) by (simp add: update_keys Cons.prems(2))
  moreover have "keys_live s ?idx ek hk" using Cons.prems(1) by (simp add: keys_live_def)
  ultimately show ?case
    using Cons.IH [of ?idx "ns @ [n]"] Cons.prems(3-5) by (simp add: f step)
qed simp

lemma fill_index:
  assumes "test_machine X s"
    and "names_separated X (insert (ascii ''one-too-many'') (entry_name ` {..<MAX_INDEX_ENTRIES}))"
  obtains idx s1 idx1 ek hk where "vault_index_generate X s = (Inr idx, s1)"
    "insert_each X s1 (map (\<lambda>i. (entry_name i, f i)) [0..<MAX_INDEX_ENTRIES]) idx = (Inr (), idx1)"
    "keys_live s1 idx1 ek hk" "length (files idx1) = MAX_INDEX_ENTRIES"
    "name_key X hk (entry_name 0) = Inr (key_of X hk (entry_name 0))"
    "key_of X hk (entry_name 0) \<in> set (map fst (files idx1))"
    "name_key X hk (ascii ''one-too-many'') = Inr (key_of X hk (ascii ''one-too-many''))"
    "key_of X hk (ascii ''one-too-many'') \<notin> set (map fst (files idx1))"
proof -
  let ?new = "ascii ''one-too-many''" and ?names = "map entry_name [0..<MAX_INDEX_ENTRIES]"
  let ?N = "insert ?new (entry_name ` {..<MAX_INDEX_ENTRIES})"
  have m: "env_works X" "mem_ok s" "finite (dom (heap s))"
    using assms(1) by (simp_all add: test_machine_def)
  obtain idx s1 ek hk where g: "vault_index_generate X s = (Inr idx, s1)"
    "keys_live s1 idx ek hk" "files idx = []" by (rule generate_works [OF m])
  have apart: "names_apart X hk ?N"
    using assms(2) g(2) by (simp add: names_separated_def keys_live_def)
  have N: "?new \<in> ?N" "entry_name 0 \<in> ?N" "set ?names \<subseteq> ?N" "entry_name 0 \<in> set ?names"
    by (auto simp: MAX_INDEX_ENTRIES_def)
  have "?new \<notin> set ?names" using new_names(1) by auto
  note keys = key_of_apart(2) [OF apart _ N(3)]
  from insert_each_works [OF apart g(2), of "[]" "map (\<lambda>i. (entry_name i, f i)) [0..<MAX_INDEX_ENTRIES]"]
  obtain idx1 where i: "insert_each X s1 (map (\<lambda>i. (entry_name i, f i)) [0..<MAX_INDEX_ENTRIES]) idx =
      (Inr (), idx1)" "keys_live s1 idx1 ek hk" "map fst (files idx1) = map (key_of X hk) ?names"
    using N(3) entry_names_distinct [of MAX_INDEX_ENTRIES] g(3) by (auto simp: o_def)
  have "length (files idx1) = MAX_INDEX_ENTRIES"
    using arg_cong [OF i(3), of length] by simp
  then show thesis
    using \<open>?new \<notin> set ?names\<close> keys [OF N(1)] keys [OF N(2)] N(4)
    by (intro that [OF g(1) i(1,2) _ key_of_apart(1) [OF apart N(2)] _
        key_of_apart(1) [OF apart N(1)]]) (simp_all only: i(3) set_map not_False_eq_True)
qed

lemma index_cap_tests_pass:
  assumes "test_machine X s"
    and "names_separated X (insert (ascii ''one-too-many'') (entry_name ` {..<MAX_INDEX_ENTRIES}))"
  shows "overwrite_keeps_one_entry_and_is_allowed_at_the_cap X s"
    "insert_at_cap_allows_overwrite_but_rejects_new_entry X s"
proof -
  have keys: "set (map fst (AList.update k e fs)) = set (map fst fs)"
    "length (AList.update k e fs) = length fs" if "k \<in> set (map fst fs)" for k e and fs :: "(bytes \<times> index_entry) list"
    using that by (auto simp: update_keys length_alist_update map_of_eq_None_iff dest: arg_cong [of _ _ length])
  show "overwrite_keeps_one_entry_and_is_allowed_at_the_cap X s"
  proof (rule fill_index [OF assms, of "\<lambda>i. entry_with_counter (of_nat i)"])
    fix idx s1 idx1 ek hk
    let ?k = "key_of X hk (entry_name 0)" and ?new = "key_of X hk (ascii ''one-too-many'')"
    assume f: "vault_index_generate X s = (Inr idx, s1)"
      "insert_each X s1 (map (\<lambda>i. (entry_name i, entry_with_counter (of_nat i)))
         [0..<MAX_INDEX_ENTRIES]) idx = (Inr (), idx1)"
      "keys_live s1 idx1 ek hk" "length (files idx1) = MAX_INDEX_ENTRIES"
      "name_key X hk (entry_name 0) = Inr ?k" "?k \<in> set (map fst (files idx1))"
      "name_key X hk (ascii ''one-too-many'') = Inr ?new" "?new \<notin> set (map fst (files idx1))"
    let ?idx2 = "idx1\<lparr>files := AList.update ?k (entry_with_counter 9999) (files idx1)\<rparr>"
    have live: "keys_live s1 ?idx2 ek hk" using f(3) by (simp add: keys_live_def)
    have look: "lookup_named X s1 ?idx2 (entry_name 0) = Inr (Some (entry_with_counter 9999))"
      using lookup_named_eq(2) [OF f(3) _ _ f(5), of ?idx2] by (simp add: update_conv')
    show ?thesis
      using f(6,8) insert_named_eq [OF f(3,5)] insert_named_eq [OF live f(7)] look keys
      by (simp add: overwrite_keeps_one_entry_and_is_allowed_at_the_cap_def f(1,2,4) name_zero)
        (simp add: entry_with_counter_def)
  qed
  show "insert_at_cap_allows_overwrite_but_rejects_new_entry X s"
  proof (rule fill_index [OF assms, of "\<lambda>i. entry_with_counter 0"])
    fix idx s1 idx1 ek hk
    let ?k = "key_of X hk (entry_name 0)" and ?new = "key_of X hk (ascii ''one-too-many'')"
    assume f: "vault_index_generate X s = (Inr idx, s1)"
      "insert_each X s1 (map (\<lambda>i. (entry_name i, entry_with_counter 0))
         [0..<MAX_INDEX_ENTRIES]) idx = (Inr (), idx1)"
      "keys_live s1 idx1 ek hk" "length (files idx1) = MAX_INDEX_ENTRIES"
      "name_key X hk (entry_name 0) = Inr ?k" "?k \<in> set (map fst (files idx1))"
      "name_key X hk (ascii ''one-too-many'') = Inr ?new" "?new \<notin> set (map fst (files idx1))"
    let ?idx2 = "idx1\<lparr>files := AList.update ?k (entry_with_counter 1) (files idx1)\<rparr>"
    have live: "keys_live s1 ?idx2 ek hk" using f(3) by (simp add: keys_live_def)
    show ?thesis
      using f(6,8) insert_named_eq [OF f(3,5)] insert_named_eq [OF live f(7)] keys
      by (simp add: insert_at_cap_allows_overwrite_but_rejects_new_entry_def f(1,2,4) name_zero)
  qed
qed

text \<open>The size of a vault and its secrets, when a name is new.\<close>

definition stored_size :: "bytes \<times> bytes \<Rightarrow> nat" where
  "stored_size p = ENTRY_FIXED_LEN + 2 * (XCHACHA20_NONCE_LEN + POLY1305_OUTSIZE) +
     length (fst p) + length (snd p)"

text \<open>Filling a vault; the keys of its entries are those of the names stored.\<close>

lemma sealed_entry_lengths:
  assumes "aead_laws X" "length ek = SUBKEY_LEN" "sealed_entry X ek k n p e"
  shows "length (encrypted_name e) = XCHACHA20_NONCE_LEN + POLY1305_OUTSIZE + length n"
    "length (encrypted_data e) = XCHACHA20_NONCE_LEN + POLY1305_OUTSIZE + length p"
proof -
  have ek: "length ek = 32" using assms(2) by (simp add: SUBKEY_LEN_def)
  from assms(3) show "length (encrypted_name e) = XCHACHA20_NONCE_LEN + POLY1305_OUTSIZE + length n"
    "length (encrypted_data e) = XCHACHA20_NONCE_LEN + POLY1305_OUTSIZE + length p"
    using seal_with_aad_length [OF assms(1) ek] by (force simp: sealed_entry_def)+
qed

lemma store_named:
  assumes "test_machine X s" "stands_for X N (s, v, pw) (pw, m)" "config_apart X N (s, v, pw)"
    and "keys_live s (index v) ek hk" "map fst (files (index v)) = map (key_of X hk) ns"
    and "names_apart X hk N" "set ns \<subseteq> N" "name \<in> N" "name \<notin> set ns"
    and "length ns < MAX_INDEX_ENTRIES" "data_nonce_counter (index v) = of_nat (length ns)"
    and "length name \<le> MAX_ENTRY_NAME_LEN" "length p \<le> MAX_ENTRY_DATA_SIZE"
  obtains v1 s1 where "store X v s name p = (Inr (), v1, s1)" "test_machine X s1"
    "stands_for X N (s1, v1, pw) (pw, m(name \<mapsto> p))" "config_apart X N (s1, v1, pw)"
    "keys_live s1 (index v1) ek hk" "map fst (files (index v1)) = map (key_of X hk) (ns @ [name])"
    "data_nonce_counter (index v1) = of_nat (Suc (length ns))"
    "nonce_counter (index v1) = nonce_counter (index v)"
    "export_size X v1 = export_size X v + stored_size (name, p)"
proof -
  have len: "length (files (index v)) = length ns" using arg_cong [OF assms(5), of length] by simp
  have cnt: "unat (data_nonce_counter (index v)) + 1 < 2 ^ 64"
    using assms(10) by (simp add: assms(11) unat_of_nat MAX_INDEX_ENTRIES_def)
  obtain v1 s1 where st: "store X v s name p = (Inr (), v1, s1)" "test_machine X s1"
    "stands_for X N (s1, v1, pw) (pw, m(name \<mapsto> p))" "config_apart X N (s1, v1, pw)"
    by (rule stored [OF assms(1-3,8) _ cnt assms(12,13)]) (simp_all add: len assms(10))
  have live: "keys_live s1 (index v1) ek hk" using assms(4) store_keys(1) [OF st(1)] by blast
  have env: "env_works X" using assms(1) by (simp add: test_machine_def)
  obtain k e where k: "name_key X hk name = Inr k" and e: "sealed_entry X ek k name p e"
    and v1: "v1 = v\<lparr>index := (index v)\<lparr>data_nonce_counter := data_nonce_counter (index v) + 1,
      files := AList.update k e (files (index v))\<rparr>\<rparr>"
    by (rule store_ok [OF env_worksD(5) [OF env] assms(4) st(1)])
  have new: "k \<notin> set (map fst (files (index v)))"
    using key_of_apart(2) [OF assms(6,8,7)] assms(9) k by (simp add: assms(5))
  then have "map fst (files (index v1)) = map (key_of X hk) (ns @ [name])"
    using k by (simp add: v1 update_keys assms(5))
  moreover have "data_nonce_counter (index v1) = of_nat (Suc (length ns))"
    "nonce_counter (index v1) = nonce_counter (index v)"
    by (simp_all add: v1 assms(11))
  moreover have "files (index v1) = files (index v) @ [(k, e)]"
    using new by (simp add: v1 alist_update_fresh map_of_eq_None_iff)
  then have "export_size X v1 = export_size X v + stored_size (name, p)"
    using sealed_entry_lengths [OF env_worksD(7) [OF env] _ e] assms(4)
    by (simp add: export_size_def encoded_total_def stored_size_def v1 keys_live_def)
  ultimately show thesis by (rule that [OF st live])
qed

lemma store_each_works:
  assumes "names_apart X hk N" "\<forall>n \<in> N. length n \<le> MAX_ENTRY_NAME_LEN"
  shows "\<lbrakk>test_machine X s; stands_for X N (s, v, pw) (pw, m); config_apart X N (s, v, pw);
      keys_live s (index v) ek hk; map fst (files (index v)) = map (key_of X hk) ns;
      set ns \<union> set (map fst ps) \<subseteq> N; distinct (ns @ map fst ps);
      length ns + length ps \<le> MAX_INDEX_ENTRIES; data_nonce_counter (index v) = of_nat (length ns);
      \<forall>p \<in> set ps. length (snd p) \<le> MAX_ENTRY_DATA_SIZE\<rbrakk> \<Longrightarrow>
    \<exists>v1 s1 m1. store_each X ps v s = (Inr (), v1, s1) \<and> test_machine X s1 \<and>
      stands_for X N (s1, v1, pw) (pw, m1) \<and> m1 = m ++ map_of (rev ps) \<and> config_apart X N (s1, v1, pw) \<and>
      keys_live s1 (index v1) ek hk \<and>
      map fst (files (index v1)) = map (key_of X hk) (ns @ map fst ps) \<and>
      data_nonce_counter (index v1) = of_nat (length ns + length ps) \<and>
      nonce_counter (index v1) = nonce_counter (index v) \<and>
      export_size X v1 = export_size X v + sum_list (map stored_size ps)"
proof (induction ps arbitrary: s v m ns)
  case (Cons f ps)
  obtain n p where f: "f = (n, p)" by (cases f)
  have n: "n \<in> N" "n \<notin> set ns" "set ns \<subseteq> N" "length ns < MAX_INDEX_ENTRIES"
    "length n \<le> MAX_ENTRY_NAME_LEN" "length p \<le> MAX_ENTRY_DATA_SIZE"
    using Cons.prems(6-8,10) assms(2) by (auto simp: f)
  obtain v1 s1 where st: "store X v s n p = (Inr (), v1, s1)" "test_machine X s1"
    "stands_for X N (s1, v1, pw) (pw, m(n \<mapsto> p))" "config_apart X N (s1, v1, pw)"
    "keys_live s1 (index v1) ek hk" "map fst (files (index v1)) = map (key_of X hk) (ns @ [n])"
    "data_nonce_counter (index v1) = of_nat (Suc (length ns))"
    "nonce_counter (index v1) = nonce_counter (index v)"
    "export_size X v1 = export_size X v + stored_size (n, p)"
    by (rule store_named [OF Cons.prems(1-5) assms(1) n(3,1,2,4) Cons.prems(9) n(5,6)])
  show ?case
    using Cons.IH [OF st(2-6)] Cons.prems(6-8,10) st(7-9)
    by (simp add: f st(1) map_add_assoc [symmetric] fun_upd_def [symmetric] add.assoc)
qed (auto intro!: exI)

lemma full_vault_test_passes:
  assumes "test_machine X s"
    and "names_separated X (insert (ascii ''one-more'') (k_name ` {..<MAX_INDEX_ENTRIES}))"
  shows "full_vault_rejects_new_name_as_invalid_input X s"
proof -
  let ?new = "ascii ''one-more''" and ?names = "map k_name [0..<MAX_INDEX_ENTRIES]"
    and ?pw = "ascii ''password''" and ?v = "ascii ''v''"
  let ?N = "insert ?new (k_name ` {..<MAX_INDEX_ENTRIES})"
  have env: "env_works X" using assms(1) by (simp add: test_machine_def)
  note apart = separated_apart [OF assms(2)]
  obtain v s1 where v: "create X ?pw s = (Inr v, s1)"
    "stands_for X ?N (s1, v, ?pw) (?pw, Map.empty)" "files (index v) = []"
    "data_nonce_counter (index v) = 0" "test_machine X s1"
    by (rule created [OF assms(1), of ?pw]) (use apart in \<open>auto simp: test_lengths\<close>)
  obtain ek hk where live: "keys_live s1 (index v) ek hk" using v(2) by (auto simp: stands_for_def)
  have names: "names_apart X hk ?N"
    using assms(2) live by (simp add: names_separated_def keys_live_def)
  have N: "?new \<in> ?N" "k_name 0 \<in> ?N" "set ?names \<subseteq> ?N" "k_name 0 \<in> set ?names" "?new \<notin> set ?names"
    using new_names(2) by (auto simp: MAX_INDEX_ENTRIES_def)
  have "length (k_name i) \<le> MAX_ENTRY_NAME_LEN" for i
    using length_dec [of i] by (simp add: k_name_eq MAX_ENTRY_NAME_LEN_def)
  then have short: "\<forall>n \<in> ?N. length n \<le> MAX_ENTRY_NAME_LEN" by (simp add: MAX_ENTRY_NAME_LEN_def)
  obtain v1 s2 m1 where f: "store_each X (map (\<lambda>i. (k_name i, ?v)) [0..<MAX_INDEX_ENTRIES]) v s1 =
      (Inr (), v1, s2)" "test_machine X s2" "stands_for X ?N (s2, v1, ?pw) (?pw, m1)"
    "keys_live s2 (index v1) ek hk" "map fst (files (index v1)) = map (key_of X hk) ?names"
    "data_nonce_counter (index v1) = of_nat MAX_INDEX_ENTRIES"
    using store_each_works [OF names short v(5,2) apart live, of "[]"
        "map (\<lambda>i. (k_name i, ?v)) [0..<MAX_INDEX_ENTRIES]"] v(3,4) N(3)
      k_names_distinct [of MAX_INDEX_ENTRIES]
    by (auto simp: o_def test_lengths)
  note laws = env_worksD [OF env]
  note key = key_of_apart(1) [OF names] and stored = key_of_apart(2) [OF names _ N(3)]
  have small: "length ?new \<le> MAX_ENTRY_NAME_LEN" "length (k_name 0) \<le> MAX_ENTRY_NAME_LEN"
    "length ?v \<le> MAX_ENTRY_DATA_SIZE" "length (ascii ''v2'') \<le> MAX_ENTRY_DATA_SIZE"
    using short by (simp_all add: test_lengths MAX_INDEX_ENTRIES_def)
  have count: "unat (data_nonce_counter (index v1)) + 1 < 2 ^ 64"
    by (simp add: f(6) MAX_INDEX_ENTRIES_def)
  have full: "length (files (index v1)) = MAX_INDEX_ENTRIES"
    using arg_cong [OF f(5), of length] by simp
  have "key_of X hk ?new \<notin> set (map fst (files (index v1)))"
    using stored [OF N(1)] N(5) by (simp only: f(5) set_map not_False_eq_True)
  then have absent: "map_of (files (index v1)) (key_of X hk ?new) = None"
    by (simp add: map_of_eq_None_iff)
  obtain v2 w where new: "store X v1 s2 ?new ?v = (Inl (from_index_error (Full MAX_INDEX_ENTRIES)), v2,
      s2\<lparr>ext := w\<rparr>)" "files (index v2) = files (index v1)"
    "data_nonce_counter (index v2) = of_nat MAX_INDEX_ENTRIES + 1"
    by (rule store_runs [OF env f(4) small(1,3) count key [OF N(1)]])
      (auto simp: insert_by_key_def absent full f(6))
  have v2: "stands_for X ?N (s2\<lparr>ext := w\<rparr>, v2, ?pw) (?pw, m1)"
    using stands_for_store [OF laws(1) f(3) apart N(1) new(1)] by simp
  have live2: "keys_live (s2\<lparr>ext := w\<rparr>) (index v2) ek hk" using f(4) store_keys(1) [OF new(1)] by blast
  have "key_of X hk (k_name 0) \<in> set (map fst (files (index v2)))"
    using stored [OF N(2)] N(4) by (simp only: f(5) new(2) set_map)
  then have room: "has_room (index v2) (key_of X hk (k_name 0))"
    by (simp add: has_room_def lookup_by_key_def map_of_eq_None_iff)
  have count2: "unat (data_nonce_counter (index v2)) + 1 < 2 ^ 64"
    by (simp add: new(3) MAX_INDEX_ENTRIES_def)
  obtain v3 x where old: "store X v2 (s2\<lparr>ext := w\<rparr>) (k_name 0) (ascii ''v2'') =
      (Inr (), v3, s2\<lparr>ext := w\<rparr>\<lparr>ext := x\<rparr>)"
    by (rule store_works [OF env live2 small(2,4) count2 key [OF N(2)] room])
  have v3: "stands_for X ?N (s2\<lparr>ext := w\<rparr>\<lparr>ext := x\<rparr>, v3, ?pw)
      (?pw, m1(k_name 0 \<mapsto> ascii ''v2''))"
    using stands_for_store [OF laws(1) v2 apart N(2) old] by simp
  have "retrieve X v3 (s2\<lparr>ext := w\<rparr>\<lparr>ext := x\<rparr>) (k_name 0) = Inr (Some (ascii ''v2''))"
    using retrieve_stands_for [OF v3 N(2)] by (simp add: retrieve_def)
  then show ?thesis
    using old by (simp add: full_vault_rejects_new_name_as_invalid_input_def v(1) f(1) new(1)
        name_zero)
qed

text \<open>An export over the bound is refused, and leaves only the counter advanced.\<close>

lemma export_too_large:
  assumes "env_works X" "vault_ok s v" "unat (nonce_counter (index v)) + 1 < 2 ^ 64"
    and "MAX_VAULT_FILE_SIZE < export_size X v" "export_size X v < 2 ^ 32"
  obtains m v1 s1 where "export X v s = (Inl (SerializationError m), v1, s1)"
    "files (index v1) = files (index v)" "nonce_counter (index v1) = nonce_counter (index v) + 1"
  by (rule export_runs [OF assms(1-3,5)])
    (use assms(4) in \<open>auto simp: validate_export_size_def intro: that\<close>)

lemma export_stands_for:
  assumes "ext_laws X" "stands_for X N (s, v, pw) (pw, m)" "export X v s = (r, v1, s1)"
  shows "stands_for X N (s1, v1, pw) (pw, m)"
  using assms(2)
proof (rule stands_forD)
  fix ek hk
  assume c: "vault_ok s v" "keys_live s (index v) ek hk"
    "password_keys X pw (header v) = Inr (ek, hk)" "sealed_for X ek hk N (files (index v))"
    "\<forall>n \<in> N. read_secret X ek hk (files (index v)) n = Inr (m n)"
  note eff = export_effect [OF assms(3)]
  have "keys_live s1 (index v1) ek hk" using c(2) keys_live_ext [OF eff(7,4,5)] by blast
  with c(3-5) show ?thesis
    by (intro stands_forI [OF export_vault_ok [OF assms(1) c(1) assms(3)]]) (auto simp: eff(1,2))
qed

lemma length_pseudo_bytes [simp]: "length (pseudo_bytes len seed) = len"
  by (simp add: pseudo_bytes_def)

lemma size_cap_test_passes:
  assumes "test_machine X s"
    and "names_separated X {ascii ''a'', ascii ''b'', ascii ''c'', ascii ''d''}"
  shows "export_rejects_vault_exceeding_max_file_size X s"
proof -
  let ?a = "ascii ''a''" and ?b = "ascii ''b''" and ?c = "ascii ''c''" and ?d = "ascii ''d''"
    and ?pw = "ascii ''password-size-cap''"
  let ?N = "{?a, ?b, ?c, ?d}" and ?p = "pseudo_bytes MAX_ENTRY_DATA_SIZE"
  define ps where "ps = [(?a, ?p 1), (?b, ?p 2), (?c, ?p 3), (?d, ?p 4)]"
  have env: "env_works X" using assms(1) by (simp add: test_machine_def)
  note laws = env_worksD [OF env] and apart = separated_apart [OF assms(2)]
  have neq: "?a \<noteq> ?b" "?a \<noteq> ?c" "?a \<noteq> ?d" "?b \<noteq> ?c" "?b \<noteq> ?d" "?c \<noteq> ?d"
    by (simp_all add: ascii_def)
  obtain v s1 where v: "create X ?pw s = (Inr v, s1)"
    "stands_for X ?N (s1, v, ?pw) (?pw, Map.empty)" "files (index v) = []"
    "data_nonce_counter (index v) = 0" "nonce_counter (index v) = 0" "test_machine X s1"
    by (rule created [OF assms(1), of ?pw]) (use apart in \<open>auto simp: test_lengths\<close>)
  obtain ek hk where live: "keys_live s1 (index v) ek hk" using v(2) by (auto simp: stands_for_def)
  have names: "names_apart X hk ?N"
    using assms(2) live by (simp add: names_separated_def keys_live_def)
  obtain v1 s2 where f: "store_each X ps v s1 = (Inr (), v1, s2)" "test_machine X s2"
    "stands_for X ?N (s2, v1, ?pw) (?pw, map_of (rev ps))" "keys_live s2 (index v1) ek hk"
    "map fst (files (index v1)) = map (key_of X hk) [?a, ?b, ?c, ?d]"
    "nonce_counter (index v1) = 0"
    "export_size X v1 = export_size X v + sum_list (map stored_size ps)"
    using store_each_works [OF names _ v(6,2) apart live, of "[]" ps] v(3-5) neq
    by (auto simp: ps_def test_lengths MAX_INDEX_ENTRIES_def)
  have ok: "vault_ok s1 v" "vault_ok s2 v1" using v(2) f(3) by (simp_all add: stands_for_def)
  have "export_size X v \<le> MAX_VAULT_FILE_SIZE" using export_size_small [OF env ok(1)] by (simp add: v(3))
  then have size: "MAX_VAULT_FILE_SIZE < export_size X v1" "export_size X v1 < 2 ^ 32"
    by (simp_all add: f(7) ps_def stored_size_def const_defs)
  obtain m v2 s3 where e: "export X v1 s2 = (Inl (SerializationError m), v2, s3)"
    "files (index v2) = files (index v1)" "nonce_counter (index v2) = 1"
    by (rule export_too_large [OF env ok(2) _ size]) (simp_all add: f(6))
  note v2 = export_stands_for [OF laws(1) f(3) e(1)]
  have tm: "test_machine X s3" using export_effect(7) [OF e(1)] f(2) by (auto simp: test_machine_def)
  obtain v3 where r: "remove X v2 s3 ?d = (Inr (map_of (rev ps) ?d \<noteq> None), v3)"
    "stands_for X ?N (s3, v3, ?pw) (?pw, (map_of (rev ps))(?d := None))"
    by (rule remove_stands_for [OF env v2 apart, of ?d]) simp_all
  have live2: "keys_live s3 (index v2) ek hk"
    using f(4) keys_live_ext [OF export_effect(7,4,5) [OF e(1)]] by blast
  from live2 r(1) obtain k where k: "name_key X hk ?d = Inr k"
    "v3 = v2\<lparr>index := (index v2)\<lparr>files := AList.delete k (files (index v2))\<rparr>\<rparr>"
    by (cases rule: remove_cases) auto
  then have v3: "files (index v3) = AList.delete (key_of X hk ?d) (files (index v2))"
    "nonce_counter (index v3) = 1" by (simp_all add: e(3))
  have "map fst (files (index v3)) = removeAll (key_of X hk ?d) (map (key_of X hk) [?a, ?b, ?c, ?d])"
    by (simp only: v3(1) delete_keys e(2) f(5))
  then have "length (files (index v3)) \<le> 3" by (auto dest: arg_cong [of _ _ length])
  moreover have "vault_ok s3 v3" using r(2) by (simp add: stands_for_def)
  ultimately have small: "export_size X v3 \<le> MAX_VAULT_FILE_SIZE" using export_size_small [OF env] by blast
  have counter: "unat (nonce_counter (index v3)) < 2" by (simp add: v3(2))
  obtain out v4 s4 u t where x: "export X v3 s3 = (Inr out, v4, s4)" "open_vault X ?pw out s4 = (Inr u, t)"
    "\<And>n. n \<in> ?N \<Longrightarrow> retrieve X u t n = Inr (((map_of (rev ps))(?d := None)) n)"
    by (rule exported [OF tm r(2) counter small]) blast
  have "index_ok (index v3)" "\<exists>ek hk. keys_live s3 (index v3) ek hk"
    using r(2) by (auto simp: stands_for_def vault_ok_def)
  then have "length out \<le> MAX_VAULT_FILE_SIZE" 
    by (elim exE export_ok [OF laws(1) _ _ x(1)])
  then show ?thesis
    using x(3) [of ?a] neq r(1)
    by (simp add: export_rejects_vault_exceeding_max_file_size_def v(1) f(1) [unfolded ps_def] e(1)
        x(1,2) with_secret_def retrieve_def ps_def del: store_each.simps)
qed

end
