(* ===== verification/ProgramProperties.thy ===== *)
theory ProgramProperties
  imports ForgeTests CapTests Sample
begin

text \<open>
  The properties of whole programs over a vault: the refinement of a password-protected map, and
  the conditions under which each operation succeeds. Their witnesses run on the sample instance
  and, where the environment has to work, on \<open>working\<close>, the sample without its failures.
\<close>

section \<open>An environment that works\<close>

text \<open>A fresh address next to any finite memory.\<close>

definition next_addr :: "memory \<Rightarrow> nat \<Rightarrow> nat" where
  "next_addr h w = (if h w = None then w else Suc (Max (dom h)))"

text \<open>A tag that separates all names of at most 31 bytes.\<close>

definition working_tag :: "bytes \<Rightarrow> bytes" where
  "working_tag m = (if length m \<le> 31 then of_nat (length m) # m @ replicate (31 - length m) 0
     else replicate 32 0)"

lemma length_working_tag [simp]: "length (working_tag m) = 32"
  by (simp add: working_tag_def)

lemma working_tag_inject:
  assumes "length a \<le> 31" "length b \<le> 31" "working_tag a = working_tag b"
  shows "a = b"
proof -
  have "unat (of_nat (length a) :: byte) = unat (of_nat (length b) :: byte)"
    using assms by (simp add: working_tag_def)
  then have "length a = length b" using assms(1,2) by (simp add: unat_of_nat)
  with assms show ?thesis by (simp add: working_tag_def)
qed

definition working :: "nat externals" where
  "working = sample
     \<lparr>os_rng_fill := \<lambda>n w. (Some (replicate n (of_nat w)), Suc w),
      memsec_malloc_sized := \<lambda>n h w.
        if finite (dom h) then (Some (next_addr h w, replicate n 0xAA), Suc w) else (None, w),
      memsec_mlock := \<lambda>p n w. (True, w),
      hmac_sha256 := \<lambda>k m. Inr (working_tag m),
      header_to_json := \<lambda>h. case header_to_json sample h of Inl e \<Rightarrow> Inl e | Inr b \<Rightarrow> Inr (0 # b),
      header_from_json := \<lambda>b. if b \<noteq> [] \<and> hd b = 0 then header_from_json sample (tl b)
        else Inl ''header''\<rparr>"

lemma next_addr_fresh: "finite (dom h) \<Longrightarrow> next_addr h w \<notin> dom h"
proof -
  assume fin: "finite (dom h)"
  have "Suc (Max (dom h)) \<notin> dom h"
    using Max_ge [OF fin, of "Suc (Max (dom h))"] by auto
  then show ?thesis by (auto simp: next_addr_def)
qed

lemma working_fields:
  "chacha_secret_key working = chacha_secret_key sample"
  "xchacha_nonce working = xchacha_nonce sample"
  "xchacha_seal working = xchacha_seal sample" "xchacha_open working = xchacha_open sample"
  "hkdf_sha256 working = hkdf_sha256 sample" "hmac_secret_key working = hmac_secret_key sample"
  "hmac_sha256 working k m = Inr (working_tag m)" "secure_cmp working = secure_cmp sample"
  "argon2_params_new working = argon2_params_new sample"
  "argon2_block_count working = argon2_block_count sample"
  "argon2id_hash working = argon2id_hash sample"
  "index_v1_from_json working = index_v1_from_json sample"
  by (simp_all add: working_def)

lemma working_json: "json_laws working"
  unfolding json_laws_def
proof (intro conjI allI impI)
  fix h :: vault_header
  assume salt: "length (kdf_salt h) = SALT_LEN"
  then obtain b where b: "toy_header_to_json h = Inr b" by (simp add: toy_header_to_json_def)
  with toy_header_roundtrip [OF salt b]
  show "\<exists>b. header_to_json working h = Inr b \<and> length b \<le> MAX_HEADER_JSON_LEN \<and>
      header_from_json working b = Inr h"
    by (simp add: working_def sample_fields const_defs)
next
  fix b h
  assume "header_from_json working b = Inr h"
  then have "header_from_json sample (tl b) = Inr h"
    by (simp add: working_def split: if_splits)
  then show "length (kdf_salt h) = SALT_LEN"
    using ext_lawsD(5) [OF sample_laws] unfolding json_laws_def by blast
next
  fix b i
  assume "index_v1_from_json working b = Inr i"
  then show "distinct (map fst (v1_files i))"
    using ext_lawsD(5) [OF sample_laws] unfolding json_laws_def working_fields by blast
qed

lemma working_laws: "ext_laws working"
proof -
  have "rng_laws working" by (simp add: rng_laws_def working_def)
  moreover have "memsec_laws working"
    using next_addr_fresh by (auto simp: memsec_laws_def working_def split: if_splits)
  moreover have "aead_laws working"
    using ext_lawsD(3) [OF sample_laws] unfolding aead_laws_def working_fields .
  moreover have "hash_laws working"
    using ext_lawsD(4) [OF sample_laws] by (simp add: hash_laws_def working_fields SUBKEY_LEN_def)
  moreover have "json_laws working"
    by (rule working_json)
  ultimately show ?thesis by (simp add: ext_laws_def)
qed

lemma working_env: "env_works working"
proof -
  have "memory_works working" by (simp add: memory_works_def working_def)
  moreover have "crypto_works working"
    by (simp add: crypto_works_def working_fields sample_fields toy_seal_def)
  moreover have "kdf_works working"
    by (simp add: kdf_works_def working_fields sample_fields)
  ultimately show ?thesis by (simp add: env_works_def working_laws)
qed

lemma sample_heap_finite: "finite (dom (heap sample_sys))"
  by (simp add: sample_sys_def)

lemma working_vault:
  obtains v s' where "create working sample_password sample_sys = (Inr v, s')" "vault_ok s' v"
    "unlocked_by working sample_password s' v" "files (index v) = []"
    "data_nonce_counter (index v) = 0" "nonce_counter (index v) = 0" "finite (dom (heap s'))"
proof -
  obtain v s' where c: "create working sample_password sample_sys = (Inr v, s')"
    by (rule create_works [OF working_env _ _ sample_heap_finite, of sample_password])
      (simp_all add: sample_password_length MIN_PASSWORD_LEN_def)
  obtain ek hk where f: "fresh_vault working sample_password sample_sys v ek hk s'"
    by (rule create_ok [OF working_laws sample_mem_ok c])
  then have "finite (dom (heap s'))"
    using adds_keys_finite [OF _ sample_heap_finite] by (auto simp: fresh_vault_def)
  with f c fresh_vault_ok [OF f] that show thesis by (simp add: fresh_vault_def)
qed

section \<open>A vault is a password-protected map\<close>

text \<open>C1: A vault refines a password-protected map. For any program that creates a vault and then
  makes any calls of \<open>store\<close>, \<open>remove\<close>, \<open>change_password\<close>, and \<open>export\<close> followed by \<open>open\<close>,
  whether they succeed or fail: the vault is well-formed, is unlocked by the password the
  successful changes leave, and every name in use reads as what the successful calls make of the
  empty map. The names in use must have distinct HMAC keys in each vault on the way.\<close>

theorem program_refines_protected_map:
  assumes "ext_laws X" "mem_ok s" "create X password s = (Inr v, s')"
    and "\<forall>c \<in> set calls. call_names c \<subseteq> N"
    and "run_calls (perform_call X) calls (s', v, password) = steps"
    and "config_apart X N (s', v, password)" "\<forall>t \<in> set steps. config_apart X N (snd t)"
    and "final_state (s', v, password) steps = (s2, w, password2)"
    and "run_effects call_effect calls (map fst steps) (password, Map.empty) = (password3, m)"
  shows "password2 = password3 \<and> vault_ok s2 w \<and> unlocked_by X password3 s2 w \<and>
    (\<forall>n \<in> N. retrieve X w s2 n = Inr (m n))"
proof (rule create_ok [OF assms(1-3)])
  fix ek hk
  assume f: "fresh_vault X password s v ek hk s'"
  then have "keys_live s' (index v) ek hk" by (simp add: fresh_vault_def adds_keys_def)
  from config_apartD [OF assms(6) this] have "names_apart X hk N" .
  with fresh_stands_for [OF f] assms(1)
  have start: "ext_laws X \<and> stands_for X N (s', v, password) (password, Map.empty)" by blast
  from program.run_simulates [OF start assms(6), of calls] assms(4,5,7)
  have "stands_for X N (final_state (s', v, password) steps)
      (run_effects call_effect calls (map fst steps) (password, Map.empty))" by auto
  then show ?thesis by (auto simp: assms(8,9) stands_for_def)
qed

lemma sample_apart: "config_apart sample {sample_name, other_name} c"
  by (cases c) (simp add: config_apart_def sample_names_apart)

definition sample_calls :: "vault_call list" where
  "sample_calls = [CallStore sample_name sample_secret, CallChange sample_password (ascii ''new password''),
     CallReopen]"

theorem program_refines_protected_map_witness:
  "\<exists>steps s2 w password2 password3 m.
     run_calls (perform_call sample) sample_calls (sample_run, sample_vault, sample_password) = steps \<and>
     map fst (take 2 steps) = [True, True] \<and>
     run_effects call_effect sample_calls (map fst steps) (sample_password, Map.empty) =
       (password3, m) \<and> password3 = ascii ''new password'' \<and>
     retrieve sample w s2 sample_name = Inr (Some sample_secret)"
proof -
  let ?c = "(sample_run, sample_vault, sample_password)"
  obtain steps where steps: "run_calls (perform_call sample) sample_calls ?c = steps" by simp
  obtain s2 w password2 where fin: "final_state ?c steps = (s2, w, password2)"
    by (cases "final_state ?c steps") auto
  obtain password3 m where eff: "run_effects call_effect sample_calls (map fst steps)
      (sample_password, Map.empty) = (password3, m)" by fastforce
  have names: "\<forall>c \<in> set sample_calls. call_names c \<subseteq> {sample_name, other_name}"
    by (simp add: sample_calls_def)
  have apart: "\<forall>t \<in> set steps. config_apart sample {sample_name, other_name} (snd t)"
    by (simp add: sample_apart)
  obtain v' s' where ch: "change_password sample sample_filled sample_run2 sample_password
      (ascii ''new password'') = (Inr (), v', s')" using sample_change_password by blast
  obtain ok c' where re: "reopen sample (s', v', ascii ''new password'') = (ok, c')"
    by (cases "reopen sample (s', v', ascii ''new password'')") auto
  have oks: "map fst steps = [True, True, ok]"
    using steps sample_store ch re by (auto simp: sample_calls_def)
  then have m: "password3 = ascii ''new password''" "m sample_name = Some sample_secret"
    using eff by (cases ok; auto simp: sample_calls_def)+
  from program_refines_protected_map [OF sample_laws sample_mem_ok sample_create names steps
      sample_apart apart fin eff] m
  have "retrieve sample w s2 sample_name = Inr (Some sample_secret)" by simp
  with steps eff m(1) oks show ?thesis
    by (intro exI [of _ steps] exI [of _ s2] exI [of _ w] exI [of _ password2] exI [of _ password3]
        exI [of _ m]) (simp add: take_map [symmetric])
qed

section \<open>When the operations succeed\<close>

text \<open>C32: In a working environment \<open>create\<close> succeeds exactly on passwords of at least 8 bytes.\<close>

theorem create_succeeds_iff:
  assumes "env_works X" "finite (dom (heap s))" "length password < 2 ^ 32"
  shows "(\<exists>v s'. create X password s = (Inr v, s')) \<longleftrightarrow> MIN_PASSWORD_LEN \<le> length password"
proof
  assume "\<exists>v s'. create X password s = (Inr v, s')"
  then show "MIN_PASSWORD_LEN \<le> length password"
    by (auto simp: create_def validate_password_def split: if_splits)
next
  assume "MIN_PASSWORD_LEN \<le> length password"
  then obtain v s' where "create X password s = (Inr v, s')"
    by (rule create_works [OF assms(1) _ assms(3,2)])
  then show "\<exists>v s'. create X password s = (Inr v, s')" by blast
qed

theorem create_succeeds_iff_witness:
  "\<exists>v s'. create working sample_password sample_sys = (Inr v, s')"
  using create_succeeds_iff [OF working_env sample_heap_finite, of sample_password]
  by (simp add: sample_password_length MIN_PASSWORD_LEN_def)

lemma counter_max: "unat c + 1 < 2 ^ 64 \<longleftrightarrow> c \<noteq> 2 ^ 64 - 1" for c :: u64
  using unat_bound [of c] by (auto simp: word_unat_eq_iff)

text \<open>C24: In a working environment \<open>store\<close> succeeds exactly when the name is at most 255 bytes and
  the secret at most 64 MiB long, the data counter is not exhausted, and the name is in the vault
  or the vault holds fewer than 1024 entries.\<close>

theorem store_succeeds_iff:
  assumes "env_works X" "vault_ok s v"
  shows "(\<exists>v' s'. store X v s name secret = (Inr (), v', s')) \<longleftrightarrow>
    length name \<le> MAX_ENTRY_NAME_LEN \<and> length secret \<le> MAX_ENTRY_DATA_SIZE \<and>
    data_nonce_counter (index v) \<noteq> 2 ^ 64 - 1 \<and>
    (\<exists>k. hmac_key_for_name X s (index v) name = Inr k \<and>
       (lookup_by_key (index v) k \<noteq> None \<or> length (files (index v)) < MAX_INDEX_ENTRIES))"
proof -
  obtain ek hk where live: "keys_live s (index v) ek hk" using assms(2) by (auto simp: vault_ok_def)
  then have "length hk = SUBKEY_LEN" by (simp add: keys_live_def)
  then obtain k where k: "name_key X hk name = Inr k" by (rule name_key_works [OF assms(1)])
  show ?thesis
    using store_works_iff [OF assms(1) live k, of secret] k
    by (simp only: counter_max keys_live_hmac [OF live] has_room_def) auto
qed

theorem store_succeeds_iff_witness:
  "\<exists>v s v' s'. vault_ok s v \<and> store working v s sample_name sample_secret = (Inr (), v', s')"
proof (rule working_vault)
  fix v and s :: "nat sys"
  assume v: "vault_ok s v" "files (index v) = []" "data_nonce_counter (index v) = 0"
  from v(1) obtain ek hk where live: "keys_live s (index v) ek hk" by (auto simp: vault_ok_def)
  then have "length hk = SUBKEY_LEN" by (simp add: keys_live_def)
  then obtain k where "name_key working hk sample_name = Inr k"
    by (rule name_key_works [OF working_env])
  with v store_succeeds_iff [OF working_env v(1), of sample_name sample_secret] show ?thesis
    by (fastforce simp: keys_live_hmac [OF live] sample_name_def sample_secret_def const_defs)
qed

text \<open>C11: In a working environment \<open>export\<close> succeeds exactly when the nonce counter is not
  exhausted and the file it would write is at most 256 MiB long; the bytes it writes can always
  be opened again with the password, in any process, and every name then reads as before.\<close>

theorem export_succeeds_and_reopens:
  assumes "env_works X" "vault_ok s v" "unlocked_by X password s v"
    and "mem_ok t" "finite (dom (heap t))"
  shows "((\<exists>out v' s'. export X v s = (Inr out, v', s')) \<longleftrightarrow>
      nonce_counter (index v) \<noteq> 2 ^ 64 - 1 \<and> export_size X v \<le> MAX_VAULT_FILE_SIZE) \<and>
    (\<forall>out v' s'. export X v s = (Inr out, v', s') \<longrightarrow>
      (\<exists>w t'. open_vault X password out t = (Inr w, t') \<and>
         (\<forall>n. retrieve X w t' n = retrieve X v s n)))"
proof -
  have "\<exists>w t'. open_vault X password out t = (Inr w, t') \<and>
      (\<forall>n. retrieve X w t' n = retrieve X v s n)"
    if e: "export X v s = (Inr out, v', s')" for out v' s'
  proof -
    obtain w t' where "open_vault X password out t = (Inr w, t')"
      by (rule reopen_works [OF assms(1-3) e assms(5)])
    with export_reopens [OF env_worksD(1) [OF assms(1)] assms(2,3) e assms(4)]
    show ?thesis by auto
  qed
  then show ?thesis
    using export_works_iff [OF assms(1,2)] by (simp only: counter_max) blast
qed

lemma working_header_json:
  assumes "vault_ok s v"
  shows "length (projr (header_to_json working (header v))) = 35"
  using assms
  by (simp add: vault_ok_def working_def sample_fields toy_header_to_json_def SALT_LEN_def)

theorem export_succeeds_and_reopens_witness:
  "\<exists>(v :: vault) s out v' s' w t'. export working v s = (Inr out, v', s') \<and>
     open_vault working sample_password out sample_sys = (Inr w, t')"
proof (rule working_vault)
  fix v and s :: "nat sys"
  assume v: "vault_ok s v" "unlocked_by working sample_password s v" "files (index v) = []"
    "nonce_counter (index v) = 0"
  note live = export_succeeds_and_reopens [OF working_env v(1,2) sample_mem_ok sample_heap_finite]
  have "export_size working v \<le> MAX_VAULT_FILE_SIZE"
    by (simp add: export_size_def working_header_json [OF v(1)] encoded_total_def v(3) const_defs)
  with live v(4) show ?thesis by fastforce
qed

text \<open>C10: In a working environment the password can always be changed: on a vault whose entries
  were stored under Rust strings, \<open>change_password\<close> from the current password succeeds exactly
  when the new one has at least 8 bytes. No vault can get stuck under its password.\<close>

theorem change_password_succeeds_iff:
  assumes "env_works X" "stands_for X N (s, v, password) (password, m)"
    and "\<forall>n \<in> N. utf8_valid n" "finite (dom (heap s))" "length new < 2 ^ 32"
  shows "(\<exists>v' s'. change_password X v s password new = (Inr (), v', s')) \<longleftrightarrow>
    MIN_PASSWORD_LEN \<le> length new"
  using assms(2)
proof (rule stands_forD)
  fix ek hk
  assume c: "vault_ok s v" "keys_live s (index v) ek hk"
    "password_keys X password (header v) = Inr (ek, hk)" "sealed_for X ek hk N (files (index v))"
  have "sealed_for X ek hk strings (files (index v))"
    using c(4) assms(3) by (force simp: sealed_for_def)
  from change_password_works_iff [OF assms(1) c(1,2) this assms(5,4), of password] c(3)
  show ?thesis by simp
qed

theorem change_password_succeeds_iff_witness:
  "\<exists>v s v' s'. create working sample_password sample_sys = (Inr v, s) \<and>
     change_password working v s sample_password (ascii ''new password'') = (Inr (), v', s')"
proof (rule working_vault)
  fix v and s :: "nat sys"
  assume v: "create working sample_password sample_sys = (Inr v, s)" "finite (dom (heap s))"
  obtain ek hk where f: "fresh_vault working sample_password sample_sys v ek hk s"
    by (rule create_ok [OF working_laws sample_mem_ok v(1)])
  have "names_apart working hk {}" by (simp add: names_apart_def)
  from change_password_succeeds_iff [OF working_env fresh_stands_for [OF f this] _ v(2),
      of "ascii ''new password''"] v(1)
  show ?thesis by (auto simp: MIN_PASSWORD_LEN_def)
qed

end
