(* ===== verification/Process.thy ===== *)
theory Process
  imports Session
begin

text \<open>
  Several vaults in one process. A process holds vaults in variables and calls their operations
  in any order; they share the locked memory and the random generator. The locale
  \<open>resource_pool\<close> is the contract between objects that own resources of a common state: what one
  of them does to its own resources leaves the others sound. Its interpretation on vaults and
  their locked regions gives the invariant of the process: the live regions are exactly those of
  the vaults it holds, and no region has two owners.
\<close>

section \<open>Objects that own resources\<close>

text \<open>
  \<open>contents\<close> reads the resources of a state, \<open>owns\<close> gives those of an object, and whether an
  object is sound depends on its own resources only.
\<close>

locale resource_pool =
  fixes base :: "'s \<Rightarrow> bool"
    and contents :: "'s \<Rightarrow> 'r \<Rightarrow> 'c option"
    and sound :: "'s \<Rightarrow> 'v \<Rightarrow> bool"
    and owns :: "'v \<Rightarrow> 'r set"
  assumes sound_base: "sound s v \<Longrightarrow> base s"
    and sound_live: "sound s v \<Longrightarrow> owns v \<subseteq> dom (contents s)"
    and sound_frame: "\<lbrakk>sound s v; base s'; \<forall>r \<in> owns v. contents s' r = contents s r\<rbrakk> \<Longrightarrow>
      sound s' v"
begin

definition owned :: "'v option \<Rightarrow> 'r set" where
  "owned x = (case x of None \<Rightarrow> {} | Some v \<Rightarrow> owns v)"

lemma owned_simps [simp]: "owned None = {}" "owned (Some v) = owns v"
  by (simp_all add: owned_def)

definition pool_ok :: "'s \<Rightarrow> ('h \<Rightarrow> 'v option) \<Rightarrow> bool" where
  "pool_ok s m \<longleftrightarrow>
     base s \<and> (\<forall>h v. m h = Some v \<longrightarrow> sound s v) \<and>
     (\<forall>h g. h \<noteq> g \<longrightarrow> owned (m h) \<inter> owned (m g) = {}) \<and>
     dom (contents s) = (\<Union>h. owned (m h))"

text \<open>
  The object in one variable is replaced: new resources were free, old ones that are not kept
  are released, all others are as before.
\<close>

definition transfers :: "'s \<Rightarrow> 'v option \<Rightarrow> 's \<Rightarrow> 'v option \<Rightarrow> bool" where
  "transfers s x s' x' \<longleftrightarrow>
     base s' \<and> (\<forall>v. x' = Some v \<longrightarrow> sound s' v) \<and>
     (\<forall>r \<in> owned x' - owned x. contents s r = None) \<and>
     (\<forall>r \<in> owned x - owned x'. contents s' r = None) \<and>
     (\<forall>r. (r \<in> owned x \<longleftrightarrow> r \<in> owned x') \<longrightarrow> contents s' r = contents s r)"

lemma transfers_idle:
  assumes "base s'" "contents s' = contents s" "\<And>v. x = Some v \<Longrightarrow> sound s v"
  shows "transfers s x s' x"
  using assms sound_frame by (auto simp: transfers_def)

lemma transfer_others:
  assumes "pool_ok s m" "transfers s (m h) s' x" "g \<noteq> h" "r \<in> owned (m g)"
  shows "contents s' r = contents s r"
proof -
  from assms(1,4) have "r \<in> dom (contents s)" by (auto simp: pool_ok_def)
  with assms(2) have "r \<notin> owned x - owned (m h)" by (fastforce simp: transfers_def)
  moreover from assms(1,3,4) have "r \<notin> owned (m h)"
    unfolding pool_ok_def by blast
  ultimately show ?thesis using assms(2) by (simp add: transfers_def)
qed

lemma pool_transfer:
  assumes "pool_ok s m" "transfers s (m h) s' x"
  shows "pool_ok s' (m(h := x))"
proof -
  note p = assms(1) [unfolded pool_ok_def] and t = assms(2) [unfolded transfers_def]
  note others = transfer_others [OF assms]
  have sound: "sound s' v" if "(m(h := x)) g = Some v" for g v
  proof (cases "g = h")
    case False
    with that have g: "m g = Some v" by simp
    with p have "sound s v" by blast
    then show ?thesis
      using others [OF False] t g by (intro sound_frame [of s v s']) auto
  qed (use that t in auto)
  have "owned x \<inter> owned (m g) = {}" if "g \<noteq> h" for g
  proof -
    have "owned (m g) \<subseteq> dom (contents s)" using p by blast
    then have "(owned x - owned (m h)) \<inter> owned (m g) = {}" using t by auto
    moreover have "owned (m h) \<inter> owned (m g) = {}" using p that by blast
    ultimately show ?thesis by blast
  qed
  then have sep: "owned ((m(h := x)) g) \<inter> owned ((m(h := x)) g') = {}" if "g \<noteq> g'" for g g'
    using p that by (cases "g = h"; cases "g' = h") (auto simp: Int_commute)
  have eq: "(\<Union>g. owned ((m(h := x)) g)) = owned x \<union> (\<Union>g \<in> - {h}. owned (m g))"
    by (auto split: if_splits)
  have dom: "dom (contents s) = owned (m h) \<union> (\<Union>g \<in> - {h}. owned (m g))" using p by auto
  have other: "r \<notin> owned (m g)" if "r \<in> owned (m h)" "g \<noteq> h" for r g
    using p that by blast
  have "r \<in> dom (contents s') \<longleftrightarrow> r \<in> owned x \<union> (\<Union>g \<in> - {h}. owned (m g))" for r
  proof (cases "r \<in> owned x")
    case True
    then have "r \<in> dom (contents s')" using t sound_live by (cases x) auto
    with True show ?thesis by simp
  next
    case False
    show ?thesis
    proof (cases "r \<in> owned (m h)")
      case True
      with False t other show ?thesis by auto
    next
      case no: False
      with False t have "contents s' r = contents s r" by simp
      then have "r \<in> dom (contents s') \<longleftrightarrow> r \<in> dom (contents s)" by (simp add: domIff)
      then show ?thesis using no False unfolding dom by simp
    qed
  qed
  then have "dom (contents s') = (\<Union>g. owned ((m(h := x)) g))" unfolding eq by blast
  with t sound sep show ?thesis by (simp only: pool_ok_def) simp
qed

end

section \<open>Vaults own their subkeys\<close>

definition vault_regions :: "vault \<Rightarrow> locked_secret set" where
  "vault_regions v = {enc_key (index v), hmac_key (index v)}"

lemma vault_ok_frame:
  assumes "vault_ok s v" "mem_ok s'" "\<forall>r \<in> vault_regions v. secret_bytes s' r = secret_bytes s r"
  shows "vault_ok s' v" "keys_live s' (index v) ek hk \<longleftrightarrow> keys_live s (index v) ek hk"
proof -
  show live: "keys_live s' (index v) ek hk \<longleftrightarrow> keys_live s (index v) ek hk" for ek hk
    using assms(3) by (simp add: keys_live_def vault_regions_def)
  show "vault_ok s' v" using assms(1,2) by (simp add: vault_ok_def live)
qed

lemma vault_regions_live: "vault_ok s v \<Longrightarrow> vault_regions v \<subseteq> dom (secret_bytes s)"
  by (auto simp: vault_ok_def keys_live_def vault_regions_def)

interpretation vaults: resource_pool mem_ok secret_bytes vault_ok vault_regions
proof unfold_locales
  fix s s' :: "'w sys" and v
  show "mem_ok s" if "vault_ok s v" using that by (simp add: vault_ok_def)
  show "vault_regions v \<subseteq> dom (secret_bytes s)" if "vault_ok s v"
    using that by (rule vault_regions_live)
  show "vault_ok s' v" if "vault_ok s v" "mem_ok s'"
    "\<forall>r \<in> vault_regions v. secret_bytes s' r = secret_bytes s r"
    using that by (rule vault_ok_frame(1))
qed

lemma adds_keys_transfers:
  assumes "adds_keys s (index v) ek hk s'" "vault_ok s' v"
  shows "vaults.transfers s None s' (Some v)"
  using assms by (auto simp: vaults.transfers_def adds_keys_def vault_regions_def)

lemma fresh_vault_transfers:
  "fresh_vault X password s v ek hk s' \<Longrightarrow> vaults.transfers s None s' (Some v)"
  by (rule adds_keys_transfers [OF _ fresh_vault_ok(1)]) (auto simp: fresh_vault_def)

lemma create_transfers:
  assumes "ext_laws X" "mem_ok s" "create X password s = (r, s')"
  shows "vaults.transfers s None s' (case r of Inl e \<Rightarrow> None | Inr v \<Rightarrow> Some v)"
proof (cases r)
  case (Inl e)
  with create_err [OF assms(1,2), of password e s'] assms(3) show ?thesis
    by (auto intro!: vaults.transfers_idle)
next
  case (Inr v)
  with assms(3) have "create X password s = (Inr v, s')" by simp
  then show ?thesis
    using Inr by (auto elim!: create_ok [OF assms(1,2)] dest: fresh_vault_transfers)
qed

text \<open>Re-keying: the old regions go, the new ones were not in use.\<close>

lemma rekey_regions:
  assumes "ext_laws X" "mem_ok s" "keys_live s (index v) oek ohk"
    and "rekey X v s password = (Inr u, v', s')"
  obtains ek hk where "mem_ok s'" "secret_bytes s' = (secret_bytes s)
      (enc_key (index v) := None, hmac_key (index v) := None,
       enc_key (index v') \<mapsto> ek, hmac_key (index v') \<mapsto> hk)"
    "\<forall>r \<in> vault_regions v'. secret_bytes s r = None"
proof -
  obtain ek hk where new: "moves_keys s (index v) (index v') ek hk s'"
    by (rule rekey_ok [OF assms])
  have "\<forall>r \<in> vault_regions v'. secret_bytes s r = None"
    using assms(1,2)
  proof (cases rule: rekey_starts [where v = v and password = password])
    case (err e s1)
    with assms(4) show ?thesis by simp
  next
    case (fresh w a b s2)
    from fresh(2) assms(4) obtain oek w1 s3 where
      run: "rekey_entries X oek (files (index v)) w s2 = (Inr (), w1, s3)"
      and v': "v' = v\<lparr>header := header w1, index := index w1\<rparr>"
      by (auto split: prod.splits sum.splits)
    from rekey_entries_frame [OF run] fresh(1) show ?thesis
      by (auto simp: v' vault_regions_def fresh_vault_def adds_keys_def)
  qed
  with new show thesis by (intro that [of ek hk]) (simp_all add: moves_keys_def)
qed

lemma change_password_transfers:
  assumes "ext_laws X" "vault_ok s v" "change_password X v s old new = (r, v', s')"
  shows "vaults.transfers s (Some v) s' (Some v')"
proof -
  have ok: "mem_ok s" "vault_ok s' v'"
    using assms(2) change_password_vault_ok [OF assms] by (simp_all add: vault_ok_def)
  show ?thesis
  proof (cases r)
    case (Inl e)
    from change_password_err [OF assms(1) ok(1) assms(3) [unfolded Inl]] show ?thesis
      using assms(2) by (auto intro!: vaults.transfers_idle)
  next
    case (Inr u)
    obtain oek ohk where live: "keys_live s (index v) oek ohk"
      using assms(2) by (auto simp: vault_ok_def)
    note rk = change_password_ok(3) [OF assms(3) [unfolded Inr]]
    obtain ek hk where "secret_bytes s' = (secret_bytes s)
        (enc_key (index v) := None, hmac_key (index v) := None,
         enc_key (index v') \<mapsto> ek, hmac_key (index v') \<mapsto> hk)"
      and "\<forall>r \<in> vault_regions v'. secret_bytes s r = None"
      by (rule rekey_regions [OF assms(1) ok(1) live rk])
    with live ok show ?thesis
      by (auto simp: vaults.transfers_def vault_regions_def vault_ok_def keys_live_def)
  qed
qed

lemma same_keys_transfer:
  assumes "vault_ok s v" "vault_ok s' v'" "\<exists>w. s' = s\<lparr>ext := w\<rparr>"
    and "enc_key (index v') = enc_key (index v)" "hmac_key (index v') = hmac_key (index v)"
  shows "vaults.transfers s (Some v) s' (Some v')"
  using assms by (auto simp: vaults.transfers_def vault_regions_def vault_ok_def)

lemma store_regions:
  assumes "store X v s name p = (r, v', s')"
  shows "enc_key (index v') = enc_key (index v)" "hmac_key (index v') = hmac_key (index v)"
  using assms by (auto simp: store_def insert_by_key_def dest!: counter_step
      split: if_splits prod.splits sum.splits)

lemma remove_regions:
  assumes "remove X v s name = (r, v')"
  shows "enc_key (index v') = enc_key (index v)" "hmac_key (index v') = hmac_key (index v)"
  using assms by (auto simp: remove_def remove_by_key_def split: prod.splits sum.splits option.splits)

lemma step_transfers:
  assumes "ext_laws X" "vault_step X (s, v) cmd (s', v')" "vault_ok s v"
  shows "vaults.transfers s (Some v) s' (Some v')"
proof -
  have ok: "vault_ok s' v'" using step_vault_ok [OF assms(1,2)] assms(3) by simp
  from assms(2) show ?thesis
  proof cases
    case (Store name p r)
    with store_keys(3) [OF Store(2)] store_regions [OF Store(2)] same_keys_transfer [OF assms(3) ok]
    show ?thesis by simp
  next
    case (Remove name r)
    have "\<exists>w. s' = s'\<lparr>ext := w\<rparr>" by (rule exI [of _ "ext s'"]) simp
    with Remove remove_regions [OF Remove(3)] same_keys_transfer [OF assms(3) ok] show ?thesis by simp
  next
    case (Export r)
    with export_effect(4,5,7) [OF Export(2)] same_keys_transfer [OF assms(3) ok] show ?thesis by simp
  next
    case (ChangePassword old new r)
    then show ?thesis by (intro change_password_transfers [OF assms(1,3)])
  qed
qed

lemma drop_transfers:
  assumes "ext_laws X" "vault_ok s v"
  shows "vaults.transfers s (Some v) (vault_index_drop X (index v) s) None"
  using vault_index_drop_effect [OF ext_lawsD(2) [OF assms(1)], of s "index v"] assms(2)
  by (auto simp: vaults.transfers_def vault_regions_def vault_ok_def)

lemma open_transfers:
  assumes "ext_laws X" "mem_ok s" "open_vault X password data s = (r, s')"
  shows "vaults.transfers s None s' (case r of Inl e \<Rightarrow> None | Inr v \<Rightarrow> Some v)"
proof (cases r)
  case (Inl e)
  with open_vault_err [OF assms(1,2), of password data e s'] assms(3) show ?thesis
    by (auto intro!: vaults.transfers_idle)
next
  case (Inr v)
  show ?thesis unfolding Inr sum.case
  proof (rule open_vault_ok [OF assms(1,2) assms(3) [unfolded Inr]])
    fix env ek hk d
    assume o: "opens_to X password data env ek hk d" and ok: "vault_ok s' v"
      and cur: "version (env_header env) \<noteq> LEGACY_VAULT_VERSION_1 \<Longrightarrow>
        (\<exists>es hs. v = loaded_vault env d es hs) \<and> adds_keys s (index v) ek hk s'"
      and old: "version (env_header env) = LEGACY_VAULT_VERSION_1 \<Longrightarrow>
        (\<exists>es hs s1. rekey X (loaded_vault env d es hs) s1 password = (Inr (), v, s') \<and>
          lock_subkeys X ek hk s = (Inr (es, hs), s1))"
    show "vaults.transfers s None s' (Some v)"
    proof (cases "version (env_header env) = LEGACY_VAULT_VERSION_1")
      case False
      with cur ok show ?thesis by (blast intro: adds_keys_transfers)
    next
      case True
      with old obtain es hs s1 where
        rk: "rekey X (loaded_vault env d es hs) s1 password = (Inr (), v, s')"
        and l: "lock_subkeys X ek hk s = (Inr (es, hs), s1)" by blast
      from loaded_vault_ok(1) [OF assms(1,2) o l]
      have adds: "mem_ok s1" "keys_live s1 (index (loaded_vault env d es hs)) ek hk"
        "secret_bytes s es = None" "secret_bytes s hs = None"
        "secret_bytes s1 = (secret_bytes s)(es \<mapsto> ek, hs \<mapsto> hk)"
        by (simp_all add: adds_keys_def loaded_vault_def)
      obtain a b where "secret_bytes s' = (secret_bytes s1)
          (es := None, hs := None, enc_key (index v) \<mapsto> a, hmac_key (index v) \<mapsto> b)"
        and "\<forall>r \<in> vault_regions v. secret_bytes s1 r = None"
        by (rule rekey_regions [OF assms(1) adds(1,2) rk]) (auto simp: loaded_vault_def)
      with adds(3-) ok show ?thesis
        by (auto simp: vaults.transfers_def vault_regions_def vault_ok_def split: if_splits)
    qed
  qed
qed

section \<open>Processes\<close>

text \<open>
  The state of the process and its variables. A step concerns one variable: \<open>create\<close> and \<open>open\<close>
  assign to a free one when they succeed, a call works on the vault of one, and a variable that
  goes out of scope drops its vault.
\<close>

type_synonym 'w process = "'w sys \<times> (nat \<rightharpoonup> vault)"

datatype process_event =
    NewVault bytes
  | OpenVault bytes bytes
  | Call command
  | DropVault

definition assign :: "nat \<Rightarrow> vault_error + vault \<Rightarrow> (nat \<rightharpoonup> vault) \<Rightarrow> (nat \<rightharpoonup> vault)" where
  "assign h r vs = (case r of Inl e \<Rightarrow> vs | Inr v \<Rightarrow> vs(h \<mapsto> v))"

inductive process_step ::
  "'w externals \<Rightarrow> 'w process \<Rightarrow> nat \<Rightarrow> process_event \<Rightarrow> 'w process \<Rightarrow> bool" for X where
  New: "vs h = None \<Longrightarrow> create X password s = (r, s') \<Longrightarrow>
    process_step X (s, vs) h (NewVault password) (s', assign h r vs)"
| Open: "vs h = None \<Longrightarrow> open_vault X password data s = (r, s') \<Longrightarrow>
    process_step X (s, vs) h (OpenVault password data) (s', assign h r vs)"
| Called: "vs h = Some v \<Longrightarrow> vault_step X (s, v) cmd (s', v') \<Longrightarrow>
    process_step X (s, vs) h (Call cmd) (s', vs(h \<mapsto> v'))"
| Drop: "vs h = Some v \<Longrightarrow>
    process_step X (s, vs) h DropVault (vault_index_drop X (index v) s, vs(h := None))"

inductive_cases process_newE: "process_step X c h (NewVault password) c'"
inductive_cases process_openE: "process_step X c h (OpenVault password data) c'"
inductive_cases process_callE: "process_step X c h (Call cmd) c'"
inductive_cases process_dropE: "process_step X c h DropVault c'"

inductive process_run :: "'w externals \<Rightarrow> 'w process \<Rightarrow> 'w process \<Rightarrow> bool" for X where
  Start: "process_run X c c"
| Step: "process_run X c c' \<Longrightarrow> process_step X c' h ev c'' \<Longrightarrow> process_run X c c''"

text \<open>
  The invariant: every vault is well-formed, no two vaults share a region, and the live regions
  are those of the vaults.
\<close>

definition process_ok :: "'w process \<Rightarrow> bool" where
  "process_ok c \<longleftrightarrow>
     mem_ok (fst c) \<and>
     (\<forall>h v. snd c h = Some v \<longrightarrow> vault_ok (fst c) v) \<and>
     (\<forall>h g. h \<noteq> g \<longrightarrow> (\<forall>v w. snd c h = Some v \<longrightarrow> snd c g = Some w \<longrightarrow>
        vault_regions v \<inter> vault_regions w = {})) \<and>
     (\<forall>r. secret_bytes (fst c) r \<noteq> None \<longleftrightarrow> (\<exists>h v. snd c h = Some v \<and> r \<in> vault_regions v))"

lemma process_ok_iff: "process_ok c \<longleftrightarrow> vaults.pool_ok (fst c) (snd c)"
proof -
  have mem: "r \<in> vaults.owned x \<longleftrightarrow> (\<exists>v. x = Some v \<and> r \<in> vault_regions v)" for r x
    by (cases x) simp_all
  have sep: "(vaults.owned x \<inter> vaults.owned y = {}) \<longleftrightarrow>
      (\<forall>v w. x = Some v \<longrightarrow> y = Some w \<longrightarrow> vault_regions v \<inter> vault_regions w = {})" for x y
    by (cases x; cases y) simp_all
  have dom: "dom (secret_bytes (fst c)) = (\<Union>h. vaults.owned (snd c h)) \<longleftrightarrow>
      (\<forall>r. secret_bytes (fst c) r \<noteq> None \<longleftrightarrow> (\<exists>h v. snd c h = Some v \<and> r \<in> vault_regions v))"
    by (simp only: set_eq_iff domIff UN_iff mem) simp
  show ?thesis unfolding process_ok_def vaults.pool_ok_def sep dom ..
qed

lemma process_ok_start: "secret_bytes s = Map.empty \<Longrightarrow> mem_ok s \<Longrightarrow> process_ok (s, Map.empty)"
  by (simp add: process_ok_def)

text \<open>Every step is a transfer of the regions of one variable.\<close>

lemma process_step_transfers:
  assumes "ext_laws X" "process_step X c h ev c'" "process_ok c"
  shows "vaults.transfers (fst c) (snd c h) (fst c') (snd c' h)" "snd c' = (snd c)(h := snd c' h)"
proof -
  have ok: "mem_ok (fst c)" using assms(3) by (simp add: process_ok_def)
  have "vaults.transfers (fst c) (snd c h) (fst c') (snd c' h) \<and> snd c' = (snd c)(h := snd c' h)"
    using assms(2)
  proof cases
    case (New vs password s r s')
    with create_transfers [OF assms(1), of s password r s'] ok show ?thesis
      by (cases r) (simp_all add: assign_def fun_upd_idem)
  next
    case (Open vs password data s r s')
    with open_transfers [OF assms(1), of s password data r s'] ok show ?thesis
      by (cases r) (simp_all add: assign_def fun_upd_idem)
  next
    case (Called vs v s cmd s' v')
    with assms(3) have "vault_ok s v" by (simp add: process_ok_def)
    with Called step_transfers [OF assms(1)] show ?thesis by simp
  next
    case (Drop vs v s)
    with assms(3) have "vault_ok s v" by (simp add: process_ok_def)
    with Drop drop_transfers [OF assms(1)] show ?thesis by simp
  qed
  then show "vaults.transfers (fst c) (snd c h) (fst c') (snd c' h)"
    "snd c' = (snd c)(h := snd c' h)" by simp_all
qed

lemma process_step_ok:
  assumes "ext_laws X" "process_step X c h ev c'" "process_ok c"
  shows "process_ok c'"
proof -
  from vaults.pool_transfer [of "fst c" "snd c" h "fst c'" "snd c' h"] assms(3)
    process_step_transfers(1) [OF assms]
  have "vaults.pool_ok (fst c') ((snd c)(h := snd c' h))" by (simp add: process_ok_iff)
  then show ?thesis
    unfolding process_ok_iff process_step_transfers(2) [OF assms, symmetric] .
qed

lemma process_run_ok:
  assumes "ext_laws X" "process_run X c c'" "process_ok c"
  shows "process_ok c'"
  using assms(2,3) by induction (auto intro: process_step_ok [OF assms(1)])

text \<open>A step on one variable leaves the vault in any other one as it was, and its keys too.\<close>

lemma process_step_others:
  assumes "ext_laws X" "process_step X c h ev c'" "process_ok c" "g \<noteq> h" "snd c g = Some w"
  shows "snd c' g = Some w" "\<forall>r \<in> vault_regions w. secret_bytes (fst c') r = secret_bytes (fst c) r"
proof -
  show "snd c' g = Some w"
    using fun_cong [OF process_step_transfers(2) [OF assms(1-3)], of g] assms(4,5) by simp
  have "vaults.pool_ok (fst c) (snd c)" using assms(3) by (simp add: process_ok_iff)
  from vaults.transfer_others [of "fst c" "snd c" h "fst c'" "snd c' h", OF this
      process_step_transfers(1) [OF assms(1-3)] assms(4)] assms(5)
  show "\<forall>r \<in> vault_regions w. secret_bytes (fst c') r = secret_bytes (fst c) r" by simp
qed

lemma same_regions_read:
  assumes "vault_ok s v" "\<forall>r \<in> vault_regions v. secret_bytes s' r = secret_bytes s r"
  shows "retrieve X v s' n = retrieve X v s n" "unlocked_by X password s' v \<longleftrightarrow> unlocked_by X password s v"
proof -
  obtain ek hk where live: "keys_live s (index v) ek hk" using assms(1) by (auto simp: vault_ok_def)
  have same: "keys_live s' (index v) a b \<longleftrightarrow> keys_live s (index v) a b" for a b
    using assms(2) by (simp add: keys_live_def vault_regions_def)
  with live have "keys_live s' (index v) ek hk" by simp
  with live show "retrieve X v s' n = retrieve X v s n" by (simp add: retrieve_eq)
  show "unlocked_by X password s' v \<longleftrightarrow> unlocked_by X password s v"
    by (simp add: unlocked_by_def same)
qed

section \<open>What memory is handed back\<close>

text \<open>
  A region goes back to \<open>memsec\<close> either zeroed or, where it could not be locked, as it was
  allocated, before anything was written to it.
\<close>

definition clean_region :: "'w externals \<Rightarrow> bytes \<Rightarrow> bool" where
  "clean_region X b \<longleftrightarrow>
     (\<forall>x \<in> set b. x = 0) \<or> (\<exists>n h w p w'. memsec_malloc_sized X n h w = (Some (p, b), w'))"

definition frees_clean :: "'w externals \<Rightarrow> 'w sys \<Rightarrow> 'w sys \<Rightarrow> bool" where
  "frees_clean X s s' \<longleftrightarrow> (\<exists>bs. released s' = released s @ bs \<and> (\<forall>b \<in> set bs. clean_region X b))"

named_theorems clean

lemma frees_clean_same: "released s' = released s \<Longrightarrow> frees_clean X s s'"
  by (simp add: frees_clean_def)

lemma frees_clean_trans: "frees_clean X s s' \<Longrightarrow> frees_clean X s' s'' \<Longrightarrow> frees_clean X s s''"
  unfolding frees_clean_def by (elim exE conjE, rule exI [where x = "_ @ _"]) auto

lemma frees_clean_ext: "\<exists>w. s' = s\<lparr>ext := w\<rparr> \<Longrightarrow> frees_clean X s s'"
  by (auto intro: frees_clean_same)

lemma fill_clean [clean]: "secure_bytes_fill X n s = (r, s') \<Longrightarrow> frees_clean X s s'"
  by (rule frees_clean_same) (rule secure_bytes_fill_frame(3))

lemma region_new_clean [clean]: "locked_region_new X n s = (r, s') \<Longrightarrow> frees_clean X s s'"
  by (auto simp: locked_region_new_def mem_defs frees_clean_def clean_region_def
      split: prod.splits option.splits bool.splits)

lemma secret_new_clean [clean]: "locked_secret_new X b s = (r, s') \<Longrightarrow> frees_clean X s s'"
  by (auto simp: locked_secret_new_def frees_clean_same split: if_splits prod.splits sum.splits
      dest!: region_new_clean)
    (auto simp: frees_clean_def mem_write_def)

lemma secret_drop_clean [clean]: "frees_clean X s (locked_secret_drop X ls s)"
  by (auto simp: locked_secret_drop_def locked_region_drop_def mem_defs frees_clean_def
      clean_region_def)

lemma index_drop_clean [clean]: "frees_clean X s (vault_index_drop X idx s)"
  unfolding vault_index_drop_def Let_def
  by (rule frees_clean_trans [OF secret_drop_clean secret_drop_clean])

lemma drop_after: "frees_clean X s s' \<Longrightarrow> frees_clean X s (vault_index_drop X idx s')"
  by (rule frees_clean_trans [OF _ index_drop_clean])

lemma lock_subkeys_clean [clean]: "lock_subkeys X a b s = (r, s') \<Longrightarrow> frees_clean X s s'"
  by (auto simp: lock_subkeys_def split: prod.splits sum.splits dest!: secret_new_clean
      intro: frees_clean_trans secret_drop_clean)

lemma from_master_key_clean [clean]: "from_master_key X mk salt s = (r, s') \<Longrightarrow> frees_clean X s s'"
  by (auto simp: from_master_key_def frees_clean_same split: prod.splits sum.splits
      dest!: fill_clean lock_subkeys_clean intro: frees_clean_trans)

lemma generate_clean [clean]: "vault_header_generate X s = (r, s') \<Longrightarrow> frees_clean X s s'"
  by (rule frees_clean_same) (rule vault_header_generate_frame(3))

lemma create_clean [clean]: "create X password s = (r, s') \<Longrightarrow> frees_clean X s s'"
  by (auto simp: create_def frees_clean_same split: prod.splits sum.splits
      dest!: generate_clean from_master_key_clean intro: frees_clean_trans)

lemma store_clean [clean]: "store X v s name p = (r, v', s') \<Longrightarrow> frees_clean X s s'"
  by (rule frees_clean_ext) (rule store_keys(3))

lemma export_clean [clean]: "export X v s = (r, v', s') \<Longrightarrow> frees_clean X s s'"
  by (rule frees_clean_ext) (rule export_effect(7))

lemma rekey_entries_clean [clean]:
  "rekey_entries X oek fs w s = (r, w', s') \<Longrightarrow> frees_clean X s s'"
  by (rule frees_clean_ext) (use rekey_entries_frame in blast)

lemma rekey_clean [clean]: "rekey X v s password = (r, v', s') \<Longrightarrow> frees_clean X s s'"
  by (auto simp: rekey_def Let_def frees_clean_same split: prod.splits sum.splits
      dest!: generate_clean from_master_key_clean rekey_entries_clean
      intro!: drop_after) (blast intro: frees_clean_trans)+

lemma change_password_clean [clean]:
  "change_password X v s old new = (r, v', s') \<Longrightarrow> frees_clean X s s'"
  by (auto simp: change_password_def frees_clean_same split: sum.splits dest!: rekey_clean)

lemma subkeys_data_clean [clean]:
  "from_subkeys_and_data X es hs n nc dc fs s = (r, s') \<Longrightarrow> frees_clean X s s'"
  by (auto simp: from_subkeys_and_data_eq frees_clean_same split: if_splits prod.splits sum.splits
      dest!: lock_subkeys_clean)

lemma open_clean [clean]: "open_vault X password data s = (r, s') \<Longrightarrow> frees_clean X s s'"
  by (auto simp: open_vault_def Let_def frees_clean_same split: if_splits prod.splits sum.splits
      dest!: subkeys_data_clean rekey_clean intro!: drop_after) (blast intro: frees_clean_trans)+

lemma step_clean: "vault_step X (s, v) cmd (s', v') \<Longrightarrow> frees_clean X s s'"
  by (cases cmd) (auto elim!: store_stepE remove_stepE export_stepE change_password_stepE
      intro: clean frees_clean_same)

lemma process_step_clean: "process_step X c h ev c' \<Longrightarrow> frees_clean X (fst c) (fst c')"
  by (cases rule: process_step.cases) (auto intro: clean step_clean)

lemma process_run_clean: "process_run X c c' \<Longrightarrow> frees_clean X (fst c) (fst c')"
  by (induction rule: process_run.induct)
    (auto intro: frees_clean_same frees_clean_trans process_step_clean)

end
