(* ===== verification/Nonces.thy ===== *)
theory Nonces
  imports Process
begin

text \<open>
  Nonces are never reused. An XChaCha20-Poly1305 key may encrypt any number of messages as long
  as no two share a nonce. The code draws every nonce from the random generator just before it
  seals; this theory follows the draws through any history of a process with several vaults,
  files written and opened again included, and shows that two ciphertexts with the same nonce
  are the same ciphertext.
\<close>

section \<open>Draws\<close>

text \<open>
  The random generator does not repeat itself: \<open>drawn w\<close> are the values it has delivered when the
  outside world is in state \<open>w\<close>, and a value of at least 16 bytes it delivers next is not one of
  them. The other calls that advance the world forget nothing.
\<close>

definition rng_never_repeats :: "'w externals \<Rightarrow> ('w \<Rightarrow> bytes set) \<Rightarrow> bool" where
  "rng_never_repeats X drawn \<longleftrightarrow>
     (\<forall>n w r w'. os_rng_fill X n w = (r, w') \<longrightarrow> drawn w \<subseteq> drawn w' \<and>
        (\<forall>b. r = Some b \<longrightarrow> SALT_LEN \<le> n \<longrightarrow> b \<notin> drawn w \<and> b \<in> drawn w')) \<and>
     (\<forall>n h w r w'. memsec_malloc_sized X n h w = (r, w') \<longrightarrow> drawn w \<subseteq> drawn w') \<and>
     (\<forall>p n w r w'. memsec_mlock X p n w = (r, w') \<longrightarrow> drawn w \<subseteq> drawn w') \<and>
     (\<forall>p w. drawn w \<subseteq> drawn (memsec_free X p w))"

definition blob_nonce :: "bytes \<Rightarrow> bytes" where
  "blob_nonce b = take XCHACHA20_NONCE_LEN b"

text \<open>
  Between \<open>s\<close> and \<open>s'\<close> the ciphertexts \<open>B\<close> were sealed, each with a nonce of its own that was
  drawn in between. Such steps compose.
\<close>

definition seals ::
  "('w \<Rightarrow> bytes set) \<Rightarrow> 'w sys \<Rightarrow> bytes set \<Rightarrow> 'w sys \<Rightarrow> bool" where
  "seals drawn s B s' \<longleftrightarrow>
     drawn (ext s) \<subseteq> drawn (ext s') \<and> inj_on blob_nonce B \<and>
     blob_nonce ` B \<subseteq> drawn (ext s') - drawn (ext s)"

lemma seals_none: "drawn (ext s) \<subseteq> drawn (ext s') \<Longrightarrow> seals drawn s {} s'"
  by (simp add: seals_def)

lemma seals_refl [simp]: "seals drawn s {} s"
  by (simp add: seals_def)

lemma seals_trans:
  assumes "seals drawn s B s1" "seals drawn s1 C s2"
  shows "seals drawn s (B \<union> C) s2"
proof -
  have "blob_nonce ` (B - C) \<inter> blob_nonce ` (C - B) = {}"
    using assms unfolding seals_def by blast
  with assms show ?thesis unfolding seals_def inj_on_Un by blast
qed

lemma seals_then: "seals drawn s {} s1 \<Longrightarrow> seals drawn s1 C s2 \<Longrightarrow> seals drawn s C s2"
  using seals_trans [of drawn s "{}" s1 C s2] by simp

lemma seals_after: "seals drawn s B s1 \<Longrightarrow> seals drawn s1 {} s2 \<Longrightarrow> seals drawn s B s2"
  using seals_trans [of drawn s B s1 "{}" s2] by simp

section \<open>What an operation draws and seals\<close>

named_theorems sealing

lemma fill_seals [sealing]:
  assumes "rng_never_repeats X drawn" "secure_bytes_fill X n s = (r, s')"
  shows "seals drawn s {} s'"
proof -
  have "drawn w \<subseteq> drawn w'" if "os_rng_fill X n w = (a, w')" for w a w'
    using assms(1) that unfolding rng_never_repeats_def by blast
  with assms(2) show ?thesis
    by (auto simp: secure_bytes_fill_def seals_def split: if_splits prod.splits option.splits)
      blast+
qed

lemma fill_fresh:
  assumes "rng_never_repeats X drawn" "secure_bytes_fill X n s = (Inr b, s')" "SALT_LEN \<le> n"
  shows "b \<notin> drawn (ext s)" "b \<in> drawn (ext s')"
proof -
  obtain w where "os_rng_fill X n (ext s) = (Some b, w)" "s' = s\<lparr>ext := w\<rparr>"
    using assms(2)
    by (auto simp: secure_bytes_fill_def split: if_splits prod.splits option.splits)
  with assms(1,3) show "b \<notin> drawn (ext s)" "b \<in> drawn (ext s')"
    unfolding rng_never_repeats_def by fastforce+
qed

lemma free_seals: "rng_never_repeats X drawn \<Longrightarrow> drawn w \<subseteq> drawn (memsec_free X p w)"
  by (simp add: rng_never_repeats_def)

lemma secret_drop_seals [sealing]:
  assumes "rng_never_repeats X drawn"
  shows "seals drawn s {} (locked_secret_drop X ls s)"
  using free_seals [OF assms]
  by (simp add: seals_def locked_secret_drop_def locked_region_drop_def mem_defs)

lemma index_drop_seals [sealing]:
  assumes "rng_never_repeats X drawn"
  shows "seals drawn s {} (vault_index_drop X idx s)"
  unfolding vault_index_drop_def Let_def
  by (rule seals_then [OF secret_drop_seals [OF assms] secret_drop_seals [OF assms]])

lemma secret_new_seals [sealing]:
  assumes "rng_never_repeats X drawn" "locked_secret_new X b s = (r, s')"
  shows "seals drawn s {} s'"
proof -
  have alloc: "drawn w \<subseteq> drawn w'" if "memsec_malloc_sized X n h w = (a, w')" for n h w a w'
    using assms(1) that unfolding rng_never_repeats_def by blast
  have lock: "drawn w \<subseteq> drawn w'" if "memsec_mlock X p n w = (a, w')" for p n w a w'
    using assms(1) that unfolding rng_never_repeats_def by blast
  have free: "drawn w \<subseteq> drawn (memsec_free X p w)" for p w
    by (rule free_seals [OF assms(1)])
  have "drawn (ext s) \<subseteq> drawn (ext s')"
    using assms(2)
    by (auto simp: locked_secret_new_def locked_region_new_def mem_defs
        split: if_splits prod.splits option.splits bool.splits sum.splits
        dest!: alloc lock) (blast intro: free [THEN subsetD])+
  then show ?thesis by (rule seals_none)
qed

lemma lock_subkeys_seals [sealing]:
  assumes "rng_never_repeats X drawn" "lock_subkeys X a b s = (r, s')"
  shows "seals drawn s {} s'"
  using assms(2)
  by (auto simp: lock_subkeys_def split: prod.splits sum.splits
      dest!: secret_new_seals [OF assms(1)]
      intro: seals_then secret_drop_seals [OF assms(1)])

lemma from_master_key_seals [sealing]:
  assumes "rng_never_repeats X drawn" "from_master_key X mk salt s = (r, s')"
  shows "seals drawn s {} s'"
  using assms(2)
  by (auto simp: from_master_key_def split: prod.splits sum.splits
      dest!: fill_seals [OF assms(1)] lock_subkeys_seals [OF assms(1)] intro: seals_then)

lemma generate_seals [sealing]:
  assumes "rng_never_repeats X drawn" "vault_header_generate X s = (r, s')"
  shows "seals drawn s {} s'"
  using assms(2)
  by (auto simp: vault_header_generate_def split: prod.splits sum.splits
      dest!: fill_seals [OF assms(1)])

lemma create_seals [sealing]:
  assumes "rng_never_repeats X drawn" "create X password s = (r, s')"
  shows "seals drawn s {} s'"
  using assms(2)
  by (auto simp: create_def split: prod.splits sum.splits
      dest!: generate_seals [OF assms(1)] from_master_key_seals [OF assms(1)] intro: seals_then)

lemma subkeys_data_seals [sealing]:
  assumes "rng_never_repeats X drawn" "from_subkeys_and_data X es hs n nc dc fs s = (r, s')"
  shows "seals drawn s {} s'"
  using assms(2)
  by (auto simp: from_subkeys_and_data_eq split: if_splits prod.splits sum.splits
      dest!: lock_subkeys_seals [OF assms(1)])

section \<open>The ciphertexts of a vault\<close>

definition entry_blobs :: "index_entry \<Rightarrow> bytes set" where
  "entry_blobs e = {encrypted_name e, encrypted_data e}"

definition files_blobs :: "(bytes \<times> index_entry) list \<Rightarrow> bytes set" where
  "files_blobs fs = (\<Union>f \<in> set fs. entry_blobs (snd f))"

abbreviation vault_blobs :: "vault \<Rightarrow> bytes set" where
  "vault_blobs v \<equiv> files_blobs (files (index v))"

lemma files_blobs_Nil [simp]: "files_blobs [] = {}"
  by (simp add: files_blobs_def)

lemma files_blobs_update: "files_blobs (AList.update k e fs) \<subseteq> files_blobs fs \<union> entry_blobs e"
proof -
  have "set (AList.update k e fs) \<subseteq> insert (k, e) (set fs)" by (induction fs) auto
  then show ?thesis by (auto simp: files_blobs_def)
qed

lemma files_blobs_delete: "files_blobs (AList.delete k fs) \<subseteq> files_blobs fs"
  using set_alist_delete [of k fs] by (auto simp: files_blobs_def)

lemma insert_blobs:
  assumes "insert_by_key idx k e = (r, idx')"
  shows "files_blobs (files idx') \<subseteq> files_blobs (files idx) \<union> entry_blobs e"
  using assms files_blobs_update [of k e "files idx"]
  by (auto simp: insert_by_key_def hm_insert_def split: if_splits)

lemma blob_nonce_append [simp]: "length n = XCHACHA20_NONCE_LEN \<Longrightarrow> blob_nonce (n @ c) = n"
  by (simp add: blob_nonce_def)

text \<open>A stored entry is sealed under two nonces drawn one after the other.\<close>

lemma seal_entry_blobs:
  assumes "seal_entry X s es k c n1 n2 name p = Inr e"
    and "length n1 = XCHACHA20_NONCE_LEN" "length n2 = XCHACHA20_NONCE_LEN"
  shows "blob_nonce (encrypted_data e) = n1" "blob_nonce (encrypted_name e) = n2"
  using assms by (auto simp: seal_entry_def Let_def and_then_Inr_iff)

lemma store_seals:
  assumes "rng_laws X" "rng_never_repeats X drawn" "store X v s name p = (r, v', s')"
  obtains B where "seals drawn s B s'" "vault_blobs v' \<subseteq> vault_blobs v \<union> B"
proof -
  note fill = fill_seals [OF assms(2)]
  have len: "SALT_LEN \<le> XCHACHA20_NONCE_LEN" by (simp add: const_defs)
  have counter: "files idx1 = files (index v)"
    if "next_data_nonce_counter (index v) = (c, idx1)" for c idx1
    using that by (auto simp: next_data_nonce_counter_def Let_def split: option.splits)
  show thesis
  proof (cases "\<exists>k c idx1 n1 s1 n2 s2 e. length name \<le> MAX_ENTRY_NAME_LEN \<and>
      length p \<le> MAX_ENTRY_DATA_SIZE \<and> hmac_key_for_name X s (index v) name = Inr k \<and>
      next_data_nonce_counter (index v) = (Inr c, idx1) \<and>
      secure_bytes_fill X XCHACHA20_NONCE_LEN s = (Inr n1, s1) \<and>
      secure_bytes_fill X XCHACHA20_NONCE_LEN s1 = (Inr n2, s2) \<and>
      seal_entry X s2 (enc_key idx1) k c n1 n2 name p = Inr e")
    case True
    then obtain k c idx1 n1 s1 n2 s2 e where
      len': "length name \<le> MAX_ENTRY_NAME_LEN" "length p \<le> MAX_ENTRY_DATA_SIZE"
      and k: "hmac_key_for_name X s (index v) name = Inr k"
      and c: "next_data_nonce_counter (index v) = (Inr c, idx1)"
      and n1: "secure_bytes_fill X XCHACHA20_NONCE_LEN s = (Inr n1, s1)"
      and n2: "secure_bytes_fill X XCHACHA20_NONCE_LEN s1 = (Inr n2, s2)"
      and e: "seal_entry X s2 (enc_key idx1) k c n1 n2 name p = Inr e" by blast
    obtain q idx2 where ins: "insert_by_key idx1 k e = (q, idx2)" by fastforce
    from store_body [OF len' k c n1 n2 e ins] assms(3)
    have v': "v' = v\<lparr>index := idx2\<rparr>" "s' = s2" by simp_all
    note nonces = seal_entry_blobs [OF e secure_bytes_fill_length [OF assms(1) n1]
        secure_bytes_fill_length [OF assms(1) n2]]
    note f1 = fill_fresh [OF assms(2) n1 len] and f2 = fill_fresh [OF assms(2) n2 len]
    have "drawn (ext s) \<subseteq> drawn (ext s1)" "drawn (ext s1) \<subseteq> drawn (ext s2)"
      using fill [OF n1] fill [OF n2] by (simp_all add: seals_def)
    with f1 f2 have "seals drawn s (entry_blobs e) s2"
      by (auto simp: seals_def entry_blobs_def nonces)
    moreover have "files_blobs (files idx2) \<subseteq> files_blobs (files (index v)) \<union> entry_blobs e"
      using insert_blobs [OF ins] counter [OF c] by simp
    ultimately show thesis by (intro that [of "entry_blobs e"]) (simp_all add: v')
  next
    case False
    then have "seals drawn s {} s'" "files (index v') = files (index v)"
      using assms(3) counter
      by (auto simp: store_def not_less split: if_splits prod.splits sum.splits
          dest!: fill intro: seals_then)
    then show thesis by (intro that [of "{}"]) simp_all
  qed
qed

lemma rekey_entries_seals:
  assumes "rng_laws X" "rng_never_repeats X drawn" "rekey_entries X oek fs w s = (r, w', s')"
  shows "\<exists>B. seals drawn s B s' \<and> vault_blobs w' \<subseteq> vault_blobs w \<union> B"
  using assms(3)
proof (induction fs arbitrary: w s)
  case Nil
  then show ?case by (auto intro: exI [of _ "{}"])
next
  case (Cons f fs)
  obtain k e where f: "f = (k, e)" by (cases f)
  show ?case
  proof (cases "decrypt_entry X oek k e")
    case (Inl d)
    with Cons.prems show ?thesis by (auto simp: f intro: exI [of _ "{}"])
  next
    case (Inr np)
    obtain n p where np: "np = (n, p)" by (cases np)
    obtain q w1 s1 where st: "store X w s n p = (q, w1, s1)" by (cases "store X w s n p") auto
    obtain B where B: "seals drawn s B s1" "vault_blobs w1 \<subseteq> vault_blobs w \<union> B"
      by (rule store_seals [OF assms(1,2) st])
    show ?thesis
    proof (cases q)
      case (Inl d)
      with B Cons.prems Inr st show ?thesis by (auto simp: f np)
    next
      case (Inr u)
      with Cons.prems \<open>decrypt_entry X oek k e = Inr np\<close> st
      have "rekey_entries X oek fs w1 s1 = (r, w', s')" by (simp add: f np)
      from Cons.IH [OF this] obtain C
        where "seals drawn s1 C s'" "vault_blobs w' \<subseteq> vault_blobs w1 \<union> C" by blast
      with seals_trans [OF B(1)] B(2) show ?thesis by (intro exI [of _ "B \<union> C"]) blast
    qed
  qed
qed

text \<open>A re-keying seals every entry anew; a failing one leaves the old ciphertexts.\<close>

lemma rekey_seals:
  assumes "rng_laws X" "rng_never_repeats X drawn" "rekey X v s password = (r, v', s')"
  shows "\<exists>B. seals drawn s B s' \<and> vault_blobs v' \<subseteq> vault_blobs v \<union> B"
proof -
  note seal = generate_seals [OF assms(2)] from_master_key_seals [OF assms(2)]
  note drop = index_drop_seals [OF assms(2)]
  have idle: ?thesis if "seals drawn s {} s'" "v' = v"
    using that by (intro exI [of _ "{}"]) simp
  show ?thesis
  proof (cases "\<exists>h s1 mk idx s2 oek. vault_header_generate X s = (Inr h, s1) \<and>
      derive_master_key X password h = Inr mk \<and>
      from_master_key X mk (kdf_salt h) s1 = (Inr idx, s2) \<and>
      extract_enc_key s2 (enc_key (index v)) = Inr oek")
    case True
    then obtain h s1 mk idx s2 oek where g: "vault_header_generate X s = (Inr h, s1)"
      and mk: "derive_master_key X password h = Inr mk"
      and m: "from_master_key X mk (kdf_salt h) s1 = (Inr idx, s2)"
      and k: "extract_enc_key s2 (enc_key (index v)) = Inr oek" by blast
    obtain q w s3 where run: "rekey_entries X oek (files (index v)) \<lparr>header = h, index = idx\<rparr> s2 =
        (q, w, s3)" by (cases "rekey_entries X oek (files (index v)) \<lparr>header = h, index = idx\<rparr> s2") auto
    have "files idx = []"
      using m by (auto simp: from_master_key_def split: prod.splits sum.splits)
    with rekey_entries_seals [OF assms(1,2) run] obtain B
      where B: "seals drawn s2 B s3" "vault_blobs w \<subseteq> B" by auto
    from seals_then [OF seals_then [OF seal(1) [OF g] seal(2) [OF m]] B(1)]
    have start: "seals drawn s B s3" .
    show ?thesis
      using assms(3) seals_after [OF start drop] B(2)
      by (intro exI [of _ B]) (auto simp: rekey_def Let_def g mk m k run split: sum.splits)
  next
    case False
    then show ?thesis
      using assms(3)
      by (intro idle) (auto simp: rekey_def Let_def split: prod.splits sum.splits
          dest!: seal intro: seals_then drop)
  qed
qed

lemma change_password_seals:
  assumes "rng_laws X" "rng_never_repeats X drawn" "change_password X v s old new = (r, v', s')"
  shows "\<exists>B. seals drawn s B s' \<and> vault_blobs v' \<subseteq> vault_blobs v \<union> B"
  using assms(3) rekey_seals [OF assms(1,2), of v s new r v' s']
  by (auto simp: change_password_def split: sum.splits intro: exI [of _ "{}"])

lemma export_seals:
  assumes "rng_laws X" "rng_never_repeats X drawn" "export X v s = (r, v', s')"
  shows "seals drawn s {} s'"
    "r = Inr out \<Longrightarrow> nonce (index v') \<notin> drawn (ext s) \<and> nonce (index v') \<in> drawn (ext s')"
proof -
  obtain a idx1 where adv: "advance_nonce X (index v) s = (a, idx1, s')"
    and v': "v' = v\<lparr>index := idx1\<rparr>"
    using assms(3) by (auto simp: export_def split: prod.splits sum.splits)
  show "seals drawn s {} s'"
    using adv fill_seals [OF assms(2)]
    by (auto simp: advance_nonce_def Let_def split: option.splits prod.splits sum.splits)
  assume "r = Inr out"
  with assms(3) adv have "a = Inr ()" by (auto simp: export_def split: prod.splits sum.splits)
  with adv obtain n where "idx1 = (index v)\<lparr>nonce := n, nonce_counter := nonce_counter (index v) + 1\<rparr>"
    "secure_bytes_fill X XCHACHA20_NONCE_LEN s = (Inr n, s')" by (auto elim: advance_nonce_ok)
  with fill_fresh [OF assms(2), of XCHACHA20_NONCE_LEN s n s']
  show "nonce (index v') \<notin> drawn (ext s) \<and> nonce (index v') \<in> drawn (ext s')"
    by (simp add: v' const_defs)
qed

text \<open>Every call, in terms of the ciphertexts of its vault.\<close>

lemma step_seals:
  assumes "rng_laws X" "rng_never_repeats X drawn" "vault_step X (s, v) cmd (s', v')"
  shows "\<exists>B. seals drawn s B s' \<and> vault_blobs v' \<subseteq> vault_blobs v \<union> B"
  using assms(3)
proof cases
  case (Store name p r)
  then show ?thesis by (auto elim: store_seals [OF assms(1,2)])
next
  case (Remove name r)
  with files_blobs_delete show ?thesis
    by (intro exI [of _ "{}"])
      (fastforce simp: remove_def remove_by_key_def split: sum.splits prod.splits option.splits)
next
  case (Export r)
  with export_seals(1) [OF assms(1,2) Export(2)] export_effect(2) [OF Export(2)] show ?thesis
    by (intro exI [of _ "{}"]) simp
next
  case (ChangePassword old new r)
  then show ?thesis by (intro change_password_seals [OF assms(1,2)])
qed

lemma open_seals:
  assumes "rng_laws X" "rng_never_repeats X drawn" "open_vault X password data s = (r, s')"
  shows "drawn (ext s) \<subseteq> drawn (ext s')"
proof -
  have grow: "drawn (ext s1) \<subseteq> drawn (ext s2)" if "rekey X v s1 password = (q, v', s2)" for v s1 q v' s2
    using rekey_seals [OF assms(1,2) that] by (auto simp: seals_def)
  have load: "drawn (ext s1) \<subseteq> drawn (ext s2)"
    if "from_subkeys_and_data X es hs n nc dc fs s1 = (q, s2)" for es hs n nc dc fs s1 q s2
    using subkeys_data_seals [OF assms(2) that] by (simp add: seals_def)
  have drop: "drawn (ext s1) \<subseteq> drawn (ext (vault_index_drop X idx s1))" for idx s1
    using index_drop_seals [OF assms(2), of s1 idx] by (simp add: seals_def)
  show ?thesis
    using assms(3)
    by (auto simp: open_vault_def Let_def split: if_splits prod.splits sum.splits
        dest!: load grow intro: drop [THEN subsetD])
qed

section \<open>Histories\<close>

text \<open>The ciphertext of the index in an exported file: what follows the header, from the nonce on.\<close>

definition index_blob :: "bytes \<Rightarrow> bytes" where
  "index_blob out = drop (4 + unat (u32_from_le (take 4 out))) out"

definition process_blobs :: "'w process \<Rightarrow> bytes set" where
  "process_blobs c = (\<Union>v \<in> ran (snd c). vault_blobs v)"

text \<open>
  A history starts without vaults. \<open>F\<close> collects the files written, each with a password that
  opens it, and \<open>W\<close> every ciphertext that was ever in a vault or in a file. Files are opened
  again with that password; an \<open>open\<close> that fails may have been of any bytes.
\<close>

definition opens_own_files :: "(bytes \<times> bytes) set \<Rightarrow> process_event \<Rightarrow> vault option \<Rightarrow> bool" where
  "opens_own_files F ev found =
     (case ev of OpenVault password data \<Rightarrow> found \<noteq> None \<longrightarrow> (password, data) \<in> F | _ \<Rightarrow> True)"

inductive write_history ::
  "'w externals \<Rightarrow> 'w process \<Rightarrow> (bytes \<times> bytes) set \<Rightarrow> bytes set \<Rightarrow> bool" for X where
  Start: "mem_ok s \<Longrightarrow> secret_bytes s = Map.empty \<Longrightarrow> write_history X (s, Map.empty) {} {}"
| Step: "\<lbrakk>write_history X c F W; process_step X c h ev c'; ev \<noteq> Call Export;
     opens_own_files F ev (snd c' h)\<rbrakk> \<Longrightarrow> write_history X c' F (W \<union> process_blobs c')"
| Export: "\<lbrakk>write_history X (s, vs) F W; vs h = Some v; export X v s = (Inr out, v', s');
     unlocked_by X password s v\<rbrakk> \<Longrightarrow>
     write_history X (s', vs(h \<mapsto> v')) (insert (password, out) F) (insert (index_blob out) W)"
| Export_fails: "\<lbrakk>write_history X (s, vs) F W; vs h = Some v; export X v s = (Inl e, v', s')\<rbrakk> \<Longrightarrow>
     write_history X (s', vs(h \<mapsto> v')) F W"

text \<open>The invariant: nonces of \<open>W\<close> are draws, they determine the ciphertext, and \<open>W\<close> is complete.\<close>

definition opens_with :: "'w externals \<Rightarrow> bytes set \<Rightarrow> bytes \<times> bytes \<Rightarrow> bool" where
  "opens_with X W = (\<lambda>(password, out).
     \<exists>env ek hk d. opens_to X password out env ek hk d \<and>
       version (env_header env) \<noteq> LEGACY_VAULT_VERSION_1 \<and> files_blobs (idx_files d) \<subseteq> W)"

definition history_ok ::
  "'w externals \<Rightarrow> ('w \<Rightarrow> bytes set) \<Rightarrow> 'w process \<Rightarrow> (bytes \<times> bytes) set \<Rightarrow> bytes set \<Rightarrow> bool" where
  "history_ok X drawn c F W \<longleftrightarrow>
     process_ok c \<and> process_blobs c \<subseteq> W \<and> blob_nonce ` W \<subseteq> drawn (ext (fst c)) \<and>
     inj_on blob_nonce W \<and> (\<forall>f \<in> F. opens_with X W f)"

lemma opens_with_mono: "opens_with X W f \<Longrightarrow> W \<subseteq> W' \<Longrightarrow> opens_with X W' f"
  unfolding opens_with_def by (cases f) blast

text \<open>New ciphertexts under fresh nonces keep the nonces apart.\<close>

lemma inj_on_fresh:
  assumes "inj_on blob_nonce W" "blob_nonce ` W \<subseteq> drawn (ext s)" "seals drawn s B s'"
  shows "inj_on blob_nonce (W \<union> B)" "blob_nonce ` (W \<union> B) \<subseteq> drawn (ext s')"
proof -
  have "blob_nonce ` (W - B) \<inter> blob_nonce ` (B - W) = {}"
    using assms(2,3) unfolding seals_def by blast
  with assms show "inj_on blob_nonce (W \<union> B)" unfolding seals_def inj_on_Un by blast
  show "blob_nonce ` (W \<union> B) \<subseteq> drawn (ext s')" using assms(2,3) unfolding seals_def by blast
qed

lemma opens_to_unique:
  "opens_to X pw data env ek hk d \<Longrightarrow> opens_to X pw data env' ek' hk' d' \<Longrightarrow> env' = env \<and> d' = d"
  by (auto simp: opens_to_def)

lemma process_blobs_upd:
  "process_blobs (s', (vs(h := x))) \<subseteq> process_blobs (s, vs) \<union> (case x of None \<Rightarrow> {} | Some v \<Rightarrow> vault_blobs v)"
  by (auto simp: process_blobs_def ran_def split: if_splits)

lemma process_blobs_assign:
  assumes "process_blobs (s, vs) \<subseteq> W" "\<And>v. r = Inr v \<Longrightarrow> vault_blobs v \<subseteq> W"
  shows "process_blobs (s', assign h r vs) \<subseteq> W"
proof (cases r)
  case (Inl e)
  with assms(1) show ?thesis by (simp add: assign_def process_blobs_def)
next
  case (Inr v)
  with assms process_blobs_upd [of s' vs h "Some v" s] show ?thesis by (simp add: assign_def) blast
qed

lemma process_blobs_in: "vs h = Some v \<Longrightarrow> vault_blobs v \<subseteq> process_blobs (s, vs)"
  by (auto simp: process_blobs_def ran_def)

lemma process_step_seals:
  assumes "ext_laws X" "rng_never_repeats X drawn" "history_ok X drawn c F W"
    and "process_step X c h ev c'" "opens_own_files F ev (snd c' h)"
  shows "\<exists>B. seals drawn (fst c) B (fst c') \<and> process_blobs c' \<subseteq> W \<union> B"
proof -
  note laws = ext_lawsD(1) [OF assms(1)] assms(2)
  from assms(3) have old: "process_blobs c \<subseteq> W" and files: "\<forall>f \<in> F. opens_with X W f"
    and ok: "mem_ok (fst c)"
    by (simp_all add: history_ok_def process_ok_def)
  from assms(4) show ?thesis
  proof cases
    case (New vs password s r s')
    have "vault_blobs v \<subseteq> W" if "r = Inr v" for v
      using New(5) that ok New(1)
      by (auto elim!: create_ok [OF assms(1)] simp: fresh_vault_def)
    then have "process_blobs c' \<subseteq> W"
      using old process_blobs_assign [of s vs W r s' h] New(1,3) by simp
    with create_seals [OF laws(2) New(5)] New(1,3) show ?thesis by (intro exI [of _ "{}"]) simp
  next
    case (Open vs password data s r s')
    have "vault_blobs v \<subseteq> W" if r: "r = Inr v" for v
    proof -
      have f: "(password, data) \<in> F"
        using assms(5) Open r by (simp add: opens_own_files_def assign_def)
      with files obtain env ek hk d where o: "opens_to X password data env ek hk d"
        "version (env_header env) \<noteq> LEGACY_VAULT_VERSION_1" "files_blobs (idx_files d) \<subseteq> W"
        by (auto simp: opens_with_def)
      from ok Open(1) have "mem_ok s" by simp
      then show ?thesis
      proof (rule open_vault_ok [OF assms(1) _ Open(5) [unfolded r]])
        fix env' ek' hk' d'
        assume o': "opens_to X password data env' ek' hk' d'"
          and v: "version (env_header env') \<noteq> LEGACY_VAULT_VERSION_1 \<Longrightarrow>
            (\<exists>es hs. v = loaded_vault env' d' es hs) \<and> adds_keys s (index v) ek' hk' s'"
        from opens_to_unique [OF o(1) o'] o(2) v obtain es hs where "v = loaded_vault env d es hs"
          by auto
        with o(3) show ?thesis by (simp add: loaded_vault_def)
      qed
    qed
    then have "process_blobs c' \<subseteq> W"
      using old process_blobs_assign [of s vs W r s' h] Open(1,3) by simp
    with open_seals [OF laws Open(5)] Open(1,3) show ?thesis
      by (intro exI [of _ "{}"]) (simp add: seals_none)
  next
    case (Called vs v s cmd s' v')
    from step_seals [OF laws Called(5)] obtain B where B: "seals drawn s B s'"
      "vault_blobs v' \<subseteq> vault_blobs v \<union> B" by blast
    have "process_blobs c' \<subseteq> W \<union> B"
      using old process_blobs_upd [of s' vs h "Some v'" s] process_blobs_in [of vs h v s]
        B(2) Called(1,3,4) by simp blast
    with B(1) Called(1,3) show ?thesis by auto
  next
    case (Drop vs v s)
    have "process_blobs c' \<subseteq> W"
      using old process_blobs_upd [of _ vs h None s] Drop by (simp add: process_blobs_def)
    with index_drop_seals [OF laws(2), of s "index v"] Drop(1,3) show ?thesis
      by (intro exI [of _ "{}"]) simp
  qed
qed

lemma history_ok_more:
  assumes "history_ok X drawn c F W" "process_ok c'" "seals drawn (fst c) B (fst c')"
    and "process_blobs c' \<subseteq> W \<union> B" "W' \<subseteq> W \<union> B" "process_blobs c' \<subseteq> W'" "W \<subseteq> W'"
    and "\<forall>f \<in> F'. f \<in> F \<or> opens_with X W' f"
  shows "history_ok X drawn c' F' W'"
proof -
  note i = assms(1) [unfolded history_ok_def]
  have all: "inj_on blob_nonce (W \<union> B)" "blob_nonce ` (W \<union> B) \<subseteq> drawn (ext (fst c'))"
    using inj_on_fresh [of W drawn "fst c" B "fst c'"] i assms(3) by simp_all
  have "inj_on blob_nonce W'" using all(1) assms(5) by (rule inj_on_subset)
  moreover have "blob_nonce ` W' \<subseteq> drawn (ext (fst c'))" using all(2) assms(5) by blast
  moreover have "\<forall>f \<in> F'. opens_with X W' f"
    using i assms(7,8) opens_with_mono [of X W _ W'] by blast
  ultimately show ?thesis using assms(2,6) by (simp add: history_ok_def)
qed

text \<open>The nonce of an exported index, and what it takes to open the export.\<close>

lemma export_index_blob:
  assumes "ext_laws X" "vault_ok s v" "export X v s = (Inr out, v', s')"
  shows "blob_nonce (index_blob out) = nonce (index v')"
proof -
  obtain ek hk where live: "keys_live s (index v) ek hk" and idx: "index_ok (index v)"
    and salt: "length (kdf_salt (header v)) = SALT_LEN"
    using assms(2) by (auto simp: vault_ok_def)
  obtain hj' where "header_to_json X (header v) = Inr hj'" "length hj' \<le> MAX_HEADER_JSON_LEN"
    by (rule to_aad_bytes_ok [OF ext_lawsD(5) [OF assms(1)] salt])
  moreover obtain hj n c where
    "v' = v\<lparr>index := (index v)\<lparr>nonce := n, nonce_counter := nonce_counter (index v) + 1\<rparr>\<rparr>"
    "length n = XCHACHA20_NONCE_LEN" "header_to_json X (header v) = Inr hj"
    "out = assemble_envelope hj n c"
    by (rule export_ok [OF assms(1) idx live assms(3)])
  ultimately show ?thesis
    by (simp add: index_blob_def assemble_envelope_def unat_of_nat const_defs)
qed

lemma export_opens_with:
  assumes "ext_laws X" "vault_ok s v" "unlocked_by X password s v"
    and "export X v s = (Inr out, v', s')" "vault_blobs v \<subseteq> W"
  shows "opens_with X W (password, out)"
proof -
  obtain ek hk where "password_keys X password (header v) = Inr (ek, hk)" "keys_live s (index v) ek hk"
    using assms(3) by (auto simp: unlocked_by_def)
  from export_opens_to [OF assms(1,2) this assms(4)] assms(2,5) show ?thesis
    by (force simp: opens_with_def vault_ok_def const_defs)
qed

lemma history_invariant:
  assumes "ext_laws X" "rng_never_repeats X drawn" "write_history X c F W"
  shows "history_ok X drawn c F W"
  using assms(3)
proof induction
  case (Start s)
  then show ?case by (simp add: history_ok_def process_ok_start process_blobs_def)
next
  case (Step c F W h ev c')
  from process_step_seals [OF assms(1,2) Step.IH Step.hyps(2,4)] obtain B
    where B: "seals drawn (fst c) B (fst c')" "process_blobs c' \<subseteq> W \<union> B" by blast
  have "process_ok c'"
    using process_step_ok [OF assms(1) Step.hyps(2)] Step.IH by (simp add: history_ok_def)
  then show ?case by (rule history_ok_more [OF Step.IH _ B]) (use B(2) in auto)
next
  case (Export s vs F W h v out v' s' password)
  note st = Called [where vs = vs and h = h, OF Export.hyps(2) vault_step.Export [OF Export.hyps(3)]]
  have ok: "process_ok (s, vs)" using Export.IH by (simp add: history_ok_def)
  then have v: "vault_ok s v" using Export.hyps(2) by (simp add: process_ok_def)
  have blobs: "process_blobs (s', vs(h \<mapsto> v')) \<subseteq> W" "vault_blobs v \<subseteq> W"
    using process_blobs_upd [of s' vs h "Some v'" s] process_blobs_in [where vs = vs and h = h and s = s, OF Export.hyps(2)]
      export_effect(2) [OF Export.hyps(3)] Export.IH by (auto simp: history_ok_def)
  have "seals drawn s {index_blob out} s'"
    using export_seals [OF ext_lawsD(1) [OF assms(1)] assms(2) Export.hyps(3)]
      export_index_blob [OF assms(1) v Export.hyps(3)] by (simp add: seals_def)
  moreover have "opens_with X (insert (index_blob out) W) (password, out)"
    by (rule export_opens_with [OF assms(1) v Export.hyps(4,3)]) (use blobs(2) in blast)
  ultimately show ?case
    using process_step_ok [OF assms(1) st ok] blobs(1)
    by (intro history_ok_more [OF Export.IH, where B = "{index_blob out}"]) auto
next
  case (Export_fails s vs F W h v e v' s')
  note st = Called [where vs = vs and h = h, OF Export_fails.hyps(2) vault_step.Export [OF Export_fails.hyps(3)]]
  have ok: "process_ok (s, vs)" using Export_fails.IH by (simp add: history_ok_def)
  have blobs: "process_blobs (s', vs(h \<mapsto> v')) \<subseteq> W"
    using process_blobs_upd [of s' vs h "Some v'" s]
      process_blobs_in [where vs = vs and h = h and s = s, OF Export_fails.hyps(2)]
      export_effect(2) [OF Export_fails.hyps(3)] Export_fails.IH by (auto simp: history_ok_def)
  have "seals drawn s {} s'"
    by (rule export_seals(1) [OF ext_lawsD(1) [OF assms(1)] assms(2) Export_fails.hyps(3)])
  then show ?case
    using process_step_ok [OF assms(1) st ok] blobs
    by (intro history_ok_more [OF Export_fails.IH, where B = "{}"]) auto
qed

lemma history_nonces:
  assumes "ext_laws X" "rng_never_repeats X drawn" "write_history X c F W"
    and "a \<in> W" "b \<in> W" "blob_nonce a = blob_nonce b"
  shows "a = b"
  using history_invariant [OF assms(1-3)] assms(4-) by (auto simp: history_ok_def inj_on_def)

end
