(* ===== verification/ProcessProperties.thy ===== *)
theory ProcessProperties
  imports Nonces Sample
begin

text \<open>
  The properties of a process with several vaults: which memory is live, what one vault can do to
  another, what memory looks like when it is handed back, and that no nonce is used twice. The
  witnesses run on the sample instance, with two vaults in one process.
\<close>

section \<open>A process with two vaults\<close>

definition sample_process :: "nat process" where
  "sample_process = (sample_run2, [0 \<mapsto> sample_filled])"

definition sample_two :: "nat process" where
  "sample_two = (toy_run sample_password 6 sample_run2, [0 \<mapsto> sample_filled, 1 \<mapsto> toy_vault 6])"

lemma sample_new: "process_step sample (sample_sys, Map.empty) 0 (NewVault sample_password)
    (sample_run, [0 \<mapsto> sample_vault])"
  using process_step.New [where X = sample and vs = Map.empty and h = 0, OF _ sample_create]
  by (simp add: assign_def)

lemma sample_called: "process_step sample (sample_run, [0 \<mapsto> sample_vault]) 0
    (Call (Store sample_name sample_secret)) sample_process"
  using process_step.Called [where vs = "[0 \<mapsto> sample_vault]" and h = 0,
      OF _ vault_step.Store [OF sample_store]]
  by (simp add: sample_process_def)

lemma sample_second: "process_step sample sample_process 1 (NewVault sample_password) sample_two"
proof -
  have "create sample sample_password sample_run2 =
      (Inr (toy_vault 6), toy_run sample_password 6 sample_run2)"
    by (rule toy_create) (simp_all add: sample_run2_def sample_run_def toy_run_def sample_sys_def
        sample_password_length)
  from process_step.New [where vs = "[0 \<mapsto> sample_filled]" and h = 1, OF _ this] show ?thesis
    by (simp add: assign_def sample_process_def sample_two_def)
qed

lemma sample_process_run: "process_run sample (sample_sys, Map.empty) sample_two"
  by (rule process_run.Step [OF process_run.Step [OF process_run.Step [OF process_run.Start
      sample_new] sample_called] sample_second])

lemma sample_empty: "secret_bytes sample_sys = Map.empty"
  by (simp add: secret_bytes_def sample_sys_def fun_eq_iff)

lemma sample_two_ok: "process_ok sample_two"
  by (rule process_run_ok [OF sample_laws sample_process_run process_ok_start
      [OF sample_empty sample_mem_ok]])

section \<open>Locked memory of a process\<close>

text \<open>C6: Locked memory is neither leaked nor shared. In a process that starts without locked
  regions and creates, opens, uses and drops any number of vaults in any order, failing calls
  included, the live regions are at all times exactly the subkeys of the vaults it holds, each of
  them locked, no two vaults have a region in common, and every vault is well-formed.\<close>

theorem process_owns_regions:
  assumes "ext_laws X" "mem_ok s" "secret_bytes s = Map.empty"
    and "process_run X (s, Map.empty) (s', vs)"
  shows "locked s' = dom (heap s') \<and> (\<forall>h v. vs h = Some v \<longrightarrow> vault_ok s' v) \<and>
    (\<forall>h g v w. vs h = Some v \<longrightarrow> vs g = Some w \<longrightarrow> h \<noteq> g \<longrightarrow>
       vault_regions v \<inter> vault_regions w = {}) \<and>
    (\<forall>r. secret_bytes s' r \<noteq> None \<longleftrightarrow> (\<exists>h v. vs h = Some v \<and> r \<in> vault_regions v))"
proof -
  have "process_ok (s', vs)"
    by (rule process_run_ok [OF assms(1,4) process_ok_start [OF assms(3,2)]])
  then show ?thesis unfolding process_ok_def mem_ok_def by simp
qed

theorem process_owns_regions_witness:
  "vault_regions sample_filled \<inter> vault_regions (toy_vault 6) = {} \<and>
   vault_ok (fst sample_two) sample_filled"
proof -
  have vars: "snd sample_two 0 = Some sample_filled" "snd sample_two 1 = Some (toy_vault 6)"
    by (simp_all add: sample_two_def)
  have "process_run sample (sample_sys, Map.empty) (fst sample_two, snd sample_two)"
    using sample_process_run by simp
  from process_owns_regions [OF sample_laws sample_mem_ok sample_empty this] vars
  show ?thesis by (metis zero_neq_one)
qed

text \<open>C7: Vaults in one process do not interfere: whatever happens to the vault in one variable,
  be it created, opened, used, re-keyed or dropped, the vault in any other variable stays as it
  is, reads every name as before and is unlocked by the same passwords.\<close>

theorem vaults_do_not_interfere:
  assumes "ext_laws X" "process_ok c" "process_step X c h ev c'" "g \<noteq> h" "snd c g = Some w"
  shows "snd c' g = Some w \<and> (\<forall>n. retrieve X w (fst c') n = retrieve X w (fst c) n) \<and>
    (\<forall>pw. unlocked_by X pw (fst c') w \<longleftrightarrow> unlocked_by X pw (fst c) w)"
proof -
  note others = process_step_others [OF assms(1,3,2,4,5)]
  have "vault_ok (fst c) w" using assms(2,5) by (simp add: process_ok_def)
  from same_regions_read [OF this others(2)] others(1) show ?thesis by simp
qed

theorem vaults_do_not_interfere_witness:
  "retrieve sample sample_filled
     (vault_index_drop sample (index (toy_vault 6)) (toy_run sample_password 6 sample_run2)) sample_name =
   retrieve sample sample_filled (toy_run sample_password 6 sample_run2) sample_name"
proof -
  have "process_step sample sample_two 1 DropVault
      (vault_index_drop sample (index (toy_vault 6)) (toy_run sample_password 6 sample_run2),
       (snd sample_two)(1 := None))"
    unfolding sample_two_def snd_conv by (rule process_step.Drop) simp
  from vaults_do_not_interfere [OF sample_laws sample_two_ok this, of 0 sample_filled]
  show ?thesis by (simp add: sample_two_def)
qed

text \<open>C8: No secret is left in memory that is handed back: every region a process returns to
  \<open>memsec\<close>, on whatever path, holds zeros only, or is one that could not be locked and is returned
  just as it was allocated.\<close>

theorem memory_returned_clean:
  assumes "process_run X c c'" "released (fst c) = []" "b \<in> set (released (fst c'))"
  shows "(\<forall>x \<in> set b. x = 0) \<or>
    (\<exists>n h w p w'. memsec_malloc_sized X n h w = (Some (p, b), w'))"
  using process_run_clean [OF assms(1)] assms(2,3)
  by (auto simp: frees_clean_def clean_region_def)

theorem memory_returned_clean_witness:
  "list_all (\<lambda>b. set b \<subseteq> {0} \<or>
       (\<exists>n h w p w'. memsec_malloc_sized sample n h w = (Some (p, b), w')))
     (released (vault_index_drop sample (index (toy_vault 6)) (fst sample_two)))"
proof -
  have "process_step sample sample_two 1 DropVault
      (vault_index_drop sample (index (toy_vault 6)) (fst sample_two), (snd sample_two)(1 := None))"
    unfolding sample_two_def fst_conv snd_conv by (rule process_step.Drop) simp
  from memory_returned_clean [OF process_run.Step [OF sample_process_run this]] show ?thesis
    by (fastforce simp: list_all_iff sample_sys_def)
qed

section \<open>Nonces\<close>

text \<open>C5: No nonce is used twice. Through any history of a process, with any number of vaults
  that are created, filled, re-keyed, written to files and opened from them again, possibly several
  times from the same file, two ciphertexts that ever were in a vault or in a file and begin with
  the same nonce are one and the same. The random generator must not repeat a value, and the files
  opened must be those written, with a password that opens them.\<close>

theorem nonces_never_reused:
  assumes "ext_laws X" "rng_never_repeats X drawn" "write_history X c F W"
    and "a \<in> W" "b \<in> W" "take XCHACHA20_NONCE_LEN a = take XCHACHA20_NONCE_LEN b"
  shows "a = b"
  using history_nonces [OF assms(1-5)] assms(6) by (simp add: blob_nonce_def)

definition sample_drawn :: "nat \<Rightarrow> bytes set" where
  "sample_drawn w = {replicate n (of_nat k) |n k. k < w \<and> k < 250}"

lemma sample_never_repeats: "rng_never_repeats sample sample_drawn"
proof -
  have mono: "sample_drawn w \<subseteq> sample_drawn (Suc w)" for w
    by (force simp: sample_drawn_def)
  have inj: "i = k" if "replicate n (of_nat i :: byte) = replicate m (of_nat k)" "16 \<le> n"
    "i < 250" "k < 250" for n m i k
  proof -
    have "n = m" using that(1) by (metis length_replicate)
    with that have "(of_nat i :: byte) = of_nat k" by (simp add: replicate_eq_replicate)
    moreover have "unat (of_nat i :: byte) = i" "unat (of_nat k :: byte) = k"
      using that(3,4) by (simp_all add: unat_of_nat)
    ultimately show ?thesis by metis
  qed
  have fresh: "replicate n (of_nat w) \<notin> sample_drawn w" if "16 \<le> n" "w < 250" for n w
    using that inj [of n w] by (fastforce simp: sample_drawn_def)
  have new: "replicate n (of_nat w) \<in> sample_drawn (Suc w)" if "w < 250" for n w
    using that by (auto simp: sample_drawn_def)
  show ?thesis
    using mono fresh new
    by (auto simp: rng_never_repeats_def sample_fields const_defs split: if_splits)
qed

theorem nonces_never_reused_witness:
  "take XCHACHA20_NONCE_LEN (encrypted_name (toy_entry sample_ek (toy_name_key sample_name) 0 4
      sample_name sample_secret)) \<noteq>
   take XCHACHA20_NONCE_LEN (encrypted_data (toy_entry sample_ek (toy_name_key sample_name) 0 4
      sample_name sample_secret))"
proof
  let ?e = "toy_entry sample_ek (toy_name_key sample_name) 0 4 sample_name sample_secret"
  assume same: "take XCHACHA20_NONCE_LEN (encrypted_name ?e) =
    take XCHACHA20_NONCE_LEN (encrypted_data ?e)"
  have h: "write_history sample sample_process {}
      (({} \<union> process_blobs (sample_run, [0 \<mapsto> sample_vault])) \<union> process_blobs sample_process)"
    by (rule write_history.Step [OF write_history.Step [OF write_history.Start [OF sample_mem_ok
        sample_empty] sample_new] sample_called]) (simp_all add: opens_own_files_def)
  have "encrypted_name ?e \<in> process_blobs sample_process" "encrypted_data ?e \<in> process_blobs sample_process"
    by (simp_all add: process_blobs_def sample_process_def files_blobs_def sample_files entry_blobs_def)
  then have "encrypted_name ?e = encrypted_data ?e"
    by (intro nonces_never_reused [OF sample_laws sample_never_repeats h _ _ same]) simp_all
  then show False
    by (simp add: toy_entry_def Let_def sample_name_def sample_secret_def const_defs ascii_def
        numeral_eq_Suc)
qed

end
