(* ===== verification/AuthTests.thy ===== *)
theory AuthTests
  imports TamperTests CapTests Rejection
begin

text \<open>
  The unit tests of the facade (\<open>mod tests\<close> of \<open>src/vault/facade.rs\<close>) that expect a wrong password
  or a changed file to be noticed. What notices it is the cipher, which is a parameter, so each
  test is shown to pass exactly when the cipher does not accept the index of the forged file:
  the code around the cipher neither hides its refusal nor refuses for another reason.
\<close>

text \<open>\<open>matches!(result, Err(VaultError::InvalidPassword))\<close>\<close>

definition rejected_as_password :: "(vault_error + vault) \<times> 'w sys \<Rightarrow> bool" where
  "rejected_as_password r = (case r of (Inl InvalidPassword, s) \<Rightarrow> True | _ \<Rightarrow> False)"

text \<open>\<open>data[i] ^= flips\<close>; an index out of range panics.\<close>

definition xor_at :: "nat \<Rightarrow> byte \<Rightarrow> bytes \<Rightarrow> (bytes \<Rightarrow> bool) \<Rightarrow> bool" where
  "xor_at i flips data k \<longleftrightarrow> i < length data \<and> k (data[i := (data ! i) XOR flips])"

section \<open>A wrong password\<close>

definition wrong_password_fails_open :: "'w externals \<Rightarrow> 'w sys \<Rightarrow> bool" where
  "wrong_password_fails_open X s \<longleftrightarrow>
     unwrap_with (create X (ascii ''correct-pw'') s) (\<lambda>v s1.
     unwrap_with (export X v s1) (\<lambda>exported (v1, s2).
     rejected_as_password (open_vault X (ascii ''wrong-pw!'') exported s2)))"

definition tampered_export_fails_open :: "'w externals \<Rightarrow> 'w sys \<Rightarrow> bool" where
  "tampered_export_fails_open X s \<longleftrightarrow>
     unwrap_with (create X (ascii ''password'') s) (\<lambda>v s1.
     unwrap_with (export X v s1) (\<lambda>exported (v1, s2).
     let tampered = (if exported = [] then []
       else butlast exported @ [last exported XOR 0xFF])
     in is_err (fst (open_vault X (ascii ''password'') tampered s2))))"

definition load_wrong_password_fails ::
  "'w externals \<Rightarrow> file_system \<Rightarrow> path \<Rightarrow> 'w sys \<Rightarrow> bool" where
  "load_wrong_password_fails X fs dir s \<longleftrightarrow>
     (let path = path_join dir ''vault.seal'' in
      unwrap_with (create X (ascii ''correct!'') s) (\<lambda>v s1.
      unwrap_with (save X no_faults v s1 fs path) (\<lambda>u (v1, s2, fs1).
      rejected_as_password (load_vault X no_faults fs1 path (ascii ''wrong!!!'') s2))))"

definition change_password_then_retrieve_by_name :: "'w externals \<Rightarrow> 'w sys \<Rightarrow> bool" where
  "change_password_then_retrieve_by_name X s \<longleftrightarrow>
     unwrap_with (create X (ascii ''old-password'') s) (\<lambda>v s1.
     unwrap_with (store X v s1 (ascii ''key'') (ascii ''preserved-value'')) (\<lambda>u (v1, s2).
     case change_password X v1 s2 (ascii ''old-password'') (ascii ''new-password'') of
       (Inl e, v2, s3) \<Rightarrow> False
     | (Inr _, v2, s3) \<Rightarrow>
     unwrap_with (export X v2 s3) (\<lambda>exported (v3, s4).
     case open_vault X (ascii ''old-password'') exported s4 of
       (Inr w, s5) \<Rightarrow> False
     | (Inl e, s5) \<Rightarrow>
     unwrap_with (open_vault X (ascii ''new-password'') exported s5) (\<lambda>reopened s6.
     unwrap (retrieve X reopened s6 (ascii ''key'')) (\<lambda>r.
       r = Some (ascii ''preserved-value''))))))"

definition change_password_wrong_current_fails_without_side_effects ::
  "'w externals \<Rightarrow> 'w sys \<Rightarrow> bool" where
  "change_password_wrong_current_fails_without_side_effects X s \<longleftrightarrow>
     unwrap_with (create X (ascii ''real-pwd!'') s) (\<lambda>v s1.
     unwrap_with (store X v s1 (ascii ''key'') (ascii ''value'')) (\<lambda>u (v1, s2).
     let nonce_before = nonce (index v1); counter_before = nonce_counter (index v1) in
     case change_password X v1 s2 (ascii ''wrong!!!'') (ascii ''new-pwd!'') of
       (Inl InvalidPassword, v2, s3) \<Rightarrow>
         nonce (index v2) = nonce_before \<and> nonce_counter (index v2) = counter_before \<and>
         unwrap (retrieve X v2 s3 (ascii ''key'')) (\<lambda>r. r = Some (ascii ''value'')) \<and>
         unwrap_with (export X v2 s3) (\<lambda>exported (v3, s4).
         \<not> is_err (fst (open_vault X (ascii ''real-pwd!'') exported s4)))
     | _ \<Rightarrow> False))"

section \<open>A changed nonce or ciphertext\<close>

definition current_format_export_does_not_carry_the_legacy_counter ::
  "'w externals \<Rightarrow> 'w sys \<Rightarrow> bool" where
  "current_format_export_does_not_carry_the_legacy_counter X s \<longleftrightarrow>
     (let password = ascii ''password-v2-layout'' in
      unwrap_with (make_valid_export X password s) (\<lambda>valid s1.
      let header_len = header_len_of valid; after_nonce = 4 + header_len + XCHACHA20_NONCE_LEN
      in xor_at after_nonce 0xFF valid (\<lambda>tampered.
         rejected_as_password (open_vault X password tampered s1))))"

definition open_rejects_cross_vault_header_swap :: "'w externals \<Rightarrow> 'w sys \<Rightarrow> bool" where
  "open_rejects_cross_vault_header_swap X s \<longleftrightarrow>
     (let password = ascii ''shared-password'' in
      unwrap_with (make_valid_export X password s) (\<lambda>export_a s1.
      unwrap_with (make_valid_export X password s1) (\<lambda>export_b s2.
      let header_len_a = header_len_of export_a;
          header_a_json = take header_len_a (drop 4 export_a);
          tampered = replace_header_json export_b header_a_json
      in rejected_as_password (open_vault X password tampered s2))))"

definition open_rejects_bit_flipped_nonce :: "'w externals \<Rightarrow> 'w sys \<Rightarrow> bool" where
  "open_rejects_bit_flipped_nonce X s \<longleftrightarrow>
     (let password = ascii ''password-iiii'' in
      unwrap_with (make_valid_export X password s) (\<lambda>valid s1.
      let header_len = header_len_of valid; nonce_start = 4 + header_len
      in xor_at nonce_start 0x01 valid (\<lambda>tampered.
         rejected_as_password (open_vault X password tampered s1))))"

text \<open>\<open>tampered[a..a + n].copy_from_slice(b)\<close> with \<open>b\<close> of \<open>n\<close> bytes\<close>

definition copy_into :: "nat \<Rightarrow> bytes \<Rightarrow> bytes \<Rightarrow> bytes" where
  "copy_into a b data = take a data @ b @ drop (a + length b) data"

definition open_rejects_replaying_old_nonce_into_new_export :: "'w externals \<Rightarrow> 'w sys \<Rightarrow> bool" where
  "open_rejects_replaying_old_nonce_into_new_export X s \<longleftrightarrow>
     (let password = ascii ''password-kkkk'' in
      unwrap_with (create X password s) (\<lambda>v s1.
      unwrap_with (store X v s1 (ascii ''k'') (ascii ''v'')) (\<lambda>u (v1, s2).
      unwrap_with (export X v1 s2) (\<lambda>export_first (v2, s3).
      unwrap_with (export X v2 s3) (\<lambda>export_second (v3, s4).
      let header_len_first = header_len_of export_first;
          header_len_second = header_len_of export_second;
          nonce_start = 4 + header_len_second;
          old_nonce = take XCHACHA20_NONCE_LEN (drop (4 + header_len_first) export_first);
          tampered = copy_into nonce_start old_nonce export_second
      in header_len_first = header_len_second \<and>
         take XCHACHA20_NONCE_LEN (drop nonce_start export_second) \<noteq> old_nonce \<and>
         rejected_as_password (open_vault X password tampered s4))))))"

definition POLY1305_TAG_LEN :: nat where "POLY1305_TAG_LEN = 16"

definition ciphertext_offset :: "bytes \<Rightarrow> nat" where
  "ciphertext_offset exported = 4 + header_len_of exported + XCHACHA20_NONCE_LEN"

definition open_rejects_bit_flip_in_ciphertext_body :: "'w externals \<Rightarrow> 'w sys \<Rightarrow> bool" where
  "open_rejects_bit_flip_in_ciphertext_body X s \<longleftrightarrow>
     (let password = ascii ''password-llll'' in
      unwrap_with (make_valid_export X password s) (\<lambda>valid s1.
      let ct_start = ciphertext_offset valid
      in ct_start + POLY1305_TAG_LEN < length valid \<and>
         xor_at ct_start 0x01 valid (\<lambda>tampered.
         rejected_as_password (open_vault X password tampered s1))))"

definition open_rejects_bit_flip_in_poly1305_tag :: "'w externals \<Rightarrow> 'w sys \<Rightarrow> bool" where
  "open_rejects_bit_flip_in_poly1305_tag X s \<longleftrightarrow>
     (let password = ascii ''password-mmmm'' in
      unwrap_with (make_valid_export X password s) (\<lambda>valid s1.
      let tag_mid = length valid - POLY1305_TAG_LEN + POLY1305_TAG_LEN div 2
      in xor_at tag_mid 0x40 valid (\<lambda>tampered.
         rejected_as_password (open_vault X password tampered s1))))"

definition open_rejects_ciphertext_with_tag_stripped :: "'w externals \<Rightarrow> 'w sys \<Rightarrow> bool" where
  "open_rejects_ciphertext_with_tag_stripped X s \<longleftrightarrow>
     (let password = ascii ''password-nnnn'' in
      unwrap_with (make_valid_export X password s) (\<lambda>valid s1.
      let truncated = take (length valid - POLY1305_TAG_LEN) valid
      in rejected_as_password (open_vault X password truncated s1)))"

definition open_rejects_ciphertext_with_trailing_garbage_appended ::
  "'w externals \<Rightarrow> 'w sys \<Rightarrow> bool" where
  "open_rejects_ciphertext_with_trailing_garbage_appended X s \<longleftrightarrow>
     (let password = ascii ''password-oooo'' in
      unwrap_with (make_valid_export X password s) (\<lambda>valid s1.
      let tampered = valid @ [0xAB, 0xCD, 0xEF]
      in rejected_as_password (open_vault X password tampered s1)))"

section \<open>What is in the files the tests write\<close>

definition current_header :: "'w externals \<Rightarrow> vault_header \<Rightarrow> bytes \<Rightarrow> bool" where
  "current_header X h hj \<longleftrightarrow>
     header_to_json X h = Inr hj \<and> header_from_json X hj = Inr h \<and> header_in_policy h \<and>
     version h = VAULT_VERSION \<and> length hj \<le> MAX_HEADER_JSON_LEN \<and> length (kdf_salt h) = SALT_LEN"

text \<open>A file with the header of a vault and anything behind it.\<close>

abbreviation headed_file :: "bytes \<Rightarrow> bytes \<Rightarrow> bytes" where
  "headed_file hj r \<equiv> u32_to_le (of_nat (length hj)) @ hj @ r"

lemma header_len_of_headed [simp]:
  "length hj \<le> MAX_HEADER_JSON_LEN \<Longrightarrow> header_len_of (headed_file hj r) = length hj"
  by (simp add: header_len_of_def unat_u32_of_nat const_defs)

lemma parsed_rejected_iff:
  assumes "parse_envelope X data = Inr env" "password_keys X pw (env_header env) = Inr (ek, hk)"
  shows "rejected_as_password (open_vault X pw data t) \<longleftrightarrow> \<not> index_opens X pw data"
proof -
  have "rejected_as_password (open_vault X pw data t) \<longleftrightarrow>
      (\<exists>t'. open_vault X pw data t = (Inl InvalidPassword, t'))"
    by (auto simp: rejected_as_password_def split: prod.splits sum.splits vault_error.splits)
  then show ?thesis using index_refused_iff [OF assms] by (simp add: open_invalid_iff)
qed

lemma rejected_iff:
  assumes "env_works X" "current_header X h hj" "length pw < 2 ^ 32"
    and "XCHACHA20_NONCE_LEN \<le> length r" "4 + length hj + length r \<le> MAX_VAULT_FILE_SIZE"
  shows "rejected_as_password (open_vault X pw (headed_file hj r) t) \<longleftrightarrow>
    \<not> index_opens X pw (headed_file hj r)"
proof -
  have h: "header_to_json X h = Inr hj" "header_from_json X hj = Inr h" "header_in_policy h"
    "version h = VAULT_VERSION" "length hj \<le> MAX_HEADER_JSON_LEN" "length (kdf_salt h) = SALT_LEN"
    using assms(2) by (simp_all add: current_header_def)
  let ?n = "take XCHACHA20_NONCE_LEN r" and ?c = "drop XCHACHA20_NONCE_LEN r"
  have parse: "parse_envelope X (headed_file hj r) =
      Inr \<lparr>env_header = h, env_nonce = ?n, env_encrypted_index = ?c\<rparr>"
    using assms(4,5)
    by (intro parse_envelope_layout [OF h(1-3,5), of ?n "[]"])
      (simp_all add: legacy_gap_def h(4) VAULT_VERSION_def LEGACY_VAULT_VERSION_1_def)
  obtain ek hk where "password_keys X pw h = Inr (ek, hk)"
    by (rule password_keys_works [OF assms(1) h(3,4,6) assms(3)])
  then show ?thesis by (intro parsed_rejected_iff [OF parse]) simp
qed

text \<open>An exported vault with at most one entry.\<close>

lemma small_export:
  assumes "test_machine X s" "vault_ok s v" "unlocked_by X pw s v" "length (files (index v)) \<le> 1"
    and "export X v s = (Inr out, v1, s1)"
  obtains hj n c ek hk where "out = headed_file hj (n @ c)" "length n = XCHACHA20_NONCE_LEN"
    "current_header X (header v) hj" "nonce (index v1) = n" "POLY1305_OUTSIZE < length c"
    "password_keys X pw (header v) = Inr (ek, hk)" "length out + MAX_HEADER_JSON_LEN \<le> MAX_VAULT_FILE_SIZE"
    "test_machine X s1"
proof -
  have X: "ext_laws X" using assms(1) by (simp add: test_machine_def env_works_def)
  from assms(3) obtain ek hk where keys: "password_keys X pw (header v) = Inr (ek, hk)"
    and live: "keys_live s (index v) ek hk" by (auto simp: unlocked_by_def)
  have idx: "index_ok (index v)" and h: "length (kdf_salt (header v)) = SALT_LEN"
    "header_in_policy (header v)" "version (header v) = VAULT_VERSION"
    using assms(2) by (simp_all add: vault_ok_def)
  obtain b where b: "header_to_json X (header v) = Inr b" "length b \<le> MAX_HEADER_JSON_LEN"
    "header_from_json X b = Inr (header v)"
    by (rule to_aad_bytes_ok [OF ext_lawsD(5) [OF X] h(1)])
  have ek: "length ek = 32" using live by (simp add: keys_live_def SUBKEY_LEN_def)
  show thesis
  proof (rule export_ok [OF X idx live assms(5)])
    fix hj n c
    assume e: "v1 = v\<lparr>index := (index v)\<lparr>nonce := n, nonce_counter := nonce_counter (index v) + 1\<rparr>\<rparr>"
      "length n = XCHACHA20_NONCE_LEN" "header_to_json X (header v) = Inr hj"
      "seal_with_aad X ek n (index_layout (nonce_counter (index v) + 1)
         (data_nonce_counter (index v)) (files (index v))) hj = Inr c"
      "out = assemble_envelope hj n c" "\<exists>w. s1 = s\<lparr>ext := w\<rparr>"
    note c = seal_with_aad_length [OF ext_lawsD(3) [OF X] ek e(2,4)]
    have "files_ok (files (index v))" using idx by (simp add: index_ok_def)
    then have len: "length c = encoded_total (index v) + POLY1305_OUTSIZE"
      using c length_index_layout [of "files (index v)"]
      by (simp add: files_ok_def encoded_total_def)
    let ?size = "\<lambda>f. ENTRY_FIXED_LEN + length (encrypted_name (snd f)) +
      length (encrypted_data (snd f))"
    have "sum_list (map ?size (files (index v))) \<le>
        ENTRY_FIXED_LEN + MAX_ENCRYPTED_NAME_LEN + MAX_ENCRYPTED_DATA_LEN"
      using idx assms(4)
      by (cases "files (index v)") (auto simp: index_ok_def files_ok_def file_ok_def sizes_ok_def)
    then have "encoded_total (index v) \<le> INDEX_PREAMBLE_LEN + ENTRY_FIXED_LEN +
        MAX_ENCRYPTED_NAME_LEN + MAX_ENCRYPTED_DATA_LEN"
      by (simp add: encoded_total_def)
    then have "length out + MAX_HEADER_JSON_LEN \<le> MAX_VAULT_FILE_SIZE"
      using b(1,2) e(2,3) len by (simp add: e(5) assemble_envelope_def const_defs)
    moreover have "POLY1305_OUTSIZE < length c"
      using len by (simp add: encoded_total_def const_defs)
    moreover have "test_machine X s1" using assms(1) e(6) by (auto simp: test_machine_def)
    ultimately show thesis
      using b e(1-3) h keys
      by (intro that [of hj n c ek hk])
        (simp_all add: e(5) assemble_envelope_def current_header_def)
  qed
qed

text \<open>What \<open>make_valid_export\<close> writes, and that the machine is as good as before.\<close>

lemma drop_machine: "test_machine X s \<Longrightarrow> test_machine X (vault_index_drop X idx s)"
proof -
  assume a: "test_machine X s"
  have "dom (heap (vault_index_drop X idx s)) \<subseteq> dom (heap s)"
    by (auto simp: vault_index_drop_def vault_index_wipe_def Let_def locked_secret_drop_def
        locked_region_drop_def mem_defs split: if_splits)
  moreover have "mem_ok (vault_index_drop X idx s)"
    using a by (intro vault_index_drop_effect(1)) (auto simp: test_machine_def dest: env_worksD(6))
  ultimately show ?thesis using a by (auto simp: test_machine_def intro: finite_subset)
qed

lemma one_entry:
  assumes "test_machine X s" "MIN_PASSWORD_LEN \<le> length pw" "length pw < 2 ^ 32"
    and "length name \<le> MAX_ENTRY_NAME_LEN" "length p \<le> MAX_ENTRY_DATA_SIZE"
  obtains v s1 v1 s2 where "create X pw s = (Inr v, s1)" "store X v s1 name p = (Inr (), v1, s2)"
    "stands_for X {name} (s2, v1, pw) (pw, [name \<mapsto> p])" "config_apart X {name} (s2, v1, pw)"
    "test_machine X s2" "length (files (index v1)) \<le> 1" "nonce_counter (index v1) = 0"
    "data_nonce_counter (index v1) = 1"
proof -
  obtain v s1 where v: "create X pw s = (Inr v, s1)"
    "\<And>n. stands_for X {n} (s1, v, pw) (pw, Map.empty)" "files (index v) = []"
    "data_nonce_counter (index v) = 0" "nonce_counter (index v) = 0" "test_machine X s1"
    by (rule created [OF assms(1-3)]) blast
  have apart: "config_apart X {name} (s1, v, pw)"
    using v(6) by (simp add: test_machine_def single_apart)
  show thesis
    by (rule stored [OF v(6,2) apart _ _ _ assms(4,5)])
      (use v in \<open>auto simp: MAX_INDEX_ENTRIES_def word_unat_eq_iff intro!: that\<close>)
qed

lemma valid_file:
  assumes "test_machine X s" "MIN_PASSWORD_LEN \<le> length pw" "length pw < 2 ^ 32"
  obtains s1 h hj n c where "make_valid_export X pw s = (Inr (headed_file hj (n @ c)), s1)"
    "length n = XCHACHA20_NONCE_LEN" "current_header X h hj" "POLY1305_OUTSIZE < length c"
    "length (headed_file hj (n @ c)) + MAX_HEADER_JSON_LEN \<le> MAX_VAULT_FILE_SIZE" "test_machine X s1"
proof -
  obtain v s1 v1 s2 where r: "create X pw s = (Inr v, s1)"
    "store X v s1 (ascii ''k'') (ascii ''v'') = (Inr (), v1, s2)"
    "stands_for X {ascii ''k''} (s2, v1, pw) (pw, [ascii ''k'' \<mapsto> ascii ''v''])"
    "test_machine X s2" "length (files (index v1)) \<le> 1" "nonce_counter (index v1) = 0"
    by (rule one_entry [OF assms, of "ascii ''k''" "ascii ''v''"]) (simp_all add: test_lengths)
  have v1: "vault_ok s2 v1" "unlocked_by X pw s2 v1" using r(3) by (simp_all add: stands_for_def)
  have env: "env_works X" using assms(1) by (simp add: test_machine_def)
  have "export_size X v1 \<le> MAX_VAULT_FILE_SIZE" by (rule export_size_small [OF env v1(1)]) (use r(5) in simp)
  then obtain out v2 s3 where e: "export X v1 s2 = (Inr out, v2, s3)"
    by (rule export_works [OF env v1(1), rotated 1]) (simp_all add: r(6))
  show thesis
    by (rule small_export [OF r(4) v1 r(5) e],
        rule that [where ?s1.0 = "vault_index_drop X (index v2) s3"])
      (auto simp: make_valid_export_def r(1,2) e intro: drop_machine)
qed

section \<open>The tests pass exactly when the cipher refuses\<close>

text \<open>
  A test that writes a file and changes it passes exactly when the cipher does not open the
  changed file. The tuple holds the outcome of the test, the file as written, the password it is
  opened with, and the change.
\<close>

definition passes_iff_refused ::
  "'w externals \<Rightarrow> bool \<times> ((vault_error + bytes) \<times> 'w sys) \<times> bytes \<times> (bytes \<Rightarrow> bytes) \<Rightarrow> bool"
where
  "passes_iff_refused X = (\<lambda>(test, written, password, change).
     \<exists>file. fst written = Inr file \<and> (test \<longleftrightarrow> \<not> index_opens X password (change file)))"

text \<open>Every change leaves the header and the room for a nonce.\<close>

lemma change_passes:
  assumes "test_machine X s" "MIN_PASSWORD_LEN \<le> length pw" "length pw < 2 ^ 32"
    and "\<And>hj n c s1. length n = XCHACHA20_NONCE_LEN \<Longrightarrow> POLY1305_OUTSIZE < length c \<Longrightarrow>
      length hj \<le> MAX_HEADER_JSON_LEN \<Longrightarrow> make_valid_export X pw s = (Inr (headed_file hj (n @ c)), s1) \<Longrightarrow>
      \<exists>r. change (headed_file hj (n @ c)) = headed_file hj r \<and> XCHACHA20_NONCE_LEN \<le> length r \<and>
        length r \<le> length n + length c + 3 \<and>
        (test \<longleftrightarrow> rejected_as_password (open_vault X pw (headed_file hj r) s1))"
  shows "passes_iff_refused X (test, make_valid_export X pw s, pw, change)"
proof -
  obtain s1 h hj n c where f: "make_valid_export X pw s = (Inr (headed_file hj (n @ c)), s1)"
    "length n = XCHACHA20_NONCE_LEN" "current_header X h hj" "POLY1305_OUTSIZE < length c"
    "length (headed_file hj (n @ c)) + MAX_HEADER_JSON_LEN \<le> MAX_VAULT_FILE_SIZE"
    by (rule valid_file [OF assms(1-3)])
  have "length hj \<le> MAX_HEADER_JSON_LEN" using f(3) by (simp add: current_header_def)
  from assms(4) [OF f(2,4) this f(1)] obtain r
    where r: "change (headed_file hj (n @ c)) = headed_file hj r" "XCHACHA20_NONCE_LEN \<le> length r"
      "length r \<le> length n + length c + 3"
      "test \<longleftrightarrow> rejected_as_password (open_vault X pw (headed_file hj r) s1)" by blast
  have "env_works X" using assms(1) by (simp add: test_machine_def)
  from rejected_iff [OF this f(3) assms(3) r(2)] r(3,4) f(5)
  have "test \<longleftrightarrow> \<not> index_opens X pw (headed_file hj r)" by (simp add: MAX_HEADER_JSON_LEN_def)
  with f(1) r(1) show ?thesis by (auto simp: passes_iff_refused_def)
qed

lemma headed_update:
  "(headed_file hj r)[4 + length hj + i := x] = headed_file hj (r[i := x])"
  "headed_file hj r ! (4 + length hj + i) = r ! i"
  by (simp_all add: list_update_append nth_append)

lemma xor_passes:
  assumes "test_machine X s" "MIN_PASSWORD_LEN \<le> length pw" "length pw < 2 ^ 32"
    and "\<And>hj n c s1. length n = XCHACHA20_NONCE_LEN \<Longrightarrow> POLY1305_OUTSIZE < length c \<Longrightarrow>
      length hj \<le> MAX_HEADER_JSON_LEN \<Longrightarrow> make_valid_export X pw s = (Inr (headed_file hj (n @ c)), s1) \<Longrightarrow>
      \<exists>i. at (headed_file hj (n @ c)) = 4 + length hj + i \<and> i < length n + length c \<and>
        (test \<longleftrightarrow> rejected_as_password (open_vault X pw
           ((headed_file hj (n @ c))[at (headed_file hj (n @ c)) :=
              headed_file hj (n @ c) ! at (headed_file hj (n @ c)) XOR flips]) s1))"
  shows "passes_iff_refused X (test, make_valid_export X pw s, pw, \<lambda>valid. valid[at valid := valid ! at valid XOR flips])"
proof (rule change_passes [OF assms(1-3)])
  fix hj n c :: bytes and s1
  assume "length n = XCHACHA20_NONCE_LEN" "POLY1305_OUTSIZE < length c"
    "length hj \<le> MAX_HEADER_JSON_LEN" "make_valid_export X pw s = (Inr (headed_file hj (n @ c)), s1)"
  from assms(4) [OF this] show "\<exists>r. (headed_file hj (n @ c))[at (headed_file hj (n @ c)) :=
        headed_file hj (n @ c) ! at (headed_file hj (n @ c)) XOR flips] = headed_file hj r \<and>
      XCHACHA20_NONCE_LEN \<le> length r \<and> length r \<le> length n + length c + 3 \<and>
      (test \<longleftrightarrow> rejected_as_password (open_vault X pw (headed_file hj r) s1))"
    using \<open>length n = XCHACHA20_NONCE_LEN\<close>
    by (elim exE conjE) (simp only: headed_update, intro exI conjI, rule refl, simp_all)
qed

lemma flip_tests:
  assumes "test_machine X s"
  shows "passes_iff_refused X (open_rejects_bit_flipped_nonce X s,
      make_valid_export X (ascii ''password-iiii'') s, ascii ''password-iiii'',
      \<lambda>valid. valid[4 + header_len_of valid := valid ! (4 + header_len_of valid) XOR 0x01])"
    "passes_iff_refused X (open_rejects_bit_flip_in_ciphertext_body X s,
      make_valid_export X (ascii ''password-llll'') s, ascii ''password-llll'',
      \<lambda>valid. valid[ciphertext_offset valid := valid ! ciphertext_offset valid XOR 0x01])"
    "passes_iff_refused X (open_rejects_bit_flip_in_poly1305_tag X s,
      make_valid_export X (ascii ''password-mmmm'') s, ascii ''password-mmmm'',
      \<lambda>valid. valid[length valid - 8 := valid ! (length valid - 8) XOR 0x40])"
    "passes_iff_refused X (current_format_export_does_not_carry_the_legacy_counter X s,
      make_valid_export X (ascii ''password-v2-layout'') s, ascii ''password-v2-layout'',
      \<lambda>valid. valid[ciphertext_offset valid := valid ! ciphertext_offset valid XOR 0xFF])"
proof -
  note flip = xor_passes [OF assms]
  show "passes_iff_refused X (open_rejects_bit_flipped_nonce X s,
      make_valid_export X (ascii ''password-iiii'') s, ascii ''password-iiii'',
      \<lambda>valid. valid[4 + header_len_of valid := valid ! (4 + header_len_of valid) XOR 0x01])"
    by (rule flip [where at = "\<lambda>valid. 4 + header_len_of valid"])
      (auto simp: test_lengths open_rejects_bit_flipped_nonce_def Let_def xor_at_def const_defs
        intro: exI [of _ 0])
  show "passes_iff_refused X (open_rejects_bit_flip_in_ciphertext_body X s,
      make_valid_export X (ascii ''password-llll'') s, ascii ''password-llll'',
      \<lambda>valid. valid[ciphertext_offset valid := valid ! ciphertext_offset valid XOR 0x01])"
    by (rule flip)
      (auto simp: test_lengths open_rejects_bit_flip_in_ciphertext_body_def ciphertext_offset_def
        Let_def xor_at_def POLY1305_TAG_LEN_def const_defs intro: exI [of _ 24])
  show "passes_iff_refused X (open_rejects_bit_flip_in_poly1305_tag X s,
      make_valid_export X (ascii ''password-mmmm'') s, ascii ''password-mmmm'',
      \<lambda>valid. valid[length valid - 8 := valid ! (length valid - 8) XOR 0x40])"
  proof (rule flip [where at = "\<lambda>valid. length valid - 8"])
    fix hj n c :: bytes and s1
    assume f: "length n = XCHACHA20_NONCE_LEN" "POLY1305_OUTSIZE < length c"
      "make_valid_export X (ascii ''password-mmmm'') s = (Inr (headed_file hj (n @ c)), s1)"
    have i: "length (headed_file hj (n @ c)) - 8 = 4 + length hj + (length n + length c - 8)"
      "length n + length c - 8 < length n + length c"
      "length (headed_file hj (n @ c)) - POLY1305_TAG_LEN + POLY1305_TAG_LEN div 2 =
         length (headed_file hj (n @ c)) - 8"
      "length (headed_file hj (n @ c)) - 8 < length (headed_file hj (n @ c))"
      using f(2) by (simp_all add: POLY1305_TAG_LEN_def const_defs)
    show "\<exists>i. length (headed_file hj (n @ c)) - 8 = 4 + length hj + i \<and> i < length n + length c \<and>
        (open_rejects_bit_flip_in_poly1305_tag X s \<longleftrightarrow> rejected_as_password
           (open_vault X (ascii ''password-mmmm'') ((headed_file hj (n @ c))
             [length (headed_file hj (n @ c)) - 8 :=
                headed_file hj (n @ c) ! (length (headed_file hj (n @ c)) - 8) XOR 0x40]) s1))"
      unfolding open_rejects_bit_flip_in_poly1305_tag_def Let_def f(3) unwrap_simps xor_at_def i(3)
      by (intro exI conjI, rule i(1), rule i(2)) (simp only: i(4) simp_thms)
  qed (simp_all add: test_lengths)
  show "passes_iff_refused X (current_format_export_does_not_carry_the_legacy_counter X s,
      make_valid_export X (ascii ''password-v2-layout'') s, ascii ''password-v2-layout'',
      \<lambda>valid. valid[ciphertext_offset valid := valid ! ciphertext_offset valid XOR 0xFF])"
    by (rule flip)
      (auto simp: test_lengths current_format_export_does_not_carry_the_legacy_counter_def
        ciphertext_offset_def Let_def xor_at_def const_defs intro: exI [of _ 24])
qed

lemma length_tests:
  assumes "test_machine X s"
  shows "passes_iff_refused X (open_rejects_ciphertext_with_tag_stripped X s,
      make_valid_export X (ascii ''password-nnnn'') s, ascii ''password-nnnn'',
      \<lambda>valid. take (length valid - 16) valid)"
    "passes_iff_refused X (open_rejects_ciphertext_with_trailing_garbage_appended X s,
      make_valid_export X (ascii ''password-oooo'') s, ascii ''password-oooo'',
      \<lambda>valid. valid @ [0xAB, 0xCD, 0xEF])"
proof -
  show "passes_iff_refused X (open_rejects_ciphertext_with_tag_stripped X s,
      make_valid_export X (ascii ''password-nnnn'') s, ascii ''password-nnnn'',
      \<lambda>valid. take (length valid - 16) valid)"
  proof (rule change_passes [OF assms])
    fix hj n c :: bytes and s1
    assume f: "length n = XCHACHA20_NONCE_LEN" "POLY1305_OUTSIZE < length c"
      "make_valid_export X (ascii ''password-nnnn'') s = (Inr (headed_file hj (n @ c)), s1)"
    let ?r = "n @ take (length c - 16) c"
    have strip: "take (length (headed_file hj (n @ c)) - 16) (headed_file hj (n @ c)) = headed_file hj ?r"
      using f(1,2) by (simp add: const_defs)
    show "\<exists>r. take (length (headed_file hj (n @ c)) - 16) (headed_file hj (n @ c)) = headed_file hj r \<and>
        XCHACHA20_NONCE_LEN \<le> length r \<and> length r \<le> length n + length c + 3 \<and>
        (open_rejects_ciphertext_with_tag_stripped X s \<longleftrightarrow>
           rejected_as_password (open_vault X (ascii ''password-nnnn'') (headed_file hj r) s1))"
      unfolding open_rejects_ciphertext_with_tag_stripped_def Let_def f(3) unwrap_simps
        POLY1305_TAG_LEN_def strip
      using f(1) by (intro exI [of _ ?r]) simp
  qed (simp_all add: test_lengths)
  show "passes_iff_refused X (open_rejects_ciphertext_with_trailing_garbage_appended X s,
      make_valid_export X (ascii ''password-oooo'') s, ascii ''password-oooo'',
      \<lambda>valid. valid @ [0xAB, 0xCD, 0xEF])"
  proof (rule change_passes [OF assms])
    fix hj n c :: bytes and s1
    assume "length n = XCHACHA20_NONCE_LEN"
      "make_valid_export X (ascii ''password-oooo'') s = (Inr (headed_file hj (n @ c)), s1)"
    then show "\<exists>r. headed_file hj (n @ c) @ [0xAB, 0xCD, 0xEF] = headed_file hj r \<and>
        XCHACHA20_NONCE_LEN \<le> length r \<and> length r \<le> length n + length c + 3 \<and>
        (open_rejects_ciphertext_with_trailing_garbage_appended X s \<longleftrightarrow>
           rejected_as_password (open_vault X (ascii ''password-oooo'') (headed_file hj r) s1))"
      by (intro exI [of _ "n @ c @ [0xAB, 0xCD, 0xEF]"])
        (simp add: open_rejects_ciphertext_with_trailing_garbage_appended_def Let_def)
  qed (simp_all add: test_lengths)
qed

section \<open>Tests on a new vault\<close>

text \<open>The file a new vault is written to.\<close>

definition new_export ::
  "'w externals \<Rightarrow> bytes \<Rightarrow> 'w sys \<Rightarrow> (vault_error + bytes) \<times> 'w sys" where
  "new_export X password s =
     (case create X password s of
        (Inl e, s1) \<Rightarrow> (Inl e, s1)
      | (Inr v, s1) \<Rightarrow> (case export X v s1 of (r, v1, s2) \<Rightarrow> (r, s2)))"

lemma new_file:
  assumes "test_machine X s" "MIN_PASSWORD_LEN \<le> length pw" "length pw < 2 ^ 32"
  obtains v s1 v1 s2 hj n c where "create X pw s = (Inr v, s1)" "vault_ok s1 v"
    "export X v s1 = (Inr (headed_file hj (n @ c)), v1, s2)"
    "nonce_counter (index v) = 0" "export_size X v \<le> MAX_VAULT_FILE_SIZE"
    "length n = XCHACHA20_NONCE_LEN" "current_header X (header v) hj" "POLY1305_OUTSIZE < length c"
    "length (headed_file hj (n @ c)) + MAX_HEADER_JSON_LEN \<le> MAX_VAULT_FILE_SIZE" "test_machine X s2"
proof -
  obtain v s1 where v: "create X pw s = (Inr v, s1)"
    "\<And>n. stands_for X {n} (s1, v, pw) (pw, Map.empty)" "files (index v) = []"
    "nonce_counter (index v) = 0" "export_size X v \<le> MAX_VAULT_FILE_SIZE" "test_machine X s1"
    by (rule created [OF assms]) blast
  have ok: "vault_ok s1 v" "unlocked_by X pw s1 v" using v(2) by (simp_all add: stands_for_def)
  have env: "env_works X" using assms(1) by (simp add: test_machine_def)
  obtain out v1 s2 where e: "export X v s1 = (Inr out, v1, s2)"
    by (rule export_works [OF env ok(1) _ v(5)]) (simp_all add: v(4))
  show thesis
    by (rule small_export [OF v(6) ok _ e]) (use v(1,3-5) ok e in \<open>auto intro: that\<close>)
qed

lemma wrong_password_test:
  assumes "test_machine X s"
  shows "passes_iff_refused X (wrong_password_fails_open X s,
    new_export X (ascii ''correct-pw'') s, ascii ''wrong-pw!'', \<lambda>file. file)"
proof -
  obtain v s1 v1 s2 hj n c where f: "create X (ascii ''correct-pw'') s = (Inr v, s1)"
    "export X v s1 = (Inr (headed_file hj (n @ c)), v1, s2)" "length n = XCHACHA20_NONCE_LEN"
    "current_header X (header v) hj" "length (headed_file hj (n @ c)) + MAX_HEADER_JSON_LEN \<le> MAX_VAULT_FILE_SIZE"
    by (rule new_file [OF assms, of "ascii ''correct-pw''"]) (simp_all add: test_lengths)
  have "env_works X" using assms by (simp add: test_machine_def)
  from rejected_iff [OF this f(4), of "ascii ''wrong-pw!''" "n @ c" s2] f(3,5) show ?thesis
    by (simp add: passes_iff_refused_def wrong_password_fails_open_def new_export_def f(1,2))
qed

lemma load_wrong_password_test:
  assumes "test_machine X s"
    and "\<And>suffix. tree fs (resolve (save_tmp_path (path_join dir ''vault.seal'') suffix)) = None"
  shows "passes_iff_refused X (load_wrong_password_fails X fs dir s,
    new_export X (ascii ''correct!'') s, ascii ''wrong!!!'', \<lambda>file. file)"
proof -
  let ?path = "path_join dir ''vault.seal''"
  obtain v s1 v1 s2 hj n c where f: "create X (ascii ''correct!'') s = (Inr v, s1)" "vault_ok s1 v"
    "export X v s1 = (Inr (headed_file hj (n @ c)), v1, s2)" "nonce_counter (index v) = 0"
    "export_size X v \<le> MAX_VAULT_FILE_SIZE" "length n = XCHACHA20_NONCE_LEN"
    "current_header X (header v) hj" "length (headed_file hj (n @ c)) + MAX_HEADER_JSON_LEN \<le> MAX_VAULT_FILE_SIZE"
    by (rule new_file [OF assms(1), of "ascii ''correct!''"]) (simp_all add: test_lengths)
  have env: "env_works X" using assms(1) by (simp add: test_machine_def)
  obtain v' t fs1 where sv: "save X no_faults v s1 fs ?path = (Inr (), v', t, fs1)"
    by (rule save_works [OF env f(2) _ f(5) assms(2)]) (simp_all add: f(4))
  obtain out s' where "export X v s1 = (Inr out, v', s')"
    "\<And>password t. load_vault X no_faults fs1 ?path password t = open_vault X password out t"
    by (rule save_ok [OF env_worksD(1) [OF env] f(2) sv]) blast
  with f(3) have "load_vault X no_faults fs1 ?path pw t = open_vault X pw (headed_file hj (n @ c)) t"
    for pw t by simp
  with rejected_iff [OF env f(7), of "ascii ''wrong!!!''" "n @ c" t] f(6,8) show ?thesis
    by (simp add: passes_iff_refused_def load_wrong_password_fails_def new_export_def Let_def f(1,3) sv)
qed

text \<open>This one only asks for an error, which the decoder of the index may also report.\<close>

lemma opens_or_fails: "index_opens X pw data \<or> is_err (fst (open_vault X pw data t))"
proof (cases "fst (open_vault X pw data t)")
  case (Inr v)
  then have "open_vault X pw data t = (Inr v, snd (open_vault X pw data t))" by (simp add: prod_eq_iff)
  then show ?thesis using open_vault_needs_index by blast
qed (simp add: is_err_def)

lemma tampered_export_test:
  assumes "test_machine X s"
  obtains exported s' where "new_export X (ascii ''password'') s = (Inr exported, s')"
    "index_opens X (ascii ''password'') (butlast exported @ [last exported XOR 0xFF]) \<or>
     tampered_export_fails_open X s"
proof -
  obtain v s1 v1 s2 hj n c where f: "create X (ascii ''password'') s = (Inr v, s1)"
    "export X v s1 = (Inr (headed_file hj (n @ c)), v1, s2)" "length n = XCHACHA20_NONCE_LEN"
    by (rule new_file [OF assms, of "ascii ''password''"]) (simp_all add: test_lengths)
  define out where "out = headed_file hj (n @ c)"
  have "out \<noteq> []" "export X v s1 = (Inr out, v1, s2)"
    using f(2,3) by (auto simp: out_def XCHACHA20_NONCE_LEN_def)
  with f(1) show thesis
    using opens_or_fails [of X "ascii ''password''" "butlast out @ [last out XOR 0xFF]" s2]
    by (intro that [of out s2]) (simp_all add: new_export_def tampered_export_fails_open_def Let_def)
qed

lemma header_swap_test:
  assumes "test_machine X s"
  shows "\<exists>a s1. make_valid_export X (ascii ''shared-password'') s = (Inr a, s1) \<and>
    passes_iff_refused X (open_rejects_cross_vault_header_swap X s,
      make_valid_export X (ascii ''shared-password'') s1, ascii ''shared-password'',
      \<lambda>b. replace_header_json b (take (header_len_of a) (drop 4 a)))"
proof -
  let ?pw = "ascii ''shared-password''"
  have pw: "MIN_PASSWORD_LEN \<le> length ?pw" "length ?pw < 2 ^ 32" by (simp_all add: test_lengths)
  obtain s1 h hj n c where a: "make_valid_export X ?pw s = (Inr (headed_file hj (n @ c)), s1)"
    "current_header X h hj" "test_machine X s1"
    by (rule valid_file [OF assms pw]) blast
  obtain s2 h' hj' n' c' where b: "make_valid_export X ?pw s1 = (Inr (headed_file hj' (n' @ c')), s2)"
    "length n' = XCHACHA20_NONCE_LEN" "current_header X h' hj'"
    "length (headed_file hj' (n' @ c')) + MAX_HEADER_JSON_LEN \<le> MAX_VAULT_FILE_SIZE"
    by (rule valid_file [OF a(3) pw]) blast
  have len: "length hj \<le> MAX_HEADER_JSON_LEN" "length hj' \<le> MAX_HEADER_JSON_LEN"
    using a(2) b(3) by (simp_all add: current_header_def)
  have swap: "replace_header_json (headed_file hj' (n' @ c'))
      (take (header_len_of (headed_file hj (n @ c))) (drop 4 (headed_file hj (n @ c)))) =
      headed_file hj (n' @ c')"
    using len by (simp add: replace_header_json_def Let_def)
  have "env_works X" using assms by (simp add: test_machine_def)
  from rejected_iff [OF this a(2) pw(2), of "n' @ c'" s2] b(2,4) len
  have iff: "rejected_as_password (open_vault X ?pw (headed_file hj (n' @ c')) s2) \<longleftrightarrow>
      \<not> index_opens X ?pw (headed_file hj (n' @ c'))" by simp
  have "passes_iff_refused X (open_rejects_cross_vault_header_swap X s,
      make_valid_export X ?pw s1, ?pw, \<lambda>b. replace_header_json b
        (take (header_len_of (headed_file hj (n @ c))) (drop 4 (headed_file hj (n @ c)))))"
    unfolding passes_iff_refused_def prod.case b(1) fst_conv
    by (intro exI conjI, rule refl)
      (simp only: open_rejects_cross_vault_header_swap_def Let_def a(1) b(1) unwrap_simps swap iff)
  with a(1) show ?thesis by blast
qed

text \<open>The second of two exports of a vault, with the nonce of the first.\<close>

lemma replay_test:
  assumes "test_machine X s"
  obtains v s1 v1 s2 e1 v2 s3 e2 v3 s4 where "create X (ascii ''password-kkkk'') s = (Inr v, s1)"
    "store X v s1 (ascii ''k'') (ascii ''v'') = (Inr (), v1, s2)" "export X v1 s2 = (Inr e1, v2, s3)"
    "export X v2 s3 = (Inr e2, v3, s4)"
    "open_rejects_replaying_old_nonce_into_new_export X s \<longleftrightarrow> nonce (index v3) \<noteq> nonce (index v2) \<and>
       \<not> index_opens X (ascii ''password-kkkk'')
          (copy_into (4 + header_len_of e2) (nonce (index v2)) e2)"
proof -
  let ?pw = "ascii ''password-kkkk''"
  have env: "env_works X" using assms by (simp add: test_machine_def)
  obtain v s1 v1 s2 where r: "create X ?pw s = (Inr v, s1)"
    "store X v s1 (ascii ''k'') (ascii ''v'') = (Inr (), v1, s2)"
    "stands_for X {ascii ''k''} (s2, v1, ?pw) (?pw, [ascii ''k'' \<mapsto> ascii ''v''])"
    "test_machine X s2" "length (files (index v1)) \<le> 1" "nonce_counter (index v1) = 0"
    by (rule one_entry [OF assms, of ?pw "ascii ''k''" "ascii ''v''"]) (simp_all add: test_lengths)
  have v1: "vault_ok s2 v1" "unlocked_by X ?pw s2 v1" using r(3) by (simp_all add: stands_for_def)
  have sz: "export_size X v1 \<le> MAX_VAULT_FILE_SIZE"
    by (rule export_size_small [OF env v1(1)]) (use r(5) in simp)
  obtain e1 v2 s3 where 1: "export X v1 s2 = (Inr e1, v2, s3)"
    by (rule export_works [OF env v1(1) _ sz]) (simp_all add: r(6))
  note eff = export_effect [OF 1]
  have st2: "stands_for X {ascii ''k''} (s3, v2, ?pw) (?pw, [ascii ''k'' \<mapsto> ascii ''v''])"
    by (rule export_stands_for [OF env_worksD(1) [OF env] r(3) 1])
  then have v2: "vault_ok s3 v2" "unlocked_by X ?pw s3 v2" by (simp_all add: stands_for_def)
  have few: "length (files (index v2)) \<le> 1" using r(5) eff(2) by simp
  obtain e2 v3 s4 where 2: "export X v2 s3 = (Inr e2, v3, s4)"
    by (rule export_works [OF env v2(1) _ export_size_small [OF env v2(1)]])
      (use eff(6) r(6) few in auto)
  obtain hj n c where f1: "e1 = headed_file hj (n @ c)" "length n = XCHACHA20_NONCE_LEN"
    "current_header X (header v1) hj" "nonce (index v2) = n" "test_machine X s3"
    by (rule small_export [OF r(4) v1 r(5) 1])
  obtain hj' n' c' where f2: "e2 = headed_file hj' (n' @ c')" "length n' = XCHACHA20_NONCE_LEN"
    "current_header X (header v2) hj'" "nonce (index v3) = n'" "length e2 + MAX_HEADER_JSON_LEN \<le> MAX_VAULT_FILE_SIZE"
    by (rule small_export [OF f1(5) v2 few 2])
  have hj: "hj' = hj" using f1(3) f2(3) by (simp add: current_header_def eff(1))
  have len: "length hj \<le> MAX_HEADER_JSON_LEN" using f1(3) by (simp add: current_header_def)
  have copy: "copy_into (4 + length hj) n (headed_file hj (n' @ c')) = headed_file hj (n @ c')"
    using f1(2) f2(2) by (simp add: copy_into_def)
  have "rejected_as_password (open_vault X ?pw (headed_file hj (n @ c')) s4) \<longleftrightarrow>
      \<not> index_opens X ?pw (headed_file hj (n @ c'))"
    by (rule rejected_iff [OF env f2(3) [unfolded hj]])
      (use f1(2) f2(1,2,5) hj in \<open>simp_all add: test_lengths\<close>)
  then have "open_rejects_replaying_old_nonce_into_new_export X s \<longleftrightarrow> n' \<noteq> n \<and>
      \<not> index_opens X ?pw (copy_into (4 + header_len_of e2) n e2)"
    using copy len f1(2) f2(2)
    by (simp add: open_rejects_replaying_old_nonce_into_new_export_def Let_def r(1,2) 1 2 f1(1) f2(1) hj)
  with that [OF r(1,2) 1 2] f1(4) f2(4) show thesis by blast
qed

section \<open>Tests on a password change\<close>

lemma heap_from_regions: "secret_bytes s = secret_bytes t \<Longrightarrow> heap s = heap t"
proof
  fix p
  assume "secret_bytes s = secret_bytes t"
  from fun_cong [OF this, of "LockedSecret (LockedRegion p)"] show "heap s p = heap t p"
    by (simp add: secret_bytes_def)
qed

lemma wrong_current_test:
  assumes "test_machine X s"
  obtains v s1 v1 s2 ek where "create X (ascii ''real-pwd!'') s = (Inr v, s1)"
    "store X v s1 (ascii ''key'') (ascii ''value'') = (Inr (), v1, s2)"
    "secret_bytes s2 (enc_key (index v1)) = Some ek"
    "change_password_wrong_current_fails_without_side_effects X s \<longleftrightarrow>
       (\<forall>hk. password_keys X (ascii ''wrong!!!'') (header v1) \<noteq> Inr (ek, hk))"
proof -
  let ?pw = "ascii ''real-pwd!''" and ?bad = "ascii ''wrong!!!''" and ?n = "ascii ''key''"
  have env: "env_works X" using assms by (simp add: test_machine_def)
  obtain v s1 v1 s2 where r: "create X ?pw s = (Inr v, s1)"
    "store X v s1 ?n (ascii ''value'') = (Inr (), v1, s2)"
    "stands_for X {?n} (s2, v1, ?pw) (?pw, [?n \<mapsto> ascii ''value''])"
    "test_machine X s2" "length (files (index v1)) \<le> 1" "nonce_counter (index v1) = 0"
    by (rule one_entry [OF assms, of ?pw ?n "ascii ''value''"]) (simp_all add: test_lengths)
  have v1: "vault_ok s2 v1" "unlocked_by X ?pw s2 v1" "retrieve X v1 s2 ?n = Inr (Some (ascii ''value''))"
    using r(3) by (simp_all add: stands_for_def)
  obtain ek hk where live: "keys_live s2 (index v1) ek hk" using v1(1) by (auto simp: vault_ok_def)
  have h: "header_in_policy (header v1)" "version (header v1) = VAULT_VERSION"
    "length (kdf_salt (header v1)) = SALT_LEN" using v1(1) by (simp_all add: vault_ok_def)
  obtain a b where keys: "password_keys X ?bad (header v1) = Inr (a, b)"
    by (rule password_keys_works [OF env h, of ?bad]) simp_all
  have enc: "secret_bytes s2 (enc_key (index v1)) = Some ek" using live by (simp add: keys_live_def)
  have cmp: "secure_cmp X ek a \<longleftrightarrow> a = ek"
    using env_worksD(8) [OF env] by (auto simp: hash_laws_def)
  have size: "export_size X v1 \<le> MAX_VAULT_FILE_SIZE"
    by (rule export_size_small [OF env v1(1)]) (use r(5) in simp)
  obtain out v2 s3 u t where e: "export X v1 s2 = (Inr out, v2, s3)" "open_vault X ?pw out s3 = (Inr u, t)"
    by (rule exported [OF r(4,3) _ size]) (simp_all add: r(6))
  have "change_password_wrong_current_fails_without_side_effects X s \<longleftrightarrow> a \<noteq> ek"
  proof (cases "a = ek")
    case False
    then have "change_password X v1 s2 ?bad (ascii ''new-pwd!'') = (Inl InvalidPassword, v1, s2)"
      by (simp add: change_password_invalid_iff keys enc cmp test_lengths)
    with False v1(3) e show ?thesis
      by (simp add: change_password_wrong_current_fails_without_side_effects_def r(1,2) is_err_def)
  next
    case True
    then have "change_password X v1 s2 ?bad (ascii ''new-pwd!'') \<noteq> (Inl InvalidPassword, w, t)" for w t
      using cmp by (simp add: change_password_invalid_iff keys enc)
    then show ?thesis
      using True by (auto simp: change_password_wrong_current_fails_without_side_effects_def r(1,2)
          Let_def split: prod.splits sum.splits vault_error.splits)
  qed
  with that [OF r(1,2) enc] keys show thesis by simp
qed

text \<open>A vault that stands for one name has one entry at most.\<close>

lemma one_name_one_entry:
  assumes "stands_for X {n} (s, v, pw) x"
  shows "length (files (index v)) \<le> 1"
proof (cases x)
  case (Pair pw' m)
  with assms obtain ek hk where ok: "vault_ok s v" and sealed: "sealed_for X ek hk {n} (files (index v))"
    by (auto simp: stands_for_def)
  have "distinct (map fst (files (index v)))"
    using ok by (simp add: vault_ok_def index_ok_def files_ok_def)
  then have "length (files (index v)) = card (fst ` set (files (index v)))"
    by (metis distinct_card length_map set_map)
  also have "\<dots> \<le> card {projr (name_key X hk n)}"
    using sealed by (intro card_mono) (auto simp: sealed_for_def)
  finally show ?thesis by simp
qed

lemma moves_keys_finite:
  assumes "moves_keys s idx idx' ek hk s'" "finite (dom (heap s))"
  shows "finite (dom (heap s'))"
proof -
  have dom: "dom (heap t) = secret_addr ` dom (secret_bytes t)" for t :: "'a sys"
  proof (intro equalityI subsetI)
    fix p assume "p \<in> dom (heap t)"
    then have "LockedSecret (LockedRegion p) \<in> dom (secret_bytes t)" by (auto simp: secret_bytes_def)
    then show "p \<in> secret_addr ` dom (secret_bytes t)" by force
  qed (auto simp: secret_bytes_def)
  have inj: "inj_on secret_addr A" for A by (auto simp: inj_on_def secret_addr_inject)
  from assms(2) have "finite (dom (secret_bytes s))" unfolding dom by (rule finite_imageD) (rule inj)
  then show ?thesis using assms(1) unfolding dom by (simp add: moves_keys_def)
qed

lemma password_changed:
  assumes "test_machine X s" "stands_for X {n} (s, v, pw) (pw, m)" "utf8_valid n"
    and "MIN_PASSWORD_LEN \<le> length new" "length new < 2 ^ 32"
  obtains v1 s1 where "change_password X v s pw new = (Inr (), v1, s1)" "test_machine X s1"
    "stands_for X {n} (s1, v1, new) (new, m)" "nonce_counter (index v1) = 0"
proof -
  have env: "env_works X" and fin: "finite (dom (heap s))" and mem: "mem_ok s"
    using assms(1) by (simp_all add: test_machine_def)
  note X = env_worksD(1) [OF env]
  show thesis
    using assms(2)
  proof (rule stands_forD)
    fix ek hk
    assume c: "vault_ok s v" "keys_live s (index v) ek hk"
      "password_keys X pw (header v) = Inr (ek, hk)" "sealed_for X ek hk {n} (files (index v))"
    have "sealed_for X ek hk strings (files (index v))"
      using c(4) assms(3) by (auto simp: sealed_for_def)
    from change_password_works_iff [OF env c(1,2) this assms(5) fin, of pw] c(3) assms(4)
    obtain v1 s1 where ch: "change_password X v s pw new = (Inr (), v1, s1)" by blast
    obtain ek' hk' where k: "moves_keys s (index v) (index v1) ek' hk' s1"
      "nonce_counter (index v1) = 0"
      by (rule rekey_ok [OF X mem c(2) change_password_ok(3) [OF ch]])
    have "test_machine X s1"
      using env k(1) moves_keys_finite [OF k(1) fin] by (simp add: test_machine_def moves_keys_def)
    moreover have "stands_for X {n} (s1, v1, new) (new, m)"
      using stands_for_change [OF X assms(2) single_apart [OF env] ch single_apart [OF env]] by simp
    ultimately show thesis using ch k(2) by (intro that)
  qed
qed

lemma change_then_retrieve_test:
  assumes "test_machine X s"
  obtains v s1 v1 s2 v2 s3 exported v3 s4 where
    "create X (ascii ''old-password'') s = (Inr v, s1)"
    "store X v s1 (ascii ''key'') (ascii ''preserved-value'') = (Inr (), v1, s2)"
    "change_password X v1 s2 (ascii ''old-password'') (ascii ''new-password'') = (Inr (), v2, s3)"
    "export X v2 s3 = (Inr exported, v3, s4)"
    "index_opens X (ascii ''old-password'') exported \<or> change_password_then_retrieve_by_name X s"
proof -
  let ?old = "ascii ''old-password''" and ?new = "ascii ''new-password''" and ?n = "ascii ''key''"
    and ?p = "ascii ''preserved-value''"
  have env: "env_works X" using assms by (simp add: test_machine_def)
  obtain v s1 v1 s2 where r: "create X ?old s = (Inr v, s1)"
    "store X v s1 ?n ?p = (Inr (), v1, s2)"
    "stands_for X {?n} (s2, v1, ?old) (?old, [?n \<mapsto> ?p])" "test_machine X s2"
    by (rule one_entry [OF assms, of ?old ?n ?p]) (simp_all add: test_lengths)
  have utf: "utf8_valid ?n" by (simp add: ascii_def)
  obtain v2 s3 where c: "change_password X v1 s2 ?old ?new = (Inr (), v2, s3)"
    "test_machine X s3" "stands_for X {?n} (s3, v2, ?new) (?new, [?n \<mapsto> ?p])"
    "nonce_counter (index v2) = 0"
    by (rule password_changed [OF r(4,3) utf, of ?new]) (simp_all add: test_lengths)
  have v2: "vault_ok s3 v2" "unlocked_by X ?new s3 v2" "retrieve X v2 s3 ?n = Inr (Some ?p)"
    using c(3) by (simp_all add: stands_for_def)
  obtain out v3 s4 where e: "export X v2 s3 = (Inr out, v3, s4)"
    by (rule export_works [OF env v2(1) _ export_size_small [OF env v2(1)]])
      (use c(4) one_name_one_entry [OF c(3)] in auto)
  have s4: "mem_ok s4" "finite (dom (heap s4))"
    using export_effect(7) [OF e] c(2) by (auto simp: test_machine_def)
  have "change_password_then_retrieve_by_name X s" if no: "\<not> index_opens X ?old out"
  proof -
    obtain d s5 where o: "open_vault X ?old out s4 = (Inl d, s5)"
      using opens_or_fails [of X ?old out s4] no
      by (cases "open_vault X ?old out s4") (auto simp: is_err_def isl_def)
    have s5: "mem_ok s5" "heap s5 = heap s4"
      using open_vault_err [OF env_worksD(1) [OF env] s4(1) o] heap_from_regions by auto
    then have "finite (dom (heap s5))" using s4(2) by simp
    from reopen_works [OF env v2(1,2) e this] obtain w s6
      where "open_vault X ?new out s5 = (Inr w, s6)" by blast
    with export_reopens [OF env_worksD(1) [OF env] v2(1,2) e s5(1)] v2(3) show ?thesis
      by (simp add: change_password_then_retrieve_by_name_def r(1,2) c(1) e o)
  qed
  with that [OF r(1,2) c(1) e] show thesis by blast
qed

end
