(* ===== verification/JsonTests.thy ===== *)
theory JsonTests
  imports AuthTests
begin

text \<open>
  The unit tests of the facade (\<open>mod tests\<close> of \<open>src/vault/facade.rs\<close>) that edit the JSON of the
  header as a \<open>serde_json::Value\<close>. The values are a type parameter \<open>'j\<close> with their operations in
  a record \<open>J\<close>; what the tests rely on is the predicate \<open>json_value_laws\<close>.
\<close>

section \<open>JSON values\<close>

record 'j json_values =
  parse_value :: "bytes \<Rightarrow> string + 'j"                  \<comment> \<open>\<open>serde_json::from_slice::<Value>\<close>\<close>
  write_value :: "'j \<Rightarrow> string + bytes"                  \<comment> \<open>\<open>serde_json::to_vec\<close>\<close>
  write_pretty :: "'j \<Rightarrow> string + bytes"                 \<comment> \<open>\<open>serde_json::to_vec_pretty\<close>\<close>
  value_header :: "'j \<Rightarrow> string + vault_header"          \<comment> \<open>\<open>serde_json::from_value\<close>\<close>
  as_object :: "'j \<Rightarrow> (string \<rightharpoonup> 'j) option"           \<comment> \<open>\<open>as_object_mut\<close>\<close>
  of_object :: "(string \<rightharpoonup> 'j) \<Rightarrow> 'j"                  \<comment> \<open>\<open>Value::Object\<close>\<close>
  of_number :: "nat \<Rightarrow> 'j"                               \<comment> \<open>\<open>Value::Number\<close>\<close>
  as_number :: "'j \<Rightarrow> nat option"                        \<comment> \<open>\<open>as_u64\<close>\<close>
  of_text :: "string \<Rightarrow> 'j"                              \<comment> \<open>\<open>Value::String\<close>\<close>
  of_array :: "'j list \<Rightarrow> 'j"                            \<comment> \<open>\<open>Value::Array\<close>\<close>
  as_array :: "'j \<Rightarrow> 'j list option"                     \<comment> \<open>\<open>as_array_mut\<close>\<close>

text \<open>An \<open>unwrap\<close> of an \<open>Option\<close>.\<close>

definition unwrap_some :: "'a option \<Rightarrow> ('a \<Rightarrow> bool) \<Rightarrow> bool" where
  "unwrap_some r k = (case r of None \<Rightarrow> False | Some x \<Rightarrow> k x)"

lemma unwrap_some_simps [simp]: "unwrap_some (Some x) k = k x" "unwrap_some None k = False"
  by (simp_all add: unwrap_some_def)

text \<open>\<open>v.as_object_mut().unwrap().insert(k, x)\<close> and \<open>remove(k)\<close>\<close>

definition insert_field :: "'j json_values \<Rightarrow> string \<Rightarrow> 'j \<Rightarrow> 'j \<Rightarrow> ('j \<Rightarrow> bool) \<Rightarrow> bool" where
  "insert_field J k x v cont = unwrap_some (as_object J v) (\<lambda>m. cont (of_object J (m(k \<mapsto> x))))"

definition remove_field :: "'j json_values \<Rightarrow> string \<Rightarrow> 'j \<Rightarrow> ('j \<Rightarrow> bool) \<Rightarrow> bool" where
  "remove_field J k v cont = unwrap_some (as_object J v) (\<lambda>m. cont (of_object J (m(k := None))))"

section \<open>The tests\<close>

definition extract_header_value :: "'j json_values \<Rightarrow> bytes \<Rightarrow> ('j \<Rightarrow> bool) \<Rightarrow> bool" where
  "extract_header_value J exported k =
     (let header_len = header_len_of exported
      in unwrap (parse_value J (take header_len (drop 4 exported))) k)"

definition canonical_header_json ::
  "'w externals \<Rightarrow> 'j json_values \<Rightarrow> 'j \<Rightarrow> (bytes \<Rightarrow> bool) \<Rightarrow> bool" where
  "canonical_header_json X J v k =
     unwrap (value_header J v) (\<lambda>header. unwrap (to_aad_bytes X header) k)"

definition open_rejects_header_missing_required_field ::
  "'w externals \<Rightarrow> 'j json_values \<Rightarrow> 'w sys \<Rightarrow> bool" where
  "open_rejects_header_missing_required_field X J s \<longleftrightarrow>
     unwrap_with (make_valid_export X (ascii ''password-eeee'') s) (\<lambda>valid s1.
     extract_header_value J valid (\<lambda>v.
     remove_field J ''version'' v (\<lambda>v1.
     unwrap (write_value J v1) (\<lambda>new_json.
     rejected_as_corrupted (open_vault X (ascii ''password-eeee'')
       (replace_header_json valid new_json) s1)))))"

definition open_rejects_header_with_unsupported_version ::
  "'w externals \<Rightarrow> 'j json_values \<Rightarrow> 'w sys \<Rightarrow> bool" where
  "open_rejects_header_with_unsupported_version X J s \<longleftrightarrow>
     unwrap_with (make_valid_export X (ascii ''password-ffff'') s) (\<lambda>valid s1.
     extract_header_value J valid (\<lambda>v.
     insert_field J ''version'' (of_number J 999) v (\<lambda>v1.
     unwrap (write_value J v1) (\<lambda>new_json.
     rejected_as_corrupted (open_vault X (ascii ''password-ffff'')
       (replace_header_json valid new_json) s1)))))"

definition open_rejects_version_downgrade_in_header ::
  "'w externals \<Rightarrow> 'j json_values \<Rightarrow> 'w sys \<Rightarrow> bool" where
  "open_rejects_version_downgrade_in_header X J s \<longleftrightarrow>
     unwrap_with (make_valid_export X (ascii ''password-downgrade'') s) (\<lambda>valid s1.
     extract_header_value J valid (\<lambda>v.
     insert_field J ''version'' (of_number J (unat LEGACY_VAULT_VERSION_1)) v (\<lambda>v1.
     canonical_header_json X J v1 (\<lambda>new_json.
     rejected_as_password (open_vault X (ascii ''password-downgrade'')
       (replace_header_json valid new_json) s1)))))"

definition open_rejects_header_with_out_of_range_kdf_memory ::
  "'w externals \<Rightarrow> 'j json_values \<Rightarrow> 'w sys \<Rightarrow> bool" where
  "open_rejects_header_with_out_of_range_kdf_memory X J s \<longleftrightarrow>
     unwrap_with (make_valid_export X (ascii ''password-gggg'') s) (\<lambda>valid s1.
     extract_header_value J valid (\<lambda>v.
     insert_field J ''kdf_memory_cost'' (of_number J (unat (MAX_KDF_MEMORY + 1))) v (\<lambda>v1.
     unwrap (write_value J v1) (\<lambda>new_json.
     rejected_as_corrupted (open_vault X (ascii ''password-gggg'')
       (replace_header_json valid new_json) s1)))))"

definition open_rejects_header_with_out_of_range_kdf_iterations ::
  "'w externals \<Rightarrow> 'j json_values \<Rightarrow> 'w sys \<Rightarrow> bool" where
  "open_rejects_header_with_out_of_range_kdf_iterations X J s \<longleftrightarrow>
     unwrap_with (make_valid_export X (ascii ''password-iiii'') s) (\<lambda>valid s1.
     extract_header_value J valid (\<lambda>v.
     insert_field J ''kdf_iterations'' (of_number J (unat (MAX_KDF_ITERATIONS + 1))) v (\<lambda>v1.
     unwrap (write_value J v1) (\<lambda>new_json.
     rejected_as_corrupted (open_vault X (ascii ''password-iiii'')
       (replace_header_json valid new_json) s1)))))"

text \<open>\<open>salt\<close> borrows from the object; writing the array back is the assignment through it.\<close>

definition open_rejects_header_with_modified_salt ::
  "'w externals \<Rightarrow> 'j json_values \<Rightarrow> 'w sys \<Rightarrow> bool" where
  "open_rejects_header_with_modified_salt X J s \<longleftrightarrow>
     unwrap_with (make_valid_export X (ascii ''password-hhhh'') s) (\<lambda>valid s1.
     extract_header_value J valid (\<lambda>v.
     unwrap_some (as_object J v) (\<lambda>m.
     unwrap_some (m ''kdf_salt'') (\<lambda>salt_value.
     unwrap_some (as_array J salt_value) (\<lambda>salt.
     salt \<noteq> [] \<and>
     unwrap_some (as_number J (salt ! 0)) (\<lambda>first.
     insert_field J ''kdf_salt'' (of_array J (salt[0 := of_number J (first XOR 0xFF AND 0xFF)])) v (\<lambda>v1.
     canonical_header_json X J v1 (\<lambda>new_json.
     rejected_as_password (open_vault X (ascii ''password-hhhh'')
       (replace_header_json valid new_json) s1)))))))))"

definition open_rejects_header_with_unknown_field ::
  "'w externals \<Rightarrow> 'j json_values \<Rightarrow> 'w sys \<Rightarrow> bool" where
  "open_rejects_header_with_unknown_field X J s \<longleftrightarrow>
     unwrap_with (make_valid_export X (ascii ''password-ffff'') s) (\<lambda>valid s1.
     extract_header_value J valid (\<lambda>v.
     insert_field J ''injected'' (of_text J ''unauthenticated'') v (\<lambda>v1.
     unwrap (write_value J v1) (\<lambda>new_json.
     rejected_as_corrupted (open_vault X (ascii ''password-ffff'')
       (replace_header_json valid new_json) s1)))))"

definition open_rejects_non_canonical_header_json ::
  "'w externals \<Rightarrow> 'j json_values \<Rightarrow> 'w sys \<Rightarrow> bool" where
  "open_rejects_non_canonical_header_json X J s \<longleftrightarrow>
     unwrap_with (make_valid_export X (ascii ''password-gggg'') s) (\<lambda>valid s1.
     let header_len = header_len_of valid in
     extract_header_value J valid (\<lambda>v.
     unwrap (write_pretty J v) (\<lambda>pretty.
     pretty \<noteq> take header_len (drop 4 valid) \<and>
     unwrap (parse_value J pretty) (\<lambda>again. again = v \<and>
     rejected_as_corrupted (open_vault X (ascii ''password-gggg'')
       (replace_header_json valid pretty) s1)))))"

section \<open>What they assume of \<open>serde_json\<close>\<close>

text \<open>
  A struct is an object with its fields; arrays and unsigned numbers are read back; an object of
  numbers, texts and arrays of numbers can be written, in either form, and reads back, as a value
  and as a header; a value is a header when it has
  exactly the five fields of \<open>VaultHeader\<close> (there are no defaults, and \<open>deny_unknown_fields\<close>);
  the pretty form has white space and so is never the compact one.
\<close>

definition header_fields :: "'j json_values \<Rightarrow> vault_header \<Rightarrow> (string \<rightharpoonup> 'j)" where
  "header_fields J h =
     [''version'' \<mapsto> of_number J (unat (version h)),
      ''kdf_salt'' \<mapsto> of_array J (map (\<lambda>b. of_number J (unat b)) (kdf_salt h)),
      ''kdf_iterations'' \<mapsto> of_number J (unat (kdf_iterations h)),
      ''kdf_memory_cost'' \<mapsto> of_number J (unat (kdf_memory_cost h)),
      ''key_length'' \<mapsto> of_number J (unat (key_length h))]"

definition field_names :: "string set" where
  "field_names = {''version'', ''kdf_salt'', ''kdf_iterations'', ''kdf_memory_cost'', ''key_length''}"

definition flat_object :: "'j json_values \<Rightarrow> 'j \<Rightarrow> bool" where
  "flat_object J v \<longleftrightarrow>
     (\<exists>m. finite (dom m) \<and> v = of_object J m \<and> (\<forall>k x. m k = Some x \<longrightarrow>
        (\<exists>n < 2 ^ 64. x = of_number J n) \<or> (\<exists>t. x = of_text J t) \<or>
        (\<exists>ns. (\<forall>n \<in> set ns. n < 2 ^ 64) \<and> x = of_array J (map (of_number J) ns))))"

definition json_value_laws :: "'w externals \<Rightarrow> 'j json_values \<Rightarrow> bool" where
  "json_value_laws X J \<longleftrightarrow>
     (\<forall>h b. header_to_json X h = Inr b \<longrightarrow>
        parse_value J b = Inr (of_object J (header_fields J h)) \<and> (\<forall>v. write_pretty J v \<noteq> Inr b)) \<and>
     (\<forall>m. finite (dom m) \<longrightarrow> as_object J (of_object J m) = Some m) \<and>
     (\<forall>a. as_array J (of_array J a) = Some a) \<and>
     (\<forall>n < 2 ^ 64. as_number J (of_number J n) = Some n) \<and>
     (\<forall>v. flat_object J v \<longrightarrow> (\<exists>b. write_value J v = Inr b) \<and> (\<exists>b. write_pretty J v = Inr b)) \<and>
     (\<forall>v b. flat_object J v \<longrightarrow> write_value J v = Inr b \<or> write_pretty J v = Inr b \<longrightarrow>
        parse_value J b = Inr v \<and> (\<forall>h. header_from_json X b = Inr h \<longleftrightarrow> value_header J v = Inr h)) \<and>
     (\<forall>h. length (kdf_salt h) = SALT_LEN \<longrightarrow>
        value_header J (of_object J (header_fields J h)) = Inr h) \<and>
     (\<forall>m. finite (dom m) \<longrightarrow> dom m \<noteq> field_names \<longrightarrow> isl (value_header J (of_object J m)))"

lemma json_value_lawsD:
  assumes "json_value_laws X J"
  shows "header_to_json X h = Inr b \<Longrightarrow> parse_value J b = Inr (of_object J (header_fields J h))"
    "header_to_json X h = Inr b \<Longrightarrow> write_pretty J v \<noteq> Inr b"
    "finite (dom m) \<Longrightarrow> as_object J (of_object J m) = Some m"
    "as_array J (of_array J a) = Some a"
    "n < 2 ^ 64 \<Longrightarrow> as_number J (of_number J n) = Some n"
    "flat_object J v \<Longrightarrow> \<exists>b. write_value J v = Inr b"
    "flat_object J v \<Longrightarrow> \<exists>b. write_pretty J v = Inr b"
    "flat_object J v \<Longrightarrow> write_value J v = Inr b \<or> write_pretty J v = Inr b \<Longrightarrow>
      parse_value J b = Inr v \<and> (\<forall>h. header_from_json X b = Inr h \<longleftrightarrow> value_header J v = Inr h)"
    "length (kdf_salt h) = SALT_LEN \<Longrightarrow> value_header J (of_object J (header_fields J h)) = Inr h"
    "finite (dom m) \<Longrightarrow> dom m \<noteq> field_names \<Longrightarrow> isl (value_header J (of_object J m))"
proof -
  note laws = assms [unfolded json_value_laws_def]
  note header = laws [THEN conjunct1] and rest = laws [THEN conjunct2]
  note object = rest [THEN conjunct1] and rest = rest [THEN conjunct2]
  note arr = rest [THEN conjunct1] and rest = rest [THEN conjunct2]
  note num = rest [THEN conjunct1] and rest = rest [THEN conjunct2]
  note wr = rest [THEN conjunct1] and rest = rest [THEN conjunct2]
  note rd = rest [THEN conjunct1] and rest = rest [THEN conjunct2]
  show "header_to_json X h = Inr b \<Longrightarrow> parse_value J b = Inr (of_object J (header_fields J h))"
    "header_to_json X h = Inr b \<Longrightarrow> write_pretty J v \<noteq> Inr b"
    using header by blast+
  show "finite (dom m) \<Longrightarrow> as_object J (of_object J m) = Some m" using object by blast
  show "as_array J (of_array J a) = Some a" using arr by blast
  show "n < 2 ^ 64 \<Longrightarrow> as_number J (of_number J n) = Some n" using num by blast
  show "flat_object J v \<Longrightarrow> \<exists>b. write_value J v = Inr b"
    "flat_object J v \<Longrightarrow> \<exists>b. write_pretty J v = Inr b" using wr by blast+
  show "flat_object J v \<Longrightarrow> write_value J v = Inr b \<or> write_pretty J v = Inr b \<Longrightarrow>
      parse_value J b = Inr v \<and> (\<forall>h. header_from_json X b = Inr h \<longleftrightarrow> value_header J v = Inr h)"
    using rd by blast
  show "length (kdf_salt h) = SALT_LEN \<Longrightarrow> value_header J (of_object J (header_fields J h)) = Inr h"
    "finite (dom m) \<Longrightarrow> dom m \<noteq> field_names \<Longrightarrow> isl (value_header J (of_object J m))"
    using rest by blast+
qed

lemma dom_header_fields: "dom (header_fields J h) = field_names"
  by (auto simp: header_fields_def field_names_def)

lemma finite_header_fields [simp]: "finite (dom (header_fields J h))"
  by (simp add: dom_header_fields field_names_def)

section \<open>Edited headers\<close>

lemma fields_update:
  "(header_fields J h)(''version'' \<mapsto> of_number J (unat x)) = header_fields J (h\<lparr>version := x\<rparr>)"
  "(header_fields J h)(''kdf_memory_cost'' \<mapsto> of_number J (unat y)) =
     header_fields J (h\<lparr>kdf_memory_cost := y\<rparr>)"
  "(header_fields J h)(''kdf_iterations'' \<mapsto> of_number J (unat y)) =
     header_fields J (h\<lparr>kdf_iterations := y\<rparr>)"
  "(header_fields J h)(''kdf_salt'' \<mapsto> of_array J (map (\<lambda>b. of_number J (unat b)) salt)) =
     header_fields J (h\<lparr>kdf_salt := salt\<rparr>)"
  by (auto simp: header_fields_def fun_eq_iff)

lemma flat_edits:
  "flat_object J (of_object J (header_fields J h))"
  "flat_object J (of_object J ((header_fields J h)(k := None)))"
  "flat_object J (of_object J ((header_fields J h)(k \<mapsto> of_text J t)))"
proof -
  have small: "unat (version h) < 2 ^ 64" "unat (kdf_iterations h) < 2 ^ 64"
    "unat (kdf_memory_cost h) < 2 ^ 64" "unat (key_length h) < 2 ^ 64" "\<And>b :: byte. unat b < 2 ^ 64"
    by (rule less_le_trans [OF unsigned_less], simp)+
  have field: "(\<exists>n < 2 ^ 64. x = of_number J n) \<or> (\<exists>t. x = of_text J t) \<or>
      (\<exists>ns. (\<forall>n \<in> set ns. n < 2 ^ 64) \<and> x = of_array J (map (of_number J) ns))"
    if f: "header_fields J h i = Some x" for i x
  proof -
    consider "x \<in> of_number J ` {unat (version h), unat (kdf_iterations h), unat (kdf_memory_cost h),
        unat (key_length h)}" | "x = of_array J (map (of_number J) (map unat (kdf_salt h)))"
      using f by (auto simp: header_fields_def o_def split: if_splits)
    then show ?thesis
    proof cases
      case 1
      then show ?thesis using small by blast
    next
      case 2
      moreover have "\<forall>n \<in> set (map unat (kdf_salt h)). n < 2 ^ 64"
        using small(5) by simp
      ultimately show ?thesis by blast
    qed
  qed
  have flat: "flat_object J (of_object J m)"
    if "finite (dom m)" "\<And>i x. m i = Some x \<Longrightarrow> header_fields J h i = Some x \<or> (\<exists>t. x = of_text J t)" for m
    unfolding flat_object_def using that field by (intro exI [of _ m]) blast
  show "flat_object J (of_object J (header_fields J h))"
    "flat_object J (of_object J ((header_fields J h)(k := None)))"
    "flat_object J (of_object J ((header_fields J h)(k \<mapsto> of_text J t)))"
    by (rule flat; auto split: if_splits)+
qed

text \<open>A file whose header is not the text of an admissible header is corrupted, however long.\<close>

lemma bad_header_rejected:
  assumes "json_laws X"
    and "\<And>h. header_from_json X b = Inr h \<Longrightarrow> header_to_json X h = Inr b \<Longrightarrow> \<not> header_in_policy h"
  shows "rejected_as_corrupted (open_vault X pw (headed_file b r) t)"
proof (rule rejects_unparsable [OF assms(1)], rule ccontr)
  assume "\<not> isl (parse_envelope X (headed_file b r))"
  then obtain env where "parse_envelope X (headed_file b r) = Inr env"
    by (cases "parse_envelope X (headed_file b r)") auto
  then show False
  proof (rule parse_envelope_inv)
    fix hj gap
    assume e: "header_to_json X (env_header env) = Inr hj" "header_from_json X hj = Inr (env_header env)"
      "header_in_policy (env_header env)" "length hj \<le> MAX_HEADER_JSON_LEN"
      "length (headed_file b r) \<le> MAX_VAULT_FILE_SIZE"
      "headed_file b r = u32_to_le (of_nat (length hj)) @ hj @ env_nonce env @ gap @ env_encrypted_index env"
    have "length b < 2 ^ 32" "length hj < 2 ^ 32" using e(4,5) by (simp_all add: const_defs)
    moreover have "u32_to_le (of_nat (length b)) = u32_to_le (of_nat (length hj))"
      "b @ r = hj @ env_nonce env @ gap @ env_encrypted_index env"
      using e(6) by (simp_all add: append_eq_append_conv)
    ultimately have "length b = length hj"
      by (metis le32.enc_inject unat_u32_of_nat)
    with \<open>b @ r = _\<close> have "b = hj" by (simp add: append_eq_append_conv)
    with e(1-3) assms(2) show False by blast
  qed
qed

lemma extract_headed:
  assumes "json_value_laws X J" "current_header X h hj"
  shows "extract_header_value J (headed_file hj r) cont = cont (of_object J (header_fields J h))"
proof -
  have "parse_value J hj = Inr (of_object J (header_fields J h))" "length hj \<le> MAX_HEADER_JSON_LEN"
    using assms(2) json_value_lawsD(1) [OF assms(1), of h hj] by (simp_all add: current_header_def)
  then show ?thesis by (simp add: extract_header_value_def)
qed

lemma replace_headed:
  "length hj \<le> MAX_HEADER_JSON_LEN \<Longrightarrow> replace_header_json (headed_file hj r) b = headed_file b r"
  by (simp add: replace_header_json_def Let_def)

lemma object_of_fields:
  assumes "json_value_laws X J"
  shows "insert_field J k x (of_object J (header_fields J h)) cont =
      cont (of_object J ((header_fields J h)(k \<mapsto> x)))"
    "remove_field J k (of_object J (header_fields J h)) cont =
      cont (of_object J ((header_fields J h)(k := None)))"
    "unwrap_some (as_object J (of_object J (header_fields J h))) cont' = cont' (header_fields J h)"
  by (simp_all add: insert_field_def remove_field_def json_value_lawsD(3) [OF assms])

text \<open>An edit after which the value is not an admissible header.\<close>

lemma edit_rejected:
  assumes "test_machine X s" "json_value_laws X J" "MIN_PASSWORD_LEN \<le> length pw" "length pw < 2 ^ 32"
    and "\<And>h. length (kdf_salt h) = SALT_LEN \<Longrightarrow> flat_object J (v h) \<and>
      (\<forall>h'. value_header J (v h) = Inr h' \<longrightarrow> \<not> header_in_policy h')"
  obtains valid s1 h b where "make_valid_export X pw s = (Inr valid, s1)"
    "\<And>cont. extract_header_value J valid cont = cont (of_object J (header_fields J h))"
    "write_value J (v h) = Inr b" "length (kdf_salt h) = SALT_LEN"
    "rejected_as_corrupted (open_vault X pw (replace_header_json valid b) s1)"
proof -
  have json: "json_laws X" using assms(1) env_worksD(9) by (auto simp: test_machine_def)
  obtain s1 h hj n c where f: "make_valid_export X pw s = (Inr (headed_file hj (n @ c)), s1)"
    "current_header X h hj"
    by (rule valid_file [OF assms(1,3,4)])
  have h: "length (kdf_salt h) = SALT_LEN" "length hj \<le> MAX_HEADER_JSON_LEN"
    using f(2) by (simp_all add: current_header_def)
  note v = assms(5) [OF h(1)]
  obtain b where b: "write_value J (v h) = Inr b"
    using json_value_lawsD(6) [OF assms(2), of "v h"] v by blast
  have "header_from_json X b = Inr h' \<longleftrightarrow> value_header J (v h) = Inr h'" for h'
    using json_value_lawsD(8) [OF assms(2), of "v h" b] v b by blast
  with v have "rejected_as_corrupted (open_vault X pw (headed_file b (n @ c)) s1)"
    by (intro bad_header_rejected [OF json]) blast
  then show thesis
    using b h(1) replace_headed [OF h(2)]
    by (intro that [OF f(1) extract_headed [OF assms(2) f(2)]]) simp_all
qed

lemma header_value_tests:
  assumes "test_machine X s" "json_value_laws X J"
  shows "open_rejects_header_missing_required_field X J s"
    "open_rejects_header_with_unsupported_version X J s"
    "open_rejects_header_with_out_of_range_kdf_memory X J s"
    "open_rejects_header_with_out_of_range_kdf_iterations X J s"
    "open_rejects_header_with_unknown_field X J s"
proof -
  note edit = edit_rejected [OF assms] and object = object_of_fields [OF assms(2)]
  have other: "flat_object J (of_object J m) \<Longrightarrow> finite (dom m) \<Longrightarrow> dom m \<noteq> field_names \<Longrightarrow>
      flat_object J (of_object J m) \<and>
      (\<forall>h'. value_header J (of_object J m) = Inr h' \<longrightarrow> \<not> header_in_policy h')" for m
    using json_value_lawsD(10) [OF assms(2), of m] by auto
  have bad: "flat_object J (of_object J (header_fields J h)) \<and>
      (\<forall>h'. value_header J (of_object J (header_fields J h)) = Inr h' \<longrightarrow> \<not> header_in_policy h')"
    if "length (kdf_salt h) = SALT_LEN" "\<not> header_in_policy h" for h
    using json_value_lawsD(9) [OF assms(2) that(1)] that(2) flat_edits(1) by simp
  have "''version'' \<in> field_names" "''injected'' \<notin> field_names" by (simp_all add: field_names_def)
  then have names: "dom ((header_fields J h)(''version'' := None)) \<noteq> field_names"
    "dom ((header_fields J h)(''injected'' \<mapsto> x)) \<noteq> field_names" for h x
    by (auto simp only: dom_header_fields dom_fun_upd split: option.splits if_splits)
  show "open_rejects_header_missing_required_field X J s"
  proof (rule edit [where pw = "ascii ''password-eeee''" and v = "\<lambda>h. of_object J ((header_fields J h)(''version'' := None))"])
    show "flat_object J (of_object J ((header_fields J h)(''version'' := None))) \<and>
        (\<forall>h'. value_header J (of_object J ((header_fields J h)(''version'' := None))) = Inr h' \<longrightarrow>
           \<not> header_in_policy h')" for h
      by (rule other [OF flat_edits(2) _ names(1)]) simp
  qed (simp_all add: test_lengths open_rejects_header_missing_required_field_def object)
  show "open_rejects_header_with_unknown_field X J s"
  proof (rule edit [where pw = "ascii ''password-ffff''" and v = "\<lambda>h. of_object J ((header_fields J h)
      (''injected'' \<mapsto> of_text J ''unauthenticated''))"])
    show "flat_object J (of_object J ((header_fields J h)(''injected'' \<mapsto> of_text J ''unauthenticated''))) \<and>
        (\<forall>h'. value_header J (of_object J ((header_fields J h)
           (''injected'' \<mapsto> of_text J ''unauthenticated''))) = Inr h' \<longrightarrow> \<not> header_in_policy h')" for h
      by (rule other [OF flat_edits(3) _ names(2)]) simp
  qed (simp_all add: test_lengths open_rejects_header_with_unknown_field_def object)
  have policy: "\<not> header_in_policy (h\<lparr>version := 999\<rparr>)"
    "\<not> header_in_policy (h\<lparr>kdf_memory_cost := MAX_KDF_MEMORY + 1\<rparr>)"
    "\<not> header_in_policy (h\<lparr>kdf_iterations := MAX_KDF_ITERATIONS + 1\<rparr>)" for h
    by (simp_all add: header_in_policy_def VAULT_VERSION_def LEGACY_VAULT_VERSION_1_def
        MAX_KDF_MEMORY_def MAX_KDF_ITERATIONS_def)
  show "open_rejects_header_with_unsupported_version X J s"
  proof (rule edit [where pw = "ascii ''password-ffff''" and v = "\<lambda>h. of_object J (header_fields J (h\<lparr>version := 999\<rparr>))"])
    fix valid s1 h b
    assume "make_valid_export X (ascii ''password-ffff'') s = (Inr valid, s1)"
      "\<And>cont. extract_header_value J valid cont = cont (of_object J (header_fields J h))"
      "write_value J (of_object J (header_fields J (h\<lparr>version := 999\<rparr>))) = Inr b"
      "rejected_as_corrupted (open_vault X (ascii ''password-ffff'') (replace_header_json valid b) s1)"
    then show ?thesis
      using fields_update(1) [of J h 999]
      by (simp add: open_rejects_header_with_unsupported_version_def object)
  next
    fix h :: vault_header
    assume "length (kdf_salt h) = SALT_LEN"
    then show "flat_object J (of_object J (header_fields J (h\<lparr>version := 999\<rparr>))) \<and>
        (\<forall>h'. value_header J (of_object J (header_fields J (h\<lparr>version := 999\<rparr>))) = Inr h' \<longrightarrow>
           \<not> header_in_policy h')"
      by (intro bad policy) simp
  qed (simp_all add: test_lengths)
  show "open_rejects_header_with_out_of_range_kdf_memory X J s"
    by (rule edit [where pw = "ascii ''password-gggg''" and v = "\<lambda>h. of_object J (header_fields J (h\<lparr>kdf_memory_cost := MAX_KDF_MEMORY + 1\<rparr>))"];
        ((intro bad policy)?, simp add: test_lengths object fields_update
          open_rejects_header_with_out_of_range_kdf_memory_def))
  show "open_rejects_header_with_out_of_range_kdf_iterations X J s"
    by (rule edit [where pw = "ascii ''password-iiii''" and v = "\<lambda>h. of_object J (header_fields J (h\<lparr>kdf_iterations := MAX_KDF_ITERATIONS + 1\<rparr>))"];
        ((intro bad policy)?, simp add: test_lengths object fields_update
          open_rejects_header_with_out_of_range_kdf_iterations_def))
qed

lemma pretty_test_passes:
  assumes "test_machine X s" "json_value_laws X J"
  shows "open_rejects_non_canonical_header_json X J s"
proof -
  let ?pw = "ascii ''password-gggg''"
  have json: "json_laws X" using assms(1) env_worksD(9) by (auto simp: test_machine_def)
  obtain s1 h hj n c where f: "make_valid_export X ?pw s = (Inr (headed_file hj (n @ c)), s1)"
    "current_header X h hj"
    by (rule valid_file [OF assms(1), of ?pw]) (simp_all add: test_lengths)
  have h: "length (kdf_salt h) = SALT_LEN" "length hj \<le> MAX_HEADER_JSON_LEN" "header_to_json X h = Inr hj"
    using f(2) by (simp_all add: current_header_def)
  let ?v = "of_object J (header_fields J h)"
  obtain b where b: "write_pretty J ?v = Inr b"
    using json_value_lawsD(7) [OF assms(2) flat_edits(1)] by blast
  have read: "parse_value J b = Inr ?v" "header_from_json X b = Inr h' \<longleftrightarrow> h' = h" for h'
    using json_value_lawsD(8) [OF assms(2) flat_edits(1), of h b] b json_value_lawsD(9) [OF assms(2) h(1)]
    by auto
  have ne: "header_to_json X i \<noteq> Inr b" for i using json_value_lawsD(2) [OF assms(2), of i b ?v] b by blast
  then have "rejected_as_corrupted (open_vault X ?pw (headed_file b (n @ c)) s1)"
    by (intro bad_header_rejected [OF json]) blast
  moreover have "b \<noteq> hj" using ne [of h] h(3) by blast
  ultimately show ?thesis
    using h(2) by (simp add: open_rejects_non_canonical_header_json_def f(1) extract_headed [OF assms(2) f(2)]
        b read(1) replace_headed)
qed

text \<open>For version 1 the master key comes from Argon2i.\<close>

definition argon2i_works :: "'w externals \<Rightarrow> bool" where
  "argon2i_works X \<longleftrightarrow>
     (\<forall>m t pw salt. MIN_KDF_MEMORY \<le> m \<longrightarrow> m \<le> MAX_KDF_MEMORY \<longrightarrow>
        MIN_KDF_ITERATIONS \<le> t \<longrightarrow> t \<le> MAX_KDF_ITERATIONS \<longrightarrow>
        length pw < 2 ^ 32 \<longrightarrow> length salt = SALT_LEN \<longrightarrow>
        (\<exists>k. argon2i_derive X pw salt t m KEY_LEN = Inr k))"

lemma legacy_keys_work:
  assumes "env_works X" "argon2i_works X" "header_in_policy h" "version h = LEGACY_VAULT_VERSION_1"
    and "length (kdf_salt h) = SALT_LEN" "length pw < 2 ^ 32"
  obtains ek hk where "password_keys X pw h = Inr (ek, hk)"
proof -
  obtain k where k: "argon2i_derive X pw (kdf_salt h) (kdf_iterations h) (kdf_memory_cost h) KEY_LEN = Inr k"
    using assms(2,3,5,6) unfolding argon2i_works_def header_in_policy_def by blast
  obtain a b where "derive_subkeys X k (kdf_salt h) = Inr (a, b)"
    by (rule derive_subkeys_works [OF assms(1)])
  then show thesis
    by (intro that [of a b]) (simp add: password_keys_def derive_master_key_def assms(4) k)
qed

lemma downgrade_test:
  assumes "test_machine X s" "json_value_laws X J" "argon2i_works X"
  shows "\<exists>valid s1 h hj. make_valid_export X (ascii ''password-downgrade'') s = (Inr valid, s1) \<and>
    header_from_json X (take (header_len_of valid) (drop 4 valid)) = Inr h \<and>
    to_aad_bytes X (h\<lparr>version := LEGACY_VAULT_VERSION_1\<rparr>) = Inr hj \<and>
    (open_rejects_version_downgrade_in_header X J s \<longleftrightarrow>
       \<not> index_opens X (ascii ''password-downgrade'') (replace_header_json valid hj))"
proof -
  let ?pw = "ascii ''password-downgrade''"
  have env: "env_works X" using assms(1) by (simp add: test_machine_def)
  obtain s1 h hj n c where f: "make_valid_export X ?pw s = (Inr (headed_file hj (n @ c)), s1)"
    "length n = XCHACHA20_NONCE_LEN" "current_header X h hj" "POLY1305_OUTSIZE < length c"
    "length (headed_file hj (n @ c)) + MAX_HEADER_JSON_LEN \<le> MAX_VAULT_FILE_SIZE"
    by (rule valid_file [OF assms(1), of ?pw]) (simp_all add: test_lengths)
  have h: "length (kdf_salt h) = SALT_LEN" "length hj \<le> MAX_HEADER_JSON_LEN"
    "header_in_policy h" "header_from_json X hj = Inr h"
    using f(3) by (simp_all add: current_header_def)
  let ?h = "h\<lparr>version := LEGACY_VAULT_VERSION_1\<rparr>"
  have salt: "length (kdf_salt ?h) = SALT_LEN" using h(1) by simp
  obtain b where b: "to_aad_bytes X ?h = Inr b" "header_to_json X ?h = Inr b"
    "length b \<le> MAX_HEADER_JSON_LEN" "header_from_json X b = Inr ?h"
    by (rule to_aad_bytes_ok [OF env_worksD(9) [OF env] salt])
  have pol: "header_in_policy ?h" using h(3) by (simp add: header_in_policy_def)
  have parse: "parse_envelope X (headed_file b (n @ c)) =
      Inr \<lparr>env_header = ?h, env_nonce = n, env_encrypted_index = drop 8 c\<rparr>"
    using f(2,4,5) b(3)
    by (intro parse_envelope_layout [OF b(2,4) pol b(3) f(2), of "take 8 c"])
      (simp_all add: legacy_gap_def POLY1305_OUTSIZE_def)
  obtain ek hk where "password_keys X ?pw ?h = Inr (ek, hk)"
    by (rule legacy_keys_work [OF env assms(3) pol _ salt, of ?pw]) simp_all
  then have iff: "rejected_as_password (open_vault X ?pw (headed_file b (n @ c)) s1) \<longleftrightarrow>
      \<not> index_opens X ?pw (headed_file b (n @ c))"
    by (intro parsed_rejected_iff [OF parse]) simp
  have "open_rejects_version_downgrade_in_header X J s \<longleftrightarrow>
      rejected_as_password (open_vault X ?pw (headed_file b (n @ c)) s1)"
    by (simp add: open_rejects_version_downgrade_in_header_def f(1) extract_headed [OF assms(2) f(3)]
        object_of_fields [OF assms(2)] fields_update canonical_header_json_def
        json_value_lawsD(9) [OF assms(2)] h(1) b(1) replace_headed [OF h(2)])
  with iff f(1) b(1) h(2,4) show ?thesis by (auto simp: replace_headed [OF h(2)])
qed

lemma modified_salt_test:
  assumes "test_machine X s" "json_value_laws X J"
  shows "\<exists>valid s1 h hj. make_valid_export X (ascii ''password-hhhh'') s = (Inr valid, s1) \<and>
    header_from_json X (take (header_len_of valid) (drop 4 valid)) = Inr h \<and>
    to_aad_bytes X (h\<lparr>kdf_salt := (kdf_salt h)[0 := kdf_salt h ! 0 XOR 0xFF]\<rparr>) = Inr hj \<and>
    (open_rejects_header_with_modified_salt X J s \<longleftrightarrow>
       \<not> index_opens X (ascii ''password-hhhh'') (replace_header_json valid hj))"
proof -
  let ?pw = "ascii ''password-hhhh''"
  have env: "env_works X" using assms(1) by (simp add: test_machine_def)
  obtain s1 h hj n c where f: "make_valid_export X ?pw s = (Inr (headed_file hj (n @ c)), s1)"
    "length n = XCHACHA20_NONCE_LEN" "current_header X h hj"
    "length (headed_file hj (n @ c)) + MAX_HEADER_JSON_LEN \<le> MAX_VAULT_FILE_SIZE"
    by (rule valid_file [OF assms(1), of ?pw]) (simp_all add: test_lengths)
  have h: "length (kdf_salt h) = SALT_LEN" "length hj \<le> MAX_HEADER_JSON_LEN"
    "header_in_policy h" "header_from_json X hj = Inr h" "version h = VAULT_VERSION"
    using f(3) by (simp_all add: current_header_def)
  let ?salt = "(kdf_salt h)[0 := kdf_salt h ! 0 XOR 0xFF]"
  let ?h = "h\<lparr>kdf_salt := ?salt\<rparr>"
  have salt: "length (kdf_salt ?h) = SALT_LEN" using h(1) by simp
  obtain b where b: "to_aad_bytes X ?h = Inr b" "header_to_json X ?h = Inr b"
    "length b \<le> MAX_HEADER_JSON_LEN" "header_from_json X b = Inr ?h"
    by (rule to_aad_bytes_ok [OF env_worksD(9) [OF env] salt])
  have cur: "current_header X ?h b"
    using b salt h(3,5) by (simp add: current_header_def header_in_policy_def)
  have iff: "rejected_as_password (open_vault X ?pw (headed_file b (n @ c)) s1) \<longleftrightarrow>
      \<not> index_opens X ?pw (headed_file b (n @ c))"
    by (rule rejected_iff [OF env cur]) (use f(2,4) b(3) in simp_all)
  have ne: "kdf_salt h \<noteq> []" using h(1) by (auto simp: SALT_LEN_def)
  let ?num = "\<lambda>b. of_number J (unat b)"
  have "unat (kdf_salt h ! 0) < 2 ^ 64" by (rule less_le_trans [OF unsigned_less]) simp
  then have "as_number J (map ?num (kdf_salt h) ! 0) = Some (unat (kdf_salt h ! 0))"
    using ne json_value_lawsD(5) [OF assms(2)] by simp
  moreover have "(map ?num (kdf_salt h))[0 := of_number J (unat (kdf_salt h ! 0) XOR 0xFF AND 0xFF)] =
      map ?num ?salt"
    by (simp add: map_update unsigned_xor_eq)
  moreover have "header_fields J h ''kdf_salt'' = Some (of_array J (map ?num (kdf_salt h)))"
    by (simp add: header_fields_def)
  ultimately have "open_rejects_header_with_modified_salt X J s \<longleftrightarrow>
      rejected_as_password (open_vault X ?pw (headed_file b (n @ c)) s1)"
    using ne
    by (simp add: open_rejects_header_with_modified_salt_def f(1) extract_headed [OF assms(2) f(3)]
        object_of_fields [OF assms(2)] fields_update canonical_header_json_def
        json_value_lawsD(4,9) [OF assms(2)] h(1) b(1) replace_headed [OF h(2)])
  with iff f(1) b(1) h(2,4) show ?thesis by (auto simp: replace_headed [OF h(2)])
qed

end
