(* ===== verification/IndexJsonTests.thy ===== *)
theory IndexJsonTests
  imports JsonTests "HOL-Library.Multiset"
begin

text \<open>
  The unit tests of \<open>decode_index_v1\<close> (\<open>mod tests\<close> of \<open>src/vault/index_codec.rs\<close>) on JSON indexes
  written with \<open>serde_json::json!\<close>, over the values of \<open>JsonTests\<close>.
\<close>

section \<open>JSON indexes\<close>

text \<open>What \<open>json!\<close> needs beside numbers, texts and arrays.\<close>

record 'j json_more = "'j json_values" +
  of_flag :: "bool \<Rightarrow> 'j"    \<comment> \<open>\<open>Value::Bool\<close>\<close>
  null_value :: 'j              \<comment> \<open>\<open>Value::Null\<close>\<close>

definition v1_index_value :: "'j json_more \<Rightarrow> nat \<Rightarrow> nat \<Rightarrow> nat \<Rightarrow> 'j \<Rightarrow> 'j" where
  "v1_index_value J ver nc dc fs =
     of_object J [''version'' \<mapsto> of_number J ver,
       ''nonce'' \<mapsto> of_array J (replicate XCHACHA20_NONCE_LEN (of_number J 0)),
       ''nonce_counter'' \<mapsto> of_number J nc, ''data_nonce_counter'' \<mapsto> of_number J dc,
       ''files'' \<mapsto> fs]"

definition v1_json :: "'j json_more \<Rightarrow> 'j \<Rightarrow> (bytes \<Rightarrow> bool) \<Rightarrow> bool" where
  "v1_json J fs k =
     unwrap (write_value J (v1_index_value J (unat LEGACY_INDEX_VERSION_1) 4 9 fs)) k"

definition v1_meta_value :: "'j json_more \<Rightarrow> bool \<Rightarrow> nat option \<Rightarrow> nat option \<Rightarrow> 'j" where
  "v1_meta_value J dummy name data =
     of_object J [''location'' \<mapsto> of_text J ''Inline'', ''created'' \<mapsto> of_number J 0,
       ''modified'' \<mapsto> of_number J 0, ''is_dummy'' \<mapsto> of_flag J dummy,
       ''encrypted_name'' \<mapsto> (case name of None \<Rightarrow> null_value J
         | Some n \<Rightarrow> of_array J (replicate n (of_number J 1))),
       ''encrypted_data'' \<mapsto> (case data of None \<Rightarrow> null_value J
         | Some n \<Rightarrow> of_array J (replicate n (of_number J 2))),
       ''data_counter'' \<mapsto> of_number J 3]"

text \<open>\<open>s.repeat(n)\<close>\<close>

definition repeat_text :: "nat \<Rightarrow> string \<Rightarrow> string" where
  "repeat_text n s = concat (replicate n s)"

text \<open>\<open>matches!(result, Err(VaultError::CorruptedData(_)))\<close>\<close>

definition corrupted :: "vault_error + 'a \<Rightarrow> bool" where
  "corrupted r \<longleftrightarrow> (case r of Inl e \<Rightarrow> is_corrupted e | Inr x \<Rightarrow> False)"

definition decode_v1_converts_real_entries_and_drops_dummies ::
  "'w externals \<Rightarrow> 'j json_more \<Rightarrow> bool" where
  "decode_v1_converts_real_entries_and_drops_dummies X J \<longleftrightarrow>
     (let key = repeat_text 32 ''ab'';
          fs = of_object J [key \<mapsto> v1_meta_value J False (Some 40) (Some 100),
            repeat_text 32 ''cd'' \<mapsto> v1_meta_value J True None None]
      in v1_json J fs (\<lambda>json. unwrap (decode_index_v1 X json) (\<lambda>decoded.
         idx_nonce_counter decoded = 4 \<and> idx_data_nonce_counter decoded = 9 \<and>
         length (idx_files decoded) = 1 \<and>
         unwrap_some (map_of (idx_files decoded) (ascii key)) (\<lambda>e.
           data_counter e = 3 \<and> length (encrypted_name e) = 40 \<and> length (encrypted_data e) = 100))))"

definition decode_v1_rejects_real_entry_without_ciphertext_or_bad_key ::
  "'w externals \<Rightarrow> 'j json_more \<Rightarrow> bool" where
  "decode_v1_rejects_real_entry_without_ciphertext_or_bad_key X J \<longleftrightarrow>
     (let missing = of_object J [repeat_text 32 ''ab'' \<mapsto> v1_meta_value J False (Some 40) None];
          bad_key = of_object J [''not-hex'' \<mapsto> v1_meta_value J False (Some 40) (Some 40)];
          too_short = of_object J [repeat_text 32 ''ab'' \<mapsto> v1_meta_value J False (Some 39) (Some 40)]
      in v1_json J missing (\<lambda>json. corrupted (decode_index_v1 X json)) \<and>
         v1_json J bad_key (\<lambda>json. corrupted (decode_index_v1 X json)) \<and>
         v1_json J too_short (\<lambda>json. corrupted (decode_index_v1 X json)))"

definition decode_v1_rejects_wrong_version_and_malformed_json ::
  "'w externals \<Rightarrow> 'j json_more \<Rightarrow> bool" where
  "decode_v1_rejects_wrong_version_and_malformed_json X J \<longleftrightarrow>
     unwrap (write_value J (v1_index_value J 2 0 0 (of_object J Map.empty))) (\<lambda>json.
       corrupted (decode_index_v1 X json)) \<and>
     corrupted (decode_index_v1 X (ascii ''{not json''))"

text \<open>
  What the tests rely on: an index object can be written; \<open>serde_json\<close> reads it as the \<open>Index\<close> of
  \<open>decode_index_v1\<close>, with one record for each member of \<open>files\<close>, in any order; and an object that
  breaks off is refused.
\<close>

definition v1_meta_of :: "bool \<times> nat option \<times> nat option \<Rightarrow> v1_meta" where
  "v1_meta_of = (\<lambda>(dummy, name, data). \<lparr>is_dummy = dummy,
     meta_encrypted_data = map_option (\<lambda>n. replicate n 2) data,
     meta_encrypted_name = map_option (\<lambda>n. replicate n 1) name, meta_data_counter = 3\<rparr>)"

definition v1_json_laws :: "'w externals \<Rightarrow> 'j json_more \<Rightarrow> bool" where
  "v1_json_laws X J \<longleftrightarrow>
     (\<forall>ver nc dc fs. ver < 2 ^ 16 \<longrightarrow> nc < 2 ^ 64 \<longrightarrow> dc < 2 ^ 64 \<longrightarrow> distinct (map fst fs) \<longrightarrow>
        list_all (\<lambda>(k, f). list_all (\<lambda>b. b < 0x80) (ascii k)) fs \<longrightarrow>
        (\<exists>json i. write_value J (v1_index_value J ver nc dc (of_object J
             (map_of (map (\<lambda>(k, d, n, p). (k, v1_meta_value J d n p)) fs)))) = Inr json \<and>
           index_v1_from_json X json = Inr i \<and> v1_version i = of_nat ver \<and>
           v1_nonce_counter i = of_nat nc \<and> v1_data_nonce_counter i = of_nat dc \<and>
           mset (v1_files i) = mset (map (\<lambda>(k, f). (ascii k, v1_meta_of f)) fs))) \<and>
     isl (index_v1_from_json X (ascii ''{not json''))"

lemma corrupted_iff: "corrupted (decode_index_v1 X json) \<longleftrightarrow> isl (decode_index_v1 X json)"
  using decode_index_v1_err [of X json] by (cases "decode_index_v1 X json") (simp_all add: corrupted_def)

text \<open>Writing an index object and decoding it.\<close>

lemma v1_written:
  assumes "v1_json_laws X J" "json_laws X" "ver < 2 ^ 16" "nc < 2 ^ 64" "dc < 2 ^ 64"
    and "distinct (map fst fs)" "list_all (\<lambda>(k, f). list_all (\<lambda>b. b < 0x80) (ascii k)) fs"
  obtains json ms where
    "write_value J (v1_index_value J ver nc dc (of_object J
       (map_of (map (\<lambda>(k, d, n, p). (k, v1_meta_value J d n p)) fs)))) = Inr json"
    "mset ms = mset (map (\<lambda>(k, f). (ascii k, v1_meta_of f)) fs)"
    "\<And>d. decode_index_v1 X json = Inr d \<longleftrightarrow> of_nat ver = LEGACY_INDEX_VERSION_1 \<and>
       length fs \<le> MAX_INDEX_ENTRIES \<and> list_all v1_meta_ok ms \<and>
       d = \<lparr>idx_nonce_counter = of_nat nc, idx_data_nonce_counter = of_nat dc, idx_files = v1_entries ms\<rparr>"
proof -
  obtain json i where w: "write_value J (v1_index_value J ver nc dc (of_object J
       (map_of (map (\<lambda>(k, d, n, p). (k, v1_meta_value J d n p)) fs)))) = Inr json"
    "index_v1_from_json X json = Inr i" "v1_version i = of_nat ver"
    "v1_nonce_counter i = of_nat nc" "v1_data_nonce_counter i = of_nat dc"
    "mset (v1_files i) = mset (map (\<lambda>(k, f). (ascii k, v1_meta_of f)) fs)"
    using assms(1,3-7) unfolding v1_json_laws_def by blast
  have "length (v1_files i) = length fs" using arg_cong [OF w(6), of size] by simp
  then show thesis
    by (intro that [OF w(1,6)]) (auto simp: decode_index_v1_iff [OF assms(2)] w(2-5))
qed

lemma v1_written_one:
  assumes "v1_json_laws X J" "json_laws X" "list_all (\<lambda>b. b < 0x80) (ascii k)"
  shows "v1_json J (of_object J [k \<mapsto> v1_meta_value J d n p]) (\<lambda>json. corrupted (decode_index_v1 X json)) \<longleftrightarrow>
    \<not> v1_meta_ok (ascii k, v1_meta_of (d, n, p))"
proof -
  have "unat LEGACY_INDEX_VERSION_1 < 2 ^ 16" by (simp add: const_defs)
  then obtain json ms where w: "write_value J (v1_index_value J (unat LEGACY_INDEX_VERSION_1) 4 9 (of_object J
       (map_of (map (\<lambda>(k, d, n, p). (k, v1_meta_value J d n p)) [(k, d, n, p)])))) = Inr json"
    "mset ms = mset (map (\<lambda>(k, f). (ascii k, v1_meta_of f)) [(k, d, n, p)])"
    "\<And>d'. decode_index_v1 X json = Inr d' \<longleftrightarrow> of_nat (unat LEGACY_INDEX_VERSION_1) = LEGACY_INDEX_VERSION_1 \<and>
       length [(k, d, n, p)] \<le> MAX_INDEX_ENTRIES \<and> list_all v1_meta_ok ms \<and>
       d' = \<lparr>idx_nonce_counter = of_nat 4, idx_data_nonce_counter = of_nat 9, idx_files = v1_entries ms\<rparr>"
    by (rule v1_written [OF assms(1,2), of _ 4 9 "[(k, d, n, p)]"]) (use assms(3) in simp_all)
  have "ms = [(ascii k, v1_meta_of (d, n, p))]" using w(2) by simp
  then have "isl (decode_index_v1 X json) \<longleftrightarrow> \<not> v1_meta_ok (ascii k, v1_meta_of (d, n, p))"
    using w(3) by (cases "decode_index_v1 X json") (auto simp: const_defs)
  with w(1) show ?thesis by (simp add: v1_json_def corrupted_iff)
qed

lemma all_repeated: "list_all P (ascii s) \<Longrightarrow> list_all P (ascii (repeat_text n s))"
  by (induction n) (simp_all add: repeat_text_def ascii_def)

lemma length_repeated: "length (repeat_text n s) = n * length s"
  by (induction n) (simp_all add: repeat_text_def)

lemma ab_key: "is_hex_key (ascii (repeat_text 32 ''ab''))"
  "list_all (\<lambda>b. b < 0x80) (ascii (repeat_text 32 ''ab''))"
  "list_all (\<lambda>b. b < 0x80) (ascii (repeat_text 32 ''cd''))"
  "repeat_text 32 ''ab'' \<noteq> repeat_text 32 ''cd''"
proof -
  have "list_all (\<lambda>c. 48 \<le> c \<and> c \<le> 57 \<or> 97 \<le> c \<and> c \<le> 102) (ascii ''ab'')" by (simp add: ascii_def)
  then show "is_hex_key (ascii (repeat_text 32 ''ab''))"
    unfolding is_hex_key_def by (intro conjI all_repeated) (simp_all add: length_repeated)
  show "list_all (\<lambda>b. b < 0x80) (ascii (repeat_text 32 ''ab''))"
    "list_all (\<lambda>b. b < 0x80) (ascii (repeat_text 32 ''cd''))"
    by (rule all_repeated, simp add: ascii_def)+
  have "hd (repeat_text 32 s) = hd s" if "s \<noteq> []" for s
    using that by (simp add: repeat_text_def numeral_eq_Suc)
  from this [of "''ab''"] this [of "''cd''"]
  show "repeat_text 32 ''ab'' \<noteq> repeat_text 32 ''cd''" by auto
qed

lemma v1_json_tests:
  assumes "json_laws X" "v1_json_laws X J"
  shows "decode_v1_converts_real_entries_and_drops_dummies X J"
    "decode_v1_rejects_real_entry_without_ciphertext_or_bad_key X J"
    "decode_v1_rejects_wrong_version_and_malformed_json X J"
proof -
  note one = v1_written_one [OF assms(2,1)]
  let ?ab = "repeat_text 32 ''ab''" and ?cd = "repeat_text 32 ''cd''"
  let ?fs = "[(?ab, False, Some 40, Some 100), (?cd, True, None, None)]"
  have meta: "v1_entry (v1_meta_of (False, Some n, Some p)) =
      Some \<lparr>data_counter = 3, encrypted_name = replicate n 1, encrypted_data = replicate p 2\<rparr>"
    "v1_entry (v1_meta_of (False, Some n, None)) = None" for n p
    by (simp_all add: v1_entry_def v1_meta_of_def)
  have flags: "is_dummy (v1_meta_of (True, n, p))" "\<not> is_dummy (v1_meta_of (False, n, p))" for n p
    by (simp_all add: v1_meta_of_def)
  obtain json ms where w: "write_value J (v1_index_value J (unat LEGACY_INDEX_VERSION_1) 4 9 (of_object J
       (map_of (map (\<lambda>(k, d, n, p). (k, v1_meta_value J d n p)) ?fs)))) = Inr json"
    "mset ms = mset (map (\<lambda>(k, f). (ascii k, v1_meta_of f)) ?fs)"
    "\<And>d. decode_index_v1 X json = Inr d \<longleftrightarrow> of_nat (unat LEGACY_INDEX_VERSION_1) = LEGACY_INDEX_VERSION_1 \<and>
       length ?fs \<le> MAX_INDEX_ENTRIES \<and> list_all v1_meta_ok ms \<and>
       d = \<lparr>idx_nonce_counter = of_nat 4, idx_data_nonce_counter = of_nat 9, idx_files = v1_entries ms\<rparr>"
    by (rule v1_written [OF assms(2,1), of "unat LEGACY_INDEX_VERSION_1" 4 9 ?fs])
      (simp_all add: ab_key const_defs)
  let ?real = "(ascii ?ab, v1_meta_of (False, Some 40, Some 100))"
    and ?dummy = "(ascii ?cd, v1_meta_of (True, None, None))"
  have "mset ms = {#?real, ?dummy#}" using w(2) by simp
  then have "ms = [?real, ?dummy] \<or> ms = [?dummy, ?real]"
    by (cases ms; cases "tl ms") (auto simp: add_eq_conv_ex)
  moreover have "v1_meta_ok ?real" "v1_meta_ok ?dummy"
    using ab_key(1) by (simp_all add: v1_meta_ok_def meta flags sizes_ok_def const_defs)
  ultimately have "decode_index_v1 X json = Inr \<lparr>idx_nonce_counter = 4, idx_data_nonce_counter = 9,
      idx_files = [(ascii ?ab, \<lparr>data_counter = 3, encrypted_name = replicate 40 1,
        encrypted_data = replicate 100 2\<rparr>)]\<rparr>"
    unfolding w(3) by (auto simp: meta flags MAX_INDEX_ENTRIES_def)
  with w(1) show "decode_v1_converts_real_entries_and_drops_dummies X J"
    by (simp add: decode_v1_converts_real_entries_and_drops_dummies_def v1_json_def Let_def
        fun_upd_twist [OF ab_key(4)])
  have "list_all (\<lambda>b. b < 0x80) (ascii ''not-hex'')" "\<not> is_hex_key (ascii ''not-hex'')"
    by (simp_all add: ascii_def is_hex_key_def)
  then show "decode_v1_rejects_real_entry_without_ciphertext_or_bad_key X J"
    using ab_key(2)
    by (simp add: decode_v1_rejects_real_entry_without_ciphertext_or_bad_key_def Let_def one
        v1_meta_ok_def meta flags sizes_ok_def const_defs)
  obtain json' where "write_value J (v1_index_value J 2 0 0 (of_object J Map.empty)) = Inr json'"
    "isl (decode_index_v1 X json')"
    by (rule v1_written [OF assms(2,1), of 2 0 0 "[]"])
      (auto simp: const_defs isl_def split: sum.splits, metis sum.exhaust)
  moreover have "isl (decode_index_v1 X (ascii ''{not json''))"
    using assms(2) by (auto simp: v1_json_laws_def decode_index_v1_def isl_def)
  ultimately show "decode_v1_rejects_wrong_version_and_malformed_json X J"
    by (simp add: decode_v1_rejects_wrong_version_and_malformed_json_def corrupted_iff)
qed

end
