(* ===== verification/FreshTests.thy ===== *)
theory FreshTests
  imports AuthTests
begin

text \<open>
  The unit tests that expect two values to differ, from every \<open>mod tests\<close>: values drawn from the
  random generator, and keys, tags and ciphertexts computed by the libraries. Where the code alone
  decides, the test passes; where a library does, the test passes exactly when the library
  delivers what the test expects, at the very inputs the code gives it.
\<close>

section \<open>Values drawn from the generator\<close>

definition secure_bytes_fill_fills_buffer_with_random_bytes :: "'w externals \<Rightarrow> 'w sys \<Rightarrow> bool" where
  "secure_bytes_fill_fills_buffer_with_random_bytes X s \<longleftrightarrow>
     unwrap_with (secure_bytes_fill X 16 s) (\<lambda>buffer s1. list_ex (\<lambda>b. b \<noteq> 0) buffer)"

definition generates_vault_header_with_random_salt :: "'w externals \<Rightarrow> 'w sys \<Rightarrow> bool" where
  "generates_vault_header_with_random_salt X s \<longleftrightarrow>
     unwrap_with (vault_header_generate X s) (\<lambda>header1 s1.
     unwrap_with (vault_header_generate X s1) (\<lambda>header2 s2.
     kdf_salt header1 \<noteq> kdf_salt header2 \<and> kdf_iterations header1 = ITERATIONS))"

definition from_master_key_uses_random_initial_nonce :: "'w externals \<Rightarrow> 'w sys \<Rightarrow> bool" where
  "from_master_key_uses_random_initial_nonce X s \<longleftrightarrow>
     (let master = replicate 32 0x42; salt = replicate 16 0xAA in
      unwrap_with (from_master_key X master salt s) (\<lambda>idx1 s1.
      unwrap_with (from_master_key X master salt s1) (\<lambda>idx2 s2. nonce idx1 \<noteq> nonce idx2)))"

definition advance_nonce_produces_unique_nonces :: "'w externals \<Rightarrow> 'w sys \<Rightarrow> bool" where
  "advance_nonce_produces_unique_nonces X s \<longleftrightarrow>
     unwrap_with (vault_index_generate X s) (\<lambda>idx s1.
     unwrap_with (advance_nonce X idx s1) (\<lambda>u (idx1, s2).
     let first = nonce idx1 in
     unwrap_with (advance_nonce X idx1 s2) (\<lambda>u (idx2, s3).
     nonce idx2 \<noteq> first \<and> nonce_counter idx2 = 2)))"

definition export_rotates_nonce :: "'w externals \<Rightarrow> 'w sys \<Rightarrow> bool" where
  "export_rotates_nonce X s \<longleftrightarrow>
     unwrap_with (create X (ascii ''password'') s) (\<lambda>v s1.
     let nonce_before = nonce (index v) in
     unwrap_with (export X v s1) (\<lambda>exported (v1, s2). nonce (index v1) \<noteq> nonce_before))"

definition multiple_exports_produce_different_ciphertext :: "'w externals \<Rightarrow> 'w sys \<Rightarrow> bool" where
  "multiple_exports_produce_different_ciphertext X s \<longleftrightarrow>
     unwrap_with (create X (ascii ''password'') s) (\<lambda>v s1.
     unwrap_with (store X v s1 (ascii ''k'') (ascii ''v'')) (\<lambda>u (v1, s2).
     unwrap_with (export X v1 s2) (\<lambda>e1 (v2, s3).
     unwrap_with (export X v2 s3) (\<lambda>e2 (v3, s4). e1 \<noteq> e2))))"

definition storing_same_name_twice_uses_fresh_nonces :: "'w externals \<Rightarrow> 'w sys \<Rightarrow> bool" where
  "storing_same_name_twice_uses_fresh_nonces X s \<longleftrightarrow>
     (let nonces = (\<lambda>v. map (\<lambda>(k, e). take XCHACHA20_NONCE_LEN (encrypted_data e)) (files (index v))) in
      unwrap_with (create X (ascii ''password-nonces'') s) (\<lambda>v s1.
      unwrap_with (store X v s1 (ascii ''k'') (ascii ''v1'')) (\<lambda>u (v1, s2).
      let first = nonces v1 in
      unwrap_with (store X v1 s2 (ascii ''k'') (ascii ''v1'')) (\<lambda>u (v2, s3).
      let second = nonces v2 in
      length first = 1 \<and> length second = 1 \<and> first ! 0 \<noteq> second ! 0))))"

section \<open>Values computed by the libraries\<close>

definition wrong_aad_fails_decryption :: "'w externals \<Rightarrow> 'w sys \<Rightarrow> bool" where
  "wrong_aad_fails_decryption X s \<longleftrightarrow>
     unwrap_with (secure_bytes_fill X 32 s) (\<lambda>key s1.
     unwrap_with (secure_bytes_fill X 24 s1) (\<lambda>n s2.
     unwrap (seal_with_aad X key n (ascii ''hello vault'') (ascii ''correct header'')) (\<lambda>ct.
     is_err (open_with_aad X key n ct (ascii ''tampered header'')))))"

definition tampered_ciphertext_fails :: "'w externals \<Rightarrow> 'w sys \<Rightarrow> bool" where
  "tampered_ciphertext_fails X s \<longleftrightarrow>
     unwrap_with (secure_bytes_fill X 32 s) (\<lambda>key s1.
     unwrap_with (secure_bytes_fill X 24 s1) (\<lambda>n s2.
     unwrap (seal_with_aad X key n (ascii ''hello vault'') (ascii ''header'')) (\<lambda>ct.
     xor_at 0 0xFF ct (\<lambda>ct. is_err (open_with_aad X key n ct (ascii ''header''))))))"

definition to_aad_bytes_is_deterministic :: "'w externals \<Rightarrow> bool" where
  "to_aad_bytes_is_deterministic X \<longleftrightarrow>
     (let h = vault_header_new (replicate SALT_LEN 0xAA) ITERATIONS MEMORY_COST (of_nat KEY_LEN) in
      unwrap (to_aad_bytes X h) (\<lambda>aad1.
      unwrap (to_aad_bytes X h) (\<lambda>aad2. aad1 = aad2 \<and> aad1 \<noteq> [])))"

definition enc_and_hmac_keys_are_different :: "'w externals \<Rightarrow> 'w sys \<Rightarrow> bool" where
  "enc_and_hmac_keys_are_different X s \<longleftrightarrow>
     unwrap_with (vault_index_generate X s) (\<lambda>idx s1.
     let enc_bytes = with_bytes s1 (enc_key idx) (\<lambda>b. b);
         hmac_bytes = with_bytes s1 (hmac_key idx) (\<lambda>b. b)
     in enc_bytes \<noteq> hmac_bytes \<and> length enc_bytes = SUBKEY_LEN \<and> length hmac_bytes = SUBKEY_LEN)"

definition different_names_produce_different_keys :: "'w externals \<Rightarrow> 'w sys \<Rightarrow> bool" where
  "different_names_produce_different_keys X s \<longleftrightarrow>
     unwrap_with (vault_index_generate X s) (\<lambda>idx s1.
     unwrap (hmac_key_for_name X s1 idx (ascii ''file_a.txt'')) (\<lambda>h1.
     unwrap (hmac_key_for_name X s1 idx (ascii ''file_b.txt'')) (\<lambda>h2. h1 \<noteq> h2)))"

definition subkeys :: "'w externals \<Rightarrow> bytes \<Rightarrow> (bytes \<times> bytes \<Rightarrow> bool) \<Rightarrow> bool" where
  "subkeys X master k = unwrap (derive_subkeys X master []) k"

definition subkeys_are_deterministic_for_same_master :: "'w externals \<Rightarrow> bool" where
  "subkeys_are_deterministic_for_same_master X \<longleftrightarrow>
     (let master = replicate 32 0xAB in
      subkeys X master (\<lambda>(enc1, hmac1). subkeys X master (\<lambda>(enc2, hmac2).
      enc1 = enc2 \<and> hmac1 = hmac2 \<and> enc1 \<noteq> hmac1)))"

definition subkeys_differ_for_different_masters :: "'w externals \<Rightarrow> bool" where
  "subkeys_differ_for_different_masters X \<longleftrightarrow>
     subkeys X (replicate 32 0x01) (\<lambda>(enc1, hmac1). subkeys X (replicate 32 0x02) (\<lambda>(enc2, hmac2).
     enc1 \<noteq> enc2 \<and> hmac1 \<noteq> hmac2))"

definition encode_decode_roundtrip :: "'w externals \<Rightarrow> 'w sys \<Rightarrow> bool" where
  "encode_decode_roundtrip X s \<longleftrightarrow>
     unwrap_with (vault_index_generate X s) (\<lambda>idx s1.
     let idx1 = idx\<lparr>nonce_counter := 7, data_nonce_counter := 3\<rparr> in
     unwrap (hmac_key_for_name X s1 idx1 (ascii ''a'')) (\<lambda>k1.
     unwrap (hmac_key_for_name X s1 idx1 (ascii ''b'')) (\<lambda>k2.
     unwrap_with (insert_by_key idx1 k1 (entry 1 40 40)) (\<lambda>u idx2.
     unwrap_with (insert_by_key idx2 k2 (entry 2 100 5000)) (\<lambda>u idx3.
     unwrap (encode_index idx3) (\<lambda>bs.
     unwrap (decode_index bs) (\<lambda>decoded.
     idx_nonce_counter decoded = 7 \<and> idx_data_nonce_counter decoded = 3 \<and>
     length (idx_files decoded) = 2 \<and>
     map_of (idx_files decoded) k1 = Some (entry 1 40 40) \<and>
     map_of (idx_files decoded) k2 = Some (entry 2 100 5000))))))))"

definition derive_master_key_selects_kdf_by_format_version :: "'w externals \<Rightarrow> bool" where
  "derive_master_key_selects_kdf_by_format_version X \<longleftrightarrow>
     (let legacy = (vault_header_new (replicate 16 7) MIN_KDF_ITERATIONS MIN_KDF_MEMORY 32)
            \<lparr>version := LEGACY_VAULT_VERSION_1\<rparr>;
          current = vault_header_new (replicate 16 7) MIN_KDF_ITERATIONS MIN_KDF_MEMORY 32
      in version current = VAULT_VERSION \<and>
         unwrap (derive_master_key X (ascii ''kdf-password'') legacy) (\<lambda>k1.
         unwrap (derive_master_key X (ascii ''kdf-password'') current) (\<lambda>k2. k1 \<noteq> k2)))"

definition ARGON2ID_KAT :: bytes where
  "ARGON2ID_KAT = ascii ''99042566ff7a3da22162503ab2b2d089c071ec7b836c2eb1e395effde97bd229''"

definition derive_master_key_argon2id_known_answer :: "'w externals \<Rightarrow> bool" where
  "derive_master_key_argon2id_known_answer X \<longleftrightarrow>
     (let header = vault_header_new (replicate 16 0x5A) MIN_KDF_ITERATIONS MIN_KDF_MEMORY 32 in
      unwrap (derive_master_key X (ascii ''known-answer-password'') header) (\<lambda>key.
      key_to_hex key = ARGON2ID_KAT))"

section \<open>An inconsistent entry\<close>

text \<open>\<open>format!("{:064x}", 1)\<close>\<close>

definition bad_entry_key :: bytes where
  "bad_entry_key = replicate 63 48 @ [49]"

definition change_password_rejects_entry_with_undersized_ciphertext ::
  "'w externals \<Rightarrow> 'w sys \<Rightarrow> bool" where
  "change_password_rejects_entry_with_undersized_ciphertext X s \<longleftrightarrow>
     unwrap_with (create X (ascii ''old-password'') s) (\<lambda>v s1.
     unwrap_with (store X v s1 (ascii ''real'') (ascii ''payload'')) (\<lambda>u (v1, s2).
     let bad = \<lparr>data_counter = 0, encrypted_name = replicate 3 0, encrypted_data = replicate 40 0\<rparr>;
         v2 = v1\<lparr>index := (index v1)\<lparr>files := snd (hm_insert bad_entry_key bad (files (index v1)))\<rparr>\<rparr>
     in case change_password X v2 s2 (ascii ''old-password'') (ascii ''new-password'') of
          (Inl e, v3, s3) \<Rightarrow> is_corrupted e \<and>
            unwrap (retrieve X v3 s3 (ascii ''real'')) (\<lambda>r. r = Some (ascii ''payload''))
        | _ \<Rightarrow> False))"

section \<open>What the generator has to deliver\<close>

lemma from_master_key_draws:
  "from_master_key X mk salt s = (Inr idx, s') \<Longrightarrow>
    \<exists>s1. secure_bytes_fill X XCHACHA20_NONCE_LEN s = (Inr (nonce idx), s1)"
  by (auto simp: from_master_key_def split: prod.splits sum.splits)

lemma generate_draws:
  "vault_header_generate X s = (Inr h, s') \<Longrightarrow> secure_bytes_fill X SALT_LEN s = (Inr (kdf_salt h), s')"
  by (auto simp: vault_header_generate_def vault_header_new_def split: prod.splits sum.splits)

lemma advance_draws:
  "advance_nonce X idx s = (Inr u, idx', s') \<Longrightarrow>
    secure_bytes_fill X XCHACHA20_NONCE_LEN s = (Inr (nonce idx'), s') \<and>
    nonce_counter idx' = nonce_counter idx + 1"
  by (auto simp: advance_nonce_def u64_checked_add_def Let_def split: if_splits prod.splits sum.splits)

lemma export_draws:
  "export X v s = (Inr out, v', s') \<Longrightarrow>
    secure_bytes_fill X XCHACHA20_NONCE_LEN s = (Inr (nonce (index v')), s')"
  by (auto simp: export_def split: prod.splits sum.splits dest!: advance_draws)

lemma not_all_zero: "list_ex (\<lambda>b. b \<noteq> 0) bs \<longleftrightarrow> bs \<noteq> replicate (length bs) 0"
  by (induction bs) auto

lemma fill_test:
  assumes "test_machine X s"
  shows "\<exists>b s1. secure_bytes_fill X 16 s = (Inr b, s1) \<and>
    (secure_bytes_fill_fills_buffer_with_random_bytes X s \<longleftrightarrow> b \<noteq> replicate 16 0)"
proof -
  have "env_works X" using assms by (simp add: test_machine_def)
  then obtain b w where "secure_bytes_fill X 16 s = (Inr b, s\<lparr>ext := w\<rparr>)" "length b = 16"
    by (rule fill_works [of X 16]) simp
  then show ?thesis by (simp add: secure_bytes_fill_fills_buffer_with_random_bytes_def not_all_zero)
qed

lemma generate_runs:
  assumes "env_works X"
  obtains h w where "vault_header_generate X s = (Inr h, s\<lparr>ext := w\<rparr>)" "kdf_iterations h = ITERATIONS"
    "secure_bytes_fill X SALT_LEN s = (Inr (kdf_salt h), s\<lparr>ext := w\<rparr>)"
proof -
  obtain b w where b: "secure_bytes_fill X SALT_LEN s = (Inr b, s\<lparr>ext := w\<rparr>)"
    by (rule fill_works [OF assms, of SALT_LEN]) (simp add: SALT_LEN_def)
  then show thesis
    by (intro that [of "vault_header_new b ITERATIONS MEMORY_COST (of_nat KEY_LEN)" w])
      (simp_all add: vault_header_generate_def vault_header_new_def)
qed

lemma salt_test:
  assumes "test_machine X s"
  shows "\<exists>a s1 b s2. secure_bytes_fill X SALT_LEN s = (Inr a, s1) \<and>
    secure_bytes_fill X SALT_LEN s1 = (Inr b, s2) \<and>
    (generates_vault_header_with_random_salt X s \<longleftrightarrow> a \<noteq> b)"
proof -
  have env: "env_works X" using assms by (simp add: test_machine_def)
  obtain h w where 1: "vault_header_generate X s = (Inr h, s\<lparr>ext := w\<rparr>)" "kdf_iterations h = ITERATIONS"
    "secure_bytes_fill X SALT_LEN s = (Inr (kdf_salt h), s\<lparr>ext := w\<rparr>)"
    by (rule generate_runs [OF env])
  obtain h' w' where 2: "vault_header_generate X (s\<lparr>ext := w\<rparr>) = (Inr h', s\<lparr>ext := w\<rparr>\<lparr>ext := w'\<rparr>)"
    "secure_bytes_fill X SALT_LEN (s\<lparr>ext := w\<rparr>) = (Inr (kdf_salt h'), s\<lparr>ext := w\<rparr>\<lparr>ext := w'\<rparr>)"
    by (rule generate_runs [OF env])
  have "generates_vault_header_with_random_salt X s \<longleftrightarrow> kdf_salt h \<noteq> kdf_salt h'"
    using 2(1) by (simp add: generates_vault_header_with_random_salt_def 1(1,2))
  with 1(3) 2(2) show ?thesis by blast
qed

lemma initial_nonce_test:
  assumes "test_machine X s"
  shows "\<exists>a s1 idx s2 b s3. secure_bytes_fill X XCHACHA20_NONCE_LEN s = (Inr a, s1) \<and>
    from_master_key X (replicate 32 0x42) (replicate 16 0xAA) s = (Inr idx, s2) \<and>
    secure_bytes_fill X XCHACHA20_NONCE_LEN s2 = (Inr b, s3) \<and>
    (from_master_key_uses_random_initial_nonce X s \<longleftrightarrow> a \<noteq> b)"
proof -
  have m: "env_works X" "mem_ok s" "finite (dom (heap s))" using assms by (simp_all add: test_machine_def)
  obtain idx s2 where 1: "from_master_key X (replicate 32 0x42) (replicate 16 0xAA) s = (Inr idx, s2)"
    by (rule from_master_key_works [OF m(1,3)])
  obtain ek hk where "adds_keys s idx ek hk s2"
    by (rule from_master_key_ok [OF env_worksD(1) [OF m(1)] m(2) 1])
  then have "finite (dom (heap s2))" by (rule adds_keys_finite) (rule m(3))
  then obtain idx' s4 where 2: "from_master_key X (replicate 32 0x42) (replicate 16 0xAA) s2 = (Inr idx', s4)"
    by (rule from_master_key_works [OF m(1)])
  from from_master_key_draws [OF 1] from_master_key_draws [OF 2] 1 2 show ?thesis
    by (auto simp: from_master_key_uses_random_initial_nonce_def)
qed

lemma advance_test:
  assumes "test_machine X s"
  shows "\<exists>idx s1 a s2 b s3. vault_index_generate X s = (Inr idx, s1) \<and>
    secure_bytes_fill X XCHACHA20_NONCE_LEN s1 = (Inr a, s2) \<and>
    secure_bytes_fill X XCHACHA20_NONCE_LEN s2 = (Inr b, s3) \<and>
    (advance_nonce_produces_unique_nonces X s \<longleftrightarrow> a \<noteq> b)"
proof -
  have m: "env_works X" "mem_ok s" "finite (dom (heap s))" using assms by (simp_all add: test_machine_def)
  obtain idx s1 where g: "vault_index_generate X s = (Inr idx, s1)" "nonce_counter idx = 0"
    by (rule generate_works [OF m])
  have ne: "XCHACHA20_NONCE_LEN \<noteq> 0" by (simp add: XCHACHA20_NONCE_LEN_def)
  obtain a w where a: "secure_bytes_fill X XCHACHA20_NONCE_LEN s1 = (Inr a, s1\<lparr>ext := w\<rparr>)"
    by (rule fill_works [OF m(1) ne])
  obtain b w' where b: "secure_bytes_fill X XCHACHA20_NONCE_LEN (s1\<lparr>ext := w\<rparr>) =
      (Inr b, s1\<lparr>ext := w\<rparr>\<lparr>ext := w'\<rparr>)"
    by (rule fill_works [OF m(1) ne])
  have "advance_nonce_produces_unique_nonces X s \<longleftrightarrow> a \<noteq> b"
    using b by (auto simp: advance_nonce_produces_unique_nonces_def g a advance_nonce_def
        u64_checked_add_def Let_def)
  with g(1) a b show ?thesis by blast
qed

lemma rotate_test:
  assumes "test_machine X s"
  shows "\<exists>v s1 b s2. create X (ascii ''password'') s = (Inr v, s1) \<and>
    secure_bytes_fill X XCHACHA20_NONCE_LEN s1 = (Inr b, s2) \<and>
    (export_rotates_nonce X s \<longleftrightarrow> b \<noteq> nonce (index v))"
proof -
  obtain v s1 v1 s2 hj n c where f: "create X (ascii ''password'') s = (Inr v, s1)"
    "export X v s1 = (Inr (headed_file hj (n @ c)), v1, s2)"
    by (rule new_file [OF assms, of "ascii ''password''"]) (simp_all add: test_lengths)
  with export_draws [OF f(2)] show ?thesis by (auto simp: export_rotates_nonce_def)
qed

lemma store_draws:
  assumes "store X v s name p = (Inr u, v', s')"
  obtains k e n1 s1 n2 where "hmac_key_for_name X s (index v) name = Inr k"
    "secure_bytes_fill X XCHACHA20_NONCE_LEN s = (Inr n1, s1)"
    "secure_bytes_fill X XCHACHA20_NONCE_LEN s1 = (Inr n2, s')"
    "files (index v') = AList.update k e (files (index v))" "\<exists>c. encrypted_data e = n1 @ c"
  using assms
  by (auto simp: store_def next_data_nonce_counter_def insert_by_key_def hm_insert_def seal_entry_def
      Let_def and_then_Inr_iff intro: that split: if_splits prod.splits sum.splits option.splits)

lemma same_name_test:
  assumes "test_machine X s"
  shows "\<exists>v s1 a s2 n s3 b s4. create X (ascii ''password-nonces'') s = (Inr v, s1) \<and>
    secure_bytes_fill X XCHACHA20_NONCE_LEN s1 = (Inr a, s2) \<and>
    secure_bytes_fill X XCHACHA20_NONCE_LEN s2 = (Inr n, s3) \<and>
    secure_bytes_fill X XCHACHA20_NONCE_LEN s3 = (Inr b, s4) \<and>
    (storing_same_name_twice_uses_fresh_nonces X s \<longleftrightarrow> a \<noteq> b)"
proof -
  let ?pw = "ascii ''password-nonces''" and ?n = "ascii ''k''" and ?p = "ascii ''v1''"
  have m: "env_works X" using assms by (simp add: test_machine_def)
  note rng = secure_bytes_fill_length [OF env_worksD(5) [OF m]]
  obtain v s1 where v: "create X ?pw s = (Inr v, s1)"
    "\<And>n. stands_for X {n} (s1, v, ?pw) (?pw, Map.empty)" "files (index v) = []"
    "data_nonce_counter (index v) = 0" "test_machine X s1"
    by (rule created [OF assms, of ?pw]) (auto simp: test_lengths)
  obtain v1 s2 where 1: "store X v s1 ?n ?p = (Inr (), v1, s2)" "test_machine X s2"
    "stands_for X {?n} (s2, v1, ?pw) (?pw, [?n \<mapsto> ?p])" "unat (data_nonce_counter (index v1)) = 1"
    by (rule stored [where name = ?n and p = ?p, OF v(5,2) single_apart [OF m]])
      (simp_all add: v(3,4) test_lengths MAX_INDEX_ENTRIES_def)
  have few: "length (files (index v1)) < MAX_INDEX_ENTRIES"
    using one_name_one_entry [OF 1(3)] by (simp add: MAX_INDEX_ENTRIES_def)
  obtain v2 s3 where 2: "store X v1 s2 ?n ?p = (Inr (), v2, s3)"
    by (rule stored [where name = ?n and p = ?p, OF 1(2,3) single_apart [OF m] _ few]) (simp_all add: 1(4) test_lengths)
  obtain k e a t1 n1 where d1: "hmac_key_for_name X s1 (index v) ?n = Inr k"
    "secure_bytes_fill X XCHACHA20_NONCE_LEN s1 = (Inr a, t1)"
    "secure_bytes_fill X XCHACHA20_NONCE_LEN t1 = (Inr n1, s2)"
    "files (index v1) = AList.update k e (files (index v))" "\<exists>c. encrypted_data e = a @ c"
    by (rule store_draws [OF 1(1)])
  obtain k' e' b t2 where d2: "hmac_key_for_name X s2 (index v1) ?n = Inr k'"
    "secure_bytes_fill X XCHACHA20_NONCE_LEN s2 = (Inr b, t2)"
    "files (index v2) = AList.update k' e' (files (index v1))" "\<exists>c. encrypted_data e' = b @ c"
    by (rule store_draws [OF 2])
  obtain ek hk where live: "keys_live s2 (index v1) ek hk"
    using 1(3) by (auto simp: stands_for_def vault_ok_def)
  then have "keys_live s1 (index v) ek hk" using store_keys(1) [OF 1(1)] by blast
  from keys_live_hmac [OF this] keys_live_hmac [OF live] d1(1) d2(1) have "k' = k" by simp
  then have files: "files (index v1) = [(k, e)]" "files (index v2) = [(k, e')]"
    using d1(4) d2(3) v(3) by simp_all
  have "take XCHACHA20_NONCE_LEN (encrypted_data e) = a" "take XCHACHA20_NONCE_LEN (encrypted_data e') = b"
    using d1(5) d2(4) rng [OF d1(2)] rng [OF d2(2)] by auto
  then have "storing_same_name_twice_uses_fresh_nonces X s \<longleftrightarrow> a \<noteq> b"
    by (simp add: storing_same_name_twice_uses_fresh_nonces_def v(1) 1(1) 2 files Let_def)
  with v(1) d1(2,3) d2(2) show ?thesis by blast
qed

text \<open>Two exports differ even under the same nonce: the counter inside the index has advanced.\<close>

lemma exports_differ:
  assumes "test_machine X s"
  shows "multiple_exports_produce_different_ciphertext X s"
proof -
  let ?pw = "ascii ''password''"
  have env: "env_works X" using assms by (simp add: test_machine_def)
  note X = env_worksD(1) [OF env]
  obtain v s1 v1 s2 where r: "create X ?pw s = (Inr v, s1)"
    "store X v s1 (ascii ''k'') (ascii ''v'') = (Inr (), v1, s2)"
    "stands_for X {ascii ''k''} (s2, v1, ?pw) (?pw, [ascii ''k'' \<mapsto> ascii ''v''])"
    "nonce_counter (index v1) = 0"
    by (rule one_entry [OF assms, of ?pw "ascii ''k''" "ascii ''v''"]) (simp_all add: test_lengths)
  have v1: "vault_ok s2 v1" using r(3) by (simp add: stands_for_def)
  have size: "export_size X u \<le> MAX_VAULT_FILE_SIZE"
    if "stands_for X {n} (t, u, pw) x" for n t u pw x
    using that one_name_one_entry [OF that]
    by (intro export_size_small [OF env, of t]) (cases x, auto simp: stands_for_def)
  obtain e1 v2 s3 where 1: "export X v1 s2 = (Inr e1, v2, s3)"
    by (rule export_works [OF env v1 _ size [OF r(3)]]) (simp_all add: r(4))
  have st2: "stands_for X {ascii ''k''} (s3, v2, ?pw) (?pw, [ascii ''k'' \<mapsto> ascii ''v''])"
    by (rule export_stands_for [OF X r(3) 1])
  then have v2: "vault_ok s3 v2" by (simp add: stands_for_def)
  note eff = export_effect [OF 1]
  obtain e2 v3 s4 where 2: "export X v2 s3 = (Inr e2, v3, s4)"
    by (rule export_works [OF env v2 _ size [OF st2]]) (use eff(6) r(4) in auto)
  obtain ek hk where live: "keys_live s2 (index v1) ek hk" using v1 by (auto simp: vault_ok_def)
  then have live2: "keys_live s3 (index v2) ek hk" using keys_live_ext [OF eff(7,4,5)] by blast
  have ek: "length ek = 32" using live by (simp add: keys_live_def SUBKEY_LEN_def)
  have idx: "index_ok (index v1)" "index_ok (index v2)" using v1 v2 by (simp_all add: vault_ok_def)
  obtain hj n c where x1: "v2 = v1\<lparr>index := (index v1)\<lparr>nonce := n, nonce_counter := nonce_counter (index v1) + 1\<rparr>\<rparr>"
    "length n = XCHACHA20_NONCE_LEN" "header_to_json X (header v1) = Inr hj"
    "seal_with_aad X ek n (index_layout (nonce_counter (index v1) + 1)
       (data_nonce_counter (index v1)) (files (index v1))) hj = Inr c" "e1 = assemble_envelope hj n c"
    by (rule export_ok [OF X idx(1) live 1])
  obtain hj' n' c' where x2: "length n' = XCHACHA20_NONCE_LEN" "header_to_json X (header v2) = Inr hj'"
    "seal_with_aad X ek n' (index_layout (nonce_counter (index v2) + 1)
       (data_nonce_counter (index v2)) (files (index v2))) hj' = Inr c'" "e2 = assemble_envelope hj' n' c'"
    by (rule export_ok [OF X idx(2) live2 2])
  have "e1 \<noteq> e2"
  proof
    assume same: "e1 = e2"
    have "hj' = hj" using x1(3) x2(2) eff(1) by simp
    with same x1(2,5) x2(1,4) have "n' = n" "c' = c" by (simp_all add: assemble_envelope_def)
    with open_seal_with_aad [OF env_worksD(7) [OF env] ek x1(2,4)]
      open_seal_with_aad [OF env_worksD(7) [OF env] ek x2(1,3)] \<open>hj' = hj\<close>
    have "index_layout (nonce_counter (index v1) + 1) (data_nonce_counter (index v1)) (files (index v1)) =
        index_layout (nonce_counter (index v2) + 1) (data_nonce_counter (index v2)) (files (index v2))"
      by simp
    then have "nonce_counter (index v1) + 1 = nonce_counter (index v2) + 1"
      by (auto simp: index_layout_def append_eq_append_conv le64.enc_inject)
    then show False using x1(1) by simp
  qed
  then show ?thesis by (simp add: multiple_exports_produce_different_ciphertext_def r(1,2) 1 2)
qed

section \<open>What the libraries have to compute\<close>

lemma drawn_key:
  assumes "test_machine X s"
  obtains k s1 n s2 where "secure_bytes_fill X 32 s = (Inr k, s1)" "length k = 32"
    "secure_bytes_fill X 24 s1 = (Inr n, s2)" "length n = XCHACHA20_NONCE_LEN"
proof -
  have env: "env_works X" using assms by (simp add: test_machine_def)
  obtain k w where "secure_bytes_fill X 32 s = (Inr k, s\<lparr>ext := w\<rparr>)" "length k = 32"
    by (rule fill_works [OF env, of 32]) simp
  moreover obtain n w' where "secure_bytes_fill X 24 (s\<lparr>ext := w\<rparr>) = (Inr n, s\<lparr>ext := w\<rparr>\<lparr>ext := w'\<rparr>)"
    "length n = 24" by (rule fill_works [OF env, of 24]) simp
  ultimately show thesis using that by (simp add: XCHACHA20_NONCE_LEN_def)
qed

lemma aead_rejection_tests:
  assumes "test_machine X s"
  shows "\<exists>k s1 n s2 c. secure_bytes_fill X 32 s = (Inr k, s1) \<and>
      secure_bytes_fill X 24 s1 = (Inr n, s2) \<and>
      seal_with_aad X k n (ascii ''hello vault'') (ascii ''correct header'') = Inr c \<and>
      (wrong_aad_fails_decryption X s \<longleftrightarrow> isl (open_with_aad X k n c (ascii ''tampered header'')))"
    "\<exists>k s1 n s2 c. secure_bytes_fill X 32 s = (Inr k, s1) \<and>
      secure_bytes_fill X 24 s1 = (Inr n, s2) \<and>
      seal_with_aad X k n (ascii ''hello vault'') (ascii ''header'') = Inr c \<and>
      (tampered_ciphertext_fails X s \<longleftrightarrow>
        isl (open_with_aad X k n (c[0 := (c ! 0) XOR 0xFF]) (ascii ''header'')))"
proof -
  have env: "env_works X" using assms by (simp add: test_machine_def)
  obtain k s1 n s2 where d: "secure_bytes_fill X 32 s = (Inr k, s1)" "length k = 32"
    "secure_bytes_fill X 24 s1 = (Inr n, s2)" "length n = XCHACHA20_NONCE_LEN"
    by (rule drawn_key [OF assms])
  obtain c where c: "seal_with_aad X k n (ascii ''hello vault'') (ascii ''correct header'') = Inr c"
    by (rule seal_works [OF env d(2,4), of "ascii ''hello vault''"]) simp_all
  obtain c' where c': "seal_with_aad X k n (ascii ''hello vault'') (ascii ''header'') = Inr c'"
    "length c' = length (ascii ''hello vault'') + POLY1305_OUTSIZE"
    by (rule seal_works [OF env d(2,4), of "ascii ''hello vault''"]) simp_all
  from d c show "\<exists>k s1 n s2 c. secure_bytes_fill X 32 s = (Inr k, s1) \<and>
      secure_bytes_fill X 24 s1 = (Inr n, s2) \<and>
      seal_with_aad X k n (ascii ''hello vault'') (ascii ''correct header'') = Inr c \<and>
      (wrong_aad_fails_decryption X s \<longleftrightarrow> isl (open_with_aad X k n c (ascii ''tampered header'')))"
    by (auto simp: wrong_aad_fails_decryption_def is_err_def split: sum.splits)
  have "c' \<noteq> []" using c'(2) by (auto simp: POLY1305_OUTSIZE_def)
  with d c' show "\<exists>k s1 n s2 c. secure_bytes_fill X 32 s = (Inr k, s1) \<and>
      secure_bytes_fill X 24 s1 = (Inr n, s2) \<and>
      seal_with_aad X k n (ascii ''hello vault'') (ascii ''header'') = Inr c \<and>
      (tampered_ciphertext_fails X s \<longleftrightarrow>
        isl (open_with_aad X k n (c[0 := (c ! 0) XOR 0xFF]) (ascii ''header'')))"
    by (auto simp: tampered_ciphertext_fails_def xor_at_def is_err_def split: sum.splits)
qed

lemma aad_test_passes:
  assumes "env_works X" "braces_are_not_json X"
  shows "to_aad_bytes_is_deterministic X"
proof -
  let ?h = "vault_header_new (replicate SALT_LEN 0xAA) ITERATIONS MEMORY_COST (of_nat KEY_LEN)"
  obtain b where b: "to_aad_bytes X ?h = Inr b" "header_from_json X b = Inr ?h"
    by (rule to_aad_bytes_ok [OF env_worksD(9) [OF assms(1)], of ?h]) (simp add: vault_header_new_def)
  have "isl (header_from_json X (replicate 0 123))" using assms(2) unfolding braces_are_not_json_def by blast
  with b(2) have "b \<noteq> []" by auto
  with b(1) show ?thesis by (simp add: to_aad_bytes_is_deterministic_def Let_def)
qed

lemma enc_and_hmac_test:
  assumes "test_machine X s"
  shows "\<exists>m s1 a b. secure_bytes_fill X 32 s = (Inr m, s1) \<and> derive_subkeys X m [] = Inr (a, b) \<and>
    (enc_and_hmac_keys_are_different X s \<longleftrightarrow> a \<noteq> b)"
proof -
  have m: "env_works X" "mem_ok s" "finite (dom (heap s))" using assms by (simp_all add: test_machine_def)
  obtain mk w where mk: "secure_bytes_fill X 32 s = (Inr mk, s\<lparr>ext := w\<rparr>)"
    by (rule fill_works [OF m(1), of 32]) simp
  obtain idx s2 where idx: "from_master_key X mk [] (s\<lparr>ext := w\<rparr>) = (Inr idx, s2)"
    by (rule from_master_key_works [OF m(1), of "s\<lparr>ext := w\<rparr>"]) (simp_all add: m(3))
  have "mem_ok (s\<lparr>ext := w\<rparr>)" using m(2) by simp
  then obtain a b where sub: "derive_subkeys X mk [] = Inr (a, b)" "adds_keys (s\<lparr>ext := w\<rparr>) idx a b s2"
    by (rule from_master_key_ok [OF env_worksD(1) [OF m(1)] _ idx])
  then have "secret_bytes s2 (enc_key idx) = Some a" "secret_bytes s2 (hmac_key idx) = Some b"
    "length a = SUBKEY_LEN" "length b = SUBKEY_LEN"
    by (simp_all add: adds_keys_def keys_live_def)
  then have "enc_and_hmac_keys_are_different X s \<longleftrightarrow> a \<noteq> b"
    by (simp add: enc_and_hmac_keys_are_different_def vault_index_generate_def mk idx)
  with mk sub(1) show ?thesis by blast
qed

lemma subkeys_tests:
  assumes "env_works X"
  shows "\<exists>a b. derive_subkeys X (replicate 32 0xAB) [] = Inr (a, b) \<and>
      (subkeys_are_deterministic_for_same_master X \<longleftrightarrow> a \<noteq> b)"
    "\<exists>a b c d. derive_subkeys X (replicate 32 0x01) [] = Inr (a, b) \<and>
      derive_subkeys X (replicate 32 0x02) [] = Inr (c, d) \<and>
      (subkeys_differ_for_different_masters X \<longleftrightarrow> a \<noteq> c \<and> b \<noteq> d)"
proof -
  obtain a b where "derive_subkeys X (replicate 32 0xAB) [] = Inr (a, b)"
    by (rule derive_subkeys_works [OF assms])
  then show "\<exists>a b. derive_subkeys X (replicate 32 0xAB) [] = Inr (a, b) \<and>
      (subkeys_are_deterministic_for_same_master X \<longleftrightarrow> a \<noteq> b)"
    by (auto simp: subkeys_are_deterministic_for_same_master_def subkeys_def)
  obtain a b c d where "derive_subkeys X (replicate 32 0x01) [] = Inr (a, b)"
    "derive_subkeys X (replicate 32 0x02) [] = Inr (c, d)"
    using derive_subkeys_works [OF assms] by metis
  then show "\<exists>a b c d. derive_subkeys X (replicate 32 0x01) [] = Inr (a, b) \<and>
      derive_subkeys X (replicate 32 0x02) [] = Inr (c, d) \<and>
      (subkeys_differ_for_different_masters X \<longleftrightarrow> a \<noteq> c \<and> b \<noteq> d)"
    by (auto simp: subkeys_differ_for_different_masters_def subkeys_def)
qed

lemma different_names_passes:
  assumes "test_machine X s" "names_separated X {ascii ''file_a.txt'', ascii ''file_b.txt''}"
  shows "different_names_produce_different_keys X s"
proof -
  have m: "env_works X" "mem_ok s" "finite (dom (heap s))" using assms by (simp_all add: test_machine_def)
  obtain idx s1 ek hk where g: "vault_index_generate X s = (Inr idx, s1)" "keys_live s1 idx ek hk"
    by (rule generate_works [OF m])
  have "names_apart X hk {ascii ''file_a.txt'', ascii ''file_b.txt''}"
    using assms(2) g(2) by (simp add: names_separated_def keys_live_def)
  then show ?thesis
    by (auto simp: different_names_produce_different_keys_def g(1) keys_live_hmac [OF g(2)]
        names_apart_def ascii_def)
qed

lemma encode_decode_passes:
  assumes "test_machine X s" "names_separated X {ascii ''a'', ascii ''b''}"
  shows "encode_decode_roundtrip X s"
proof -
  have m: "env_works X" "mem_ok s" "finite (dom (heap s))" using assms by (simp_all add: test_machine_def)
  obtain idx s1 ek hk where g: "vault_index_generate X s = (Inr idx, s1)" "keys_live s1 idx ek hk"
    "files idx = []" by (rule generate_works [OF m])
  let ?i = "idx\<lparr>nonce_counter := 7, data_nonce_counter := 3\<rparr>"
  have live: "keys_live s1 ?i ek hk" using g(2) by (simp add: keys_live_def)
  have hk: "length hk = SUBKEY_LEN" using live by (simp add: keys_live_def)
  obtain k1 where k1: "name_key X hk (ascii ''a'') = Inr k1" "is_hex_key k1"
    by (rule name_key_works [OF m(1) hk])
  obtain k2 where k2: "name_key X hk (ascii ''b'') = Inr k2" "is_hex_key k2"
    by (rule name_key_works [OF m(1) hk])
  have ne: "k1 \<noteq> k2" using assms(2) hk k1(1) k2(1) by (auto simp: names_separated_def names_apart_def ascii_def)
  let ?fs = "[(k1, entry 1 40 40), (k2, entry 2 100 5000)]"
  have "files_ok ?fs"
    using ne k1(2) k2(2) by (simp add: files_ok_def file_ok_def sizes_ok_def entry_def const_defs)
  with ne show ?thesis
    by (simp add: encode_decode_roundtrip_def g(1,3) keys_live_hmac [OF live] k1(1) k2(1)
        insert_by_key_def hm_insert_def MAX_INDEX_ENTRIES_def encode_index_ok decode_index_layout)
qed

lemma kdf_tests:
  assumes "env_works X"
  shows "\<exists>k2. derive_master_key X (ascii ''kdf-password'')
        (vault_header_new (replicate 16 7) MIN_KDF_ITERATIONS MIN_KDF_MEMORY 32) = Inr k2 \<and>
      (derive_master_key_selects_kdf_by_format_version X \<longleftrightarrow>
        (\<exists>k1. argon2i_derive X (ascii ''kdf-password'') (replicate 16 7) MIN_KDF_ITERATIONS
           MIN_KDF_MEMORY KEY_LEN = Inr k1 \<and> k1 \<noteq> k2))"
    "\<exists>params key. argon2_params_new X MIN_KDF_MEMORY MIN_KDF_ITERATIONS 1 (Some KEY_LEN) = Inr params \<and>
      argon2id_hash X params (ascii ''known-answer-password'') (replicate 16 0x5A) KEY_LEN
        (argon2_block_count X params) = Inr key \<and>
      (derive_master_key_argon2id_known_answer X \<longleftrightarrow> key_to_hex key = ARGON2ID_KAT)"
proof -
  let ?h = "vault_header_new (replicate 16 7) MIN_KDF_ITERATIONS MIN_KDF_MEMORY 32"
  have h: "header_in_policy (vault_header_new salt MIN_KDF_ITERATIONS MIN_KDF_MEMORY 32)" for salt
    by (simp add: header_in_policy_def vault_header_new_def const_defs)
  have legacy: "derive_master_key X pw (h\<lparr>version := LEGACY_VAULT_VERSION_1\<rparr>) =
      (case argon2i_derive X pw (kdf_salt h) (kdf_iterations h) (kdf_memory_cost h) KEY_LEN of
         Inl e \<Rightarrow> Inl (CryptoError (fmt ''Argon2i derivation failed: {}'' [e])) | Inr k \<Rightarrow> Inr k)" for pw h
    by (simp add: derive_master_key_def split: sum.splits)
  obtain k2 where k2: "derive_master_key X (ascii ''kdf-password'') ?h = Inr k2"
    by (rule derive_master_key_works [OF assms h, of "replicate 16 7" "ascii ''kdf-password''"])
      (simp_all add: vault_header_new_def SALT_LEN_def)
  have "derive_master_key_selects_kdf_by_format_version X \<longleftrightarrow>
      (\<exists>k1. argon2i_derive X (ascii ''kdf-password'') (replicate 16 7) MIN_KDF_ITERATIONS
           MIN_KDF_MEMORY KEY_LEN = Inr k1 \<and> k1 \<noteq> k2)"
    using k2 legacy [of "ascii ''kdf-password''" ?h]
    by (simp add: derive_master_key_selects_kdf_by_format_version_def Let_def unwrap_def
        vault_header_new_def split: sum.splits)
  with k2 show "\<exists>k2. derive_master_key X (ascii ''kdf-password'') ?h = Inr k2 \<and>
      (derive_master_key_selects_kdf_by_format_version X \<longleftrightarrow>
        (\<exists>k1. argon2i_derive X (ascii ''kdf-password'') (replicate 16 7) MIN_KDF_ITERATIONS
           MIN_KDF_MEMORY KEY_LEN = Inr k1 \<and> k1 \<noteq> k2))" by blast
  from env_worksD(4) [OF assms] h [of "replicate 16 0x5A"] obtain params key
    where p: "argon2_params_new X MIN_KDF_MEMORY MIN_KDF_ITERATIONS 1 (Some KEY_LEN) = Inr params"
      "argon2id_hash X params (ascii ''known-answer-password'') (replicate 16 0x5A) KEY_LEN
        (argon2_block_count X params) = Inr key"
    unfolding kdf_works_def header_in_policy_def
    by (fastforce simp: vault_header_new_def SALT_LEN_def const_defs)
  then have "derive_master_key_argon2id_known_answer X \<longleftrightarrow> key_to_hex key = ARGON2ID_KAT"
    by (simp add: derive_master_key_argon2id_known_answer_def derive_master_key_def
        vault_header_new_def VAULT_VERSION_def LEGACY_VAULT_VERSION_1_def)
  with p show "\<exists>params key.
      argon2_params_new X MIN_KDF_MEMORY MIN_KDF_ITERATIONS 1 (Some KEY_LEN) = Inr params \<and>
      argon2id_hash X params (ascii ''known-answer-password'') (replicate 16 0x5A) KEY_LEN
        (argon2_block_count X params) = Inr key \<and>
      (derive_master_key_argon2id_known_answer X \<longleftrightarrow> key_to_hex key = ARGON2ID_KAT)" by blast
qed

section \<open>The inconsistent entry is refused\<close>

lemma rekey_entries_append:
  "rekey_entries X oek (fs @ gs) w s =
    (case rekey_entries X oek fs w s of
       (Inl e, w1, s1) \<Rightarrow> (Inl e, w1, s1)
     | (Inr _, w1, s1) \<Rightarrow> rekey_entries X oek gs w1 s1)"
proof (induction fs arbitrary: w s)
  case (Cons f fs)
  then show ?case by (cases f) (auto split: sum.splits prod.splits)
qed simp

lemma decrypt_short_name:
  "length (encrypted_name e) < XCHACHA20_NONCE_LEN \<Longrightarrow> \<exists>m. decrypt_entry X oek k e = Inl (CorruptedData m)"
  by (auto simp: decrypt_entry_def split_nonce_def and_then_def Let_def)

text \<open>A rekeying whose last entry cannot be split fails after the other entries were moved.\<close>

lemma rekey_refuses_short_name:
  assumes "env_works X" "mem_ok s" "keys_live s (index v) oek ohk" "files (index v) = fs @ [(k, bad)]"
    and "sealed_for X oek ohk strings fs" "list_all file_ok fs" "length fs \<le> MAX_INDEX_ENTRIES"
    and "length pw < 2 ^ 32" "finite (dom (heap s))" "length (encrypted_name bad) < XCHACHA20_NONCE_LEN"
  obtains m s' where "rekey X v s pw = (Inl (CorruptedData m), v, s')"
proof -
  note laws = env_worksD [OF assms(1)]
  obtain h x where h: "vault_header_generate X s = (Inr h, s\<lparr>ext := x\<rparr>)" "generated_header h"
    by (rule header_generate_works [OF assms(1)])
  obtain mk where mk: "derive_master_key X pw h = Inr mk"
    by (rule generated_key_works [OF assms(1) h(2) assms(8)])
  obtain idx s2 where idx: "from_master_key X mk (kdf_salt h) (s\<lparr>ext := x\<rparr>) = (Inr idx, s2)"
    by (rule from_master_key_works [OF assms(1), of "s\<lparr>ext := x\<rparr>"]) (simp_all add: assms(9))
  let ?w = "\<lparr>header = h, index = idx\<rparr>"
  obtain ek hk where fresh: "fresh_vault X pw s ?w ek hk s2"
    by (rule fresh_vaultI [OF laws(1) assms(2) h(1) mk idx])
  then have adds: "adds_keys s idx ek hk s2" and empty: "files idx = []" "data_nonce_counter idx = 0"
    by (simp_all add: fresh_vault_def)
  have live: "keys_live s2 (index ?w) ek hk" using adds by (simp add: adds_keys_def)
  have "keys_live s2 (index v) oek ohk" using adds assms(3) by (auto simp: adds_keys_def keys_live_def)
  note old = keys_live_enc [OF this]
  have "\<forall>f \<in> set fs. sizes_ok (snd f) \<and> (\<exists>n p. utf8_valid n \<and> sealed_entry X oek (fst f) n p (snd f))"
    using assms(5,6) by (fastforce simp: sealed_for_def list_all_iff file_ok_def)
  moreover have "length oek = SUBKEY_LEN" using assms(3) by (simp add: keys_live_def)
  ultimately have "\<exists>w' s'. rekey_entries X oek fs ?w s2 = (Inr (), w', s')"
    using empty assms(7) by (intro rekey_entries_works [OF assms(1) _ _ live]) (simp_all add: MAX_INDEX_ENTRIES_def)
  then obtain w' s' where run: "rekey_entries X oek fs ?w s2 = (Inr (), w', s')" by blast
  obtain m where "decrypt_entry X oek k bad = Inl (CorruptedData m)"
    using decrypt_short_name [OF assms(10)] by blast
  with run have "rekey_entries X oek (files (index v)) ?w s2 = (Inl (CorruptedData m), w', s')"
    by (simp add: assms(4) rekey_entries_append)
  with h(1) mk idx old show thesis by (intro that) (simp add: rekey_def Let_def)
qed

lemma undersized_test:
  assumes "test_machine X s"
  shows "\<exists>v s1 hk. create X (ascii ''old-password'') s = (Inr v, s1) \<and>
    secret_bytes s1 (hmac_key (index v)) = Some hk \<and>
    (name_key X hk (ascii ''real'') = Inr bad_entry_key \<or>
     change_password_rejects_entry_with_undersized_ciphertext X s)"
proof -
  let ?pw = "ascii ''old-password''" and ?n = "ascii ''real''" and ?p = "ascii ''payload''"
  have env: "env_works X" using assms by (simp add: test_machine_def)
  note laws = env_worksD [OF env]
  obtain v s1 v1 s2 where r: "create X ?pw s = (Inr v, s1)" "store X v s1 ?n ?p = (Inr (), v1, s2)"
    "stands_for X {?n} (s2, v1, ?pw) (?pw, [?n \<mapsto> ?p])" "test_machine X s2"
    by (rule one_entry [OF assms, of ?pw ?n ?p]) (simp_all add: test_lengths)
  have m2: "mem_ok s2" "finite (dom (heap s2))" using r(4) by (simp_all add: test_machine_def)
  obtain v' s1' where "create X ?pw s = (Inr v', s1')" "files (index v') = []"
    by (rule created [OF assms, of ?pw]) (simp_all add: test_lengths)
  with r(1) have none: "files (index v) = []" by simp
  obtain k e where d: "hmac_key_for_name X s1 (index v) ?n = Inr k"
    "files (index v1) = AList.update k e (files (index v))" by (rule store_draws [OF r(2)])
  obtain ek hk where st: "vault_ok s2 v1" "keys_live s2 (index v1) ek hk"
    "password_keys X ?pw (header v1) = Inr (ek, hk)" "sealed_for X ek hk {?n} (files (index v1))"
    "\<forall>n \<in> {?n}. read_secret X ek hk (files (index v1)) n = Inr ([?n \<mapsto> ?p] n)"
    by (rule stands_forD [OF r(3)])
  have live1: "keys_live s1 (index v) ek hk" using store_keys(1) [OF r(2)] st(2) by blast
  have k: "name_key X hk ?n = Inr k" using d(1) by (simp add: keys_live_hmac [OF live1])
  have fs: "files (index v1) = [(k, e)]" using d(2) none by simp
  have ok: "list_all file_ok [(k, e)]" using st(1) fs by (simp add: vault_ok_def index_ok_def files_ok_def)
  have sealed: "sealed_for X ek hk strings [(k, e)]"
  proof -
    have "?n \<in> strings" by (simp add: ascii_def)
    then show ?thesis using st(4) unfolding sealed_for_def fs by blast
  qed
  have hk: "secret_bytes s1 (hmac_key (index v)) = Some hk" using live1 by (simp add: keys_live_def)
  have "change_password_rejects_entry_with_undersized_ciphertext X s" if ne: "k \<noteq> bad_entry_key"
  proof -
    define bad where "bad = \<lparr>data_counter = 0, encrypted_name = replicate 3 (0 :: 8 word), encrypted_data = replicate 40 0\<rparr>"
    define v2 where "v2 = v1\<lparr>index := (index v1)\<lparr>files := snd (hm_insert bad_entry_key bad (files (index v1)))\<rparr>\<rparr>"
    have files: "files (index v2) = [(k, e)] @ [(bad_entry_key, bad)]"
      using ne by (simp add: v2_def hm_insert_def fs)
    have live2: "keys_live s2 (index v2) ek hk" using st(2) by (simp add: v2_def keys_live_def)
    obtain t s4 where rk: "rekey X v2 s2 (ascii ''new-password'') = (Inl (CorruptedData t), v2, s4)"
      by (rule rekey_refuses_short_name [OF env m2(1) live2 files sealed ok, of "ascii ''new-password''"])
        (simp_all add: m2(2) bad_def MAX_INDEX_ENTRIES_def XCHACHA20_NONCE_LEN_def)
    have "verify_password X v2 s2 ?pw = Inr ()"
      unfolding verify_password_iff [OF laws(8) live2] using st(3) by (simp add: v2_def)
    with rk have cp: "change_password X v2 s2 ?pw (ascii ''new-password'') = (Inl (CorruptedData t), v2, s4)"
      by (simp add: change_password_def validate_password_def test_lengths)
    have live4: "keys_live s4 (index v2) ek hk"
      using live2 rekey_err(3) [OF laws(1) m2(1) rk] by (simp add: keys_live_def)
    have "read_secret X ek hk (files (index v2)) ?n = read_secret X ek hk (files (index v1)) ?n"
      using k ne by (intro read_secret_cong) (simp add: files fs)
    then have "retrieve X v2 s4 ?n = Inr (Some ?p)"
      using st(5) by (simp add: retrieve_eq [OF live4])
    then show ?thesis
      using cp by (simp add: change_password_rejects_entry_with_undersized_ciphertext_def r(1,2)
          flip: bad_def v2_def)
  qed
  with r(1) hk k show ?thesis by auto
qed

end
