(* ===== verification/SmapsTests.thy ===== *)
theory SmapsTests
  imports UnitTests
begin

text \<open>
  The test of \<open>src/mem/locked_secret.rs\<close> that asks the kernel, through \<open>/proc/self/smaps\<close>, whether
  a region is still locked after its neighbour has been dropped. The text of that file in a state
  of the process is a parameter; its format, as proc(5) documents it, is \<open>smaps_lists\<close>. The first
  section has the operations on \<open>&str\<close> the test uses.
\<close>

section \<open>Strings\<close>

text \<open>\<open>lines\<close>: a line ends with a line feed, which a carriage return may precede.\<close>

fun text_lines :: "bytes \<Rightarrow> bytes list" where
  "text_lines [] = []"
| "text_lines [b] = (if b = 10 then [[]] else [[b]])"
| "text_lines (b # c # bs) =
     (if b = 10 then [] # text_lines (c # bs)
      else if b = 13 \<and> c = 10 then [] # text_lines bs
      else case text_lines (c # bs) of [] \<Rightarrow> [[b]] | l # ls \<Rightarrow> (b # l) # ls)"

fun split_once :: "byte \<Rightarrow> bytes \<Rightarrow> (bytes \<times> bytes) option" where
  "split_once c [] = None"
| "split_once c (b # bs) =
     (if b = c then Some ([], bs) else map_option (\<lambda>(x, y). (b # x, y)) (split_once c bs))"

definition strip_prefix :: "bytes \<Rightarrow> bytes \<Rightarrow> bytes option" where
  "strip_prefix pre s = (if take (length pre) s = pre then Some (drop (length pre) s) else None)"

definition is_whitespace :: "byte \<Rightarrow> bool" where
  "is_whitespace b \<longleftrightarrow> 9 \<le> b \<and> b \<le> 13 \<or> b = 32"

fun split_at_whitespace :: "bytes \<Rightarrow> bytes list" where
  "split_at_whitespace [] = [[]]"
| "split_at_whitespace (b # bs) =
     (if is_whitespace b then [] # split_at_whitespace bs
      else case split_at_whitespace bs of [] \<Rightarrow> [[b]] | w # ws \<Rightarrow> (b # w) # ws)"

definition split_whitespace :: "bytes \<Rightarrow> bytes list" where
  "split_whitespace s = filter (\<lambda>w. w \<noteq> []) (split_at_whitespace s)"

text \<open>\<open>usize::from_str_radix(s, 16)\<close>: digits of either case, a plus sign before them, no overflow.\<close>

definition any_hex_digit :: "byte \<Rightarrow> nat option" where
  "any_hex_digit c =
     (if 48 \<le> c \<and> c \<le> 57 then Some (unat c - 48)
      else if 97 \<le> c \<and> c \<le> 102 then Some (unat c - 87)
      else if 65 \<le> c \<and> c \<le> 70 then Some (unat c - 55)
      else None)"

fun hex_digits :: "nat \<Rightarrow> bytes \<Rightarrow> nat option" where
  "hex_digits n [] = Some n"
| "hex_digits n (c # cs) =
     (case any_hex_digit c of
        None \<Rightarrow> None
      | Some d \<Rightarrow> if n * 16 + d < 2 ^ 64 then hex_digits (n * 16 + d) cs else None)"

definition usize_from_hex :: "bytes \<Rightarrow> nat option" where
  "usize_from_hex s =
     (case s of [] \<Rightarrow> None | c # cs \<Rightarrow> if c = 43 \<and> cs \<noteq> [] then hex_digits 0 cs else hex_digits 0 s)"

section \<open>The test\<close>

text \<open>The range a line of the file starts with, if it is the first line of a mapping.\<close>

definition header_range :: "bytes \<Rightarrow> (nat \<times> nat) option" where
  "header_range line =
     Option.bind (split_once 32 line) (\<lambda>(range, _).
     Option.bind (split_once 45 range) (\<lambda>(start_text, end_text).
     Option.bind (usize_from_hex start_text) (\<lambda>start.
     map_option (\<lambda>stop. (start, stop)) (usize_from_hex end_text))))"

fun scan_lines :: "nat \<Rightarrow> bool \<Rightarrow> bytes list \<Rightarrow> bool option" where
  "scan_lines addr in_range [] = None"
| "scan_lines addr in_range (line # ls) =
     (case header_range line of
        Some (start, stop) \<Rightarrow> scan_lines addr (start \<le> addr \<and> addr < stop) ls
      | None \<Rightarrow>
          (case (if in_range then strip_prefix (ascii ''VmFlags:'') line else None) of
             Some flags \<Rightarrow> Some (list_ex (\<lambda>f. f = ascii ''lo'') (split_whitespace flags))
           | None \<Rightarrow> scan_lines addr in_range ls))"

text \<open>\<open>None\<close> is a panic: the file cannot be read, or no mapping contains the address.\<close>

definition mapping_is_locked :: "bytes option \<Rightarrow> nat \<Rightarrow> bool option" where
  "mapping_is_locked smaps addr =
     Option.bind smaps (\<lambda>text. scan_lines addr False (text_lines text))"

definition dropping_one_container_keeps_the_other_locked ::
  "'w externals \<Rightarrow> ('w sys \<Rightarrow> bytes option) \<Rightarrow> 'w sys \<Rightarrow> bool" where
  "dropping_one_container_keeps_the_other_locked X smaps s \<longleftrightarrow>
     unwrap_with (locked_secret_new X (replicate 32 1) s) (\<lambda>a s1.
     unwrap_with (locked_secret_new X (replicate 32 2) s1) (\<lambda>b s2.
     let addr_b = secret_addr b in
     mapping_is_locked (smaps s2) addr_b = Some True \<and>
     (let s3 = locked_secret_drop X a s2 in
      mapping_is_locked (smaps s3) addr_b = Some True \<and>
      with_bytes s3 b (\<lambda>bs. bs = replicate 32 2))))"

section \<open>The file\<close>

text \<open>
  A mapping: the line with its range and permissions, lines about its size, and a line with its
  flags. The last byte of the address space is never mapped.
\<close>

record mapping =
  start_text :: bytes
  end_text :: bytes
  permissions :: bytes
  details :: "bytes list"
  flags :: bytes

definition mapping_text :: "mapping \<Rightarrow> bytes" where
  "mapping_text m = start_text m @ 45 # end_text m @ 32 # permissions m @ 10 #
     concat (map (\<lambda>d. d @ [10]) (details m)) @ ascii ''VmFlags:'' @ flags m @ [10]"

definition one_line :: "bytes \<Rightarrow> bool" where
  "one_line s \<longleftrightarrow> 10 \<notin> set s \<and> 13 \<notin> set s"

definition mapping_ok :: "mapping \<Rightarrow> bool" where
  "mapping_ok m \<longleftrightarrow> usize_from_hex (start_text m) \<noteq> None \<and> usize_from_hex (end_text m) \<noteq> None \<and>
     one_line (permissions m) \<and> one_line (flags m) \<and>
     list_all (\<lambda>d. one_line d \<and> header_range d = None \<and> strip_prefix (ascii ''VmFlags:'') d = None)
       (details m)"

definition covers :: "mapping \<Rightarrow> nat \<Rightarrow> bool" where
  "covers m p \<longleftrightarrow>
     the (usize_from_hex (start_text m)) \<le> p \<and> p < the (usize_from_hex (end_text m))"

definition locked_mapping :: "mapping \<Rightarrow> bool" where
  "locked_mapping m \<longleftrightarrow> ascii ''lo'' \<in> set (split_whitespace (flags m))"

definition smaps_lists :: "('w sys \<Rightarrow> bytes option) \<Rightarrow> bool" where
  "smaps_lists smaps \<longleftrightarrow>
     (\<forall>s. \<exists>ms. smaps s = Some (concat (map mapping_text ms)) \<and> list_all mapping_ok ms \<and>
        (\<forall>p \<in> locked s. p < 2 ^ 64 - 1 \<longrightarrow>
           list_ex (\<lambda>m. covers m p) ms \<and> list_all (\<lambda>m. covers m p \<longrightarrow> locked_mapping m) ms))"

section \<open>Reading it\<close>

lemma text_lines_line: "one_line l \<Longrightarrow> text_lines (l @ 10 # bs) = l # text_lines bs"
proof (induction l)
  case Nil
  then show ?case by (cases bs) simp_all
next
  case (Cons b l)
  then have "one_line l" "b \<noteq> 10" "b \<noteq> 13" by (simp_all add: one_line_def)
  with Cons.IH show ?case by (cases "l @ 10 # bs") simp_all
qed

lemma text_lines_lines:
  "list_all one_line ls \<Longrightarrow> text_lines (concat (map (\<lambda>d. d @ [10]) ls) @ bs) = ls @ text_lines bs"
  by (induction ls) (simp_all add: text_lines_line)

lemma split_once_at: "c \<notin> set x \<Longrightarrow> split_once c (x @ c # y) = Some (x, y)"
  by (induction x) auto

lemma strip_prefix_append [simp]: "strip_prefix pre (pre @ s) = Some s"
  by (simp add: strip_prefix_def)

text \<open>A number holds none of the bytes that delimit it.\<close>

lemma hex_digits_bytes: "hex_digits n s = Some k \<Longrightarrow> b \<in> set s \<Longrightarrow> any_hex_digit b \<noteq> None"
  by (induction s arbitrary: n) (auto split: option.splits if_splits)

lemma usize_from_hex_bytes:
  assumes "usize_from_hex s = Some k" "b \<in> set s"
  shows "b = 43 \<or> any_hex_digit b \<noteq> None"
proof (cases s)
  case (Cons c cs)
  then have "c = 43 \<and> hex_digits 0 cs = Some k \<or> hex_digits 0 s = Some k"
    using assms(1) by (simp add: usize_from_hex_def split: if_splits)
  moreover have "b = c \<or> b \<in> set cs" using Cons assms(2) by simp
  ultimately show ?thesis
    using hex_digits_bytes [of 0 cs k b] hex_digits_bytes [of 0 s k b] assms(2) by blast
qed (use assms(2) in simp)

lemma usize_from_hex_plain:
  assumes "usize_from_hex s = Some k"
  shows "45 \<notin> set s" "32 \<notin> set s" "one_line s"
  using usize_from_hex_bytes [OF assms] by (force simp: any_hex_digit_def one_line_def)+

lemma split_once_append: "split_once c s = Some (x, y) \<Longrightarrow> s = x @ c # y"
  by (induction s arbitrary: x) (auto split: if_splits)

text \<open>The first line of a mapping starts with a digit.\<close>

lemma header_range_starts:
  assumes "header_range (b # line) = Some r"
  shows "b = 43 \<or> any_hex_digit b \<noteq> None"
proof -
  obtain range rest x y k where "split_once 32 (b # line) = Some (range, rest)"
    "split_once 45 range = Some (x, y)" "usize_from_hex x = Some k"
    using assms by (auto simp: header_range_def bind_eq_Some_conv)
  moreover from this have "b # line = (x @ 45 # y) @ 32 # rest" by (metis split_once_append)
  moreover have "x \<noteq> []" using \<open>usize_from_hex x = Some k\<close> by (auto simp: usize_from_hex_def)
  ultimately have "b \<in> set x" by (cases x) simp_all
  then show ?thesis by (rule usize_from_hex_bytes [OF \<open>usize_from_hex x = Some k\<close>])
qed

text \<open>The lines of a mapping, and what they tell the scanner.\<close>

lemma mapping_lines:
  assumes "mapping_ok m"
  shows "text_lines (mapping_text m @ bs) =
    (start_text m @ 45 # end_text m @ 32 # permissions m) # details m @
    (ascii ''VmFlags:'' @ flags m) # text_lines bs"
    "header_range (start_text m @ 45 # end_text m @ 32 # permissions m) =
      Some (the (usize_from_hex (start_text m)), the (usize_from_hex (end_text m)))"
    "header_range (ascii ''VmFlags:'' @ flags m) = None"
proof -
  obtain x y where xy: "usize_from_hex (start_text m) = Some x" "usize_from_hex (end_text m) = Some y"
    using assms by (auto simp: mapping_ok_def)
  note plain = usize_from_hex_plain [OF xy(1)] usize_from_hex_plain [OF xy(2)]
  have "one_line (start_text m @ 45 # end_text m @ 32 # permissions m)"
    "one_line (ascii ''VmFlags:'' @ flags m)" "list_all one_line (details m)"
    using assms plain by (auto simp: mapping_ok_def one_line_def list_all_iff ascii_def)
  from text_lines_line [OF this(1)] text_lines_lines [OF this(3)] text_lines_line [OF this(2)]
  show "text_lines (mapping_text m @ bs) =
    (start_text m @ 45 # end_text m @ 32 # permissions m) # details m @
    (ascii ''VmFlags:'' @ flags m) # text_lines bs"
    by (simp add: mapping_text_def)
  have "split_once 32 (start_text m @ 45 # end_text m @ 32 # permissions m) =
      Some (start_text m @ 45 # end_text m, permissions m)"
    using split_once_at [of 32 "start_text m @ 45 # end_text m" "permissions m"] plain by simp
  then show "header_range (start_text m @ 45 # end_text m @ 32 # permissions m) =
      Some (the (usize_from_hex (start_text m)), the (usize_from_hex (end_text m)))"
    using plain(1) by (simp add: header_range_def split_once_at xy)
  show "header_range (ascii ''VmFlags:'' @ flags m) = None"
    using header_range_starts [of 86 "tl (ascii ''VmFlags:'') @ flags m"]
    by (cases "header_range (ascii ''VmFlags:'' @ flags m)") (auto simp: ascii_def any_hex_digit_def)
qed

lemma scan_details:
  assumes "list_all (\<lambda>d. header_range d = None \<and> strip_prefix (ascii ''VmFlags:'') d = None) ds"
  shows "scan_lines p b (ds @ ls) = scan_lines p b ls"
  using assms by (induction ds arbitrary: b) simp_all

lemma scan_mapping:
  assumes "mapping_ok m"
  shows "scan_lines p b (text_lines (mapping_text m @ bs)) =
    (if covers m p then Some (locked_mapping m) else scan_lines p False (text_lines bs))"
proof -
  note m = mapping_lines [OF assms]
  have "list_all (\<lambda>d. header_range d = None \<and> strip_prefix (ascii ''VmFlags:'') d = None) (details m)"
    using assms by (simp add: mapping_ok_def list_all_iff)
  note details = scan_details [OF this]
  show ?thesis
  proof (cases "covers m p")
    case True
    then show ?thesis by (simp add: m details covers_def locked_mapping_def list_ex_iff)
  next
    case False
    then have "\<not> (the (usize_from_hex (start_text m)) \<le> p \<and> p < the (usize_from_hex (end_text m)))"
      by (simp only: covers_def not_False_eq_True)
    with False show ?thesis by (simp only: m details scan_lines.simps option.case prod.case if_False)
  qed
qed

text \<open>The scanner finds the first mapping that contains the address.\<close>

lemma scan_mappings:
  assumes "list_all mapping_ok ms" "list_ex (\<lambda>m. covers m p) ms"
    and "list_all (\<lambda>m. covers m p \<longrightarrow> locked_mapping m) ms"
  shows "scan_lines p b (text_lines (concat (map mapping_text ms))) = Some True"
  using assms by (induction ms arbitrary: b) (auto simp: scan_mapping)

lemma locked_is_listed:
  assumes "smaps_lists smaps" "p \<in> locked s" "p < 2 ^ 64 - 1"
  shows "mapping_is_locked (smaps s) p = Some True"
proof -
  obtain ms where "smaps s = Some (concat (map mapping_text ms))" "list_all mapping_ok ms"
    "list_ex (\<lambda>m. covers m p) ms" "list_all (\<lambda>m. covers m p \<longrightarrow> locked_mapping m) ms"
    using assms unfolding smaps_lists_def by blast
  then show ?thesis by (simp add: mapping_is_locked_def scan_mappings)
qed

text \<open>The second region is at an address the file can list.\<close>

definition in_address_space :: "'w externals \<Rightarrow> 'w sys \<Rightarrow> bool" where
  "in_address_space X s \<longleftrightarrow>
     (case locked_secret_new X (replicate 32 1) s of (a, s1) \<Rightarrow>
      case locked_secret_new X (replicate 32 2) s1 of
        (Inr b, s2) \<Rightarrow> secret_addr b < 2 ^ 64 - 1
      | (Inl e, s2) \<Rightarrow> True)"

lemma dropping_one_passes:
  assumes "env_works X" "finite (dom (heap s))" "smaps_lists smaps" "in_address_space X s"
  shows "dropping_one_container_keeps_the_other_locked X smaps s"
proof -
  note new = locked_secret_new_ok [OF env_worksD(6) [OF assms(1)]]
  obtain a t1 where a: "locked_secret_new X (replicate 32 1) s = (Inr a, t1)" "finite (dom (heap t1))"
    by (rule locked_secret_works [OF assms(1) _ assms(2), of "replicate 32 1"]) simp_all
  obtain b t2 where b: "locked_secret_new X (replicate 32 2) t1 = (Inr b, t2)"
    by (rule locked_secret_works [OF assms(1) _ a(2), of "replicate 32 2"]) simp_all
  have small: "secret_addr b < 2 ^ 64 - 1" using assms(4) by (simp add: in_address_space_def a(1) b)
  have "secret_addr a \<noteq> secret_addr b" using new(3) [OF a(1)] new(2) [OF b] by auto
  then have "secret_addr b \<in> locked (locked_secret_drop X a t2)" "secret_addr b \<in> locked t2"
    "secret_bytes (locked_secret_drop X a t2) b = Some (replicate 32 2)"
    by (simp_all add: locked_secret_drop_effect secret_bytes_def new(3,4) [OF b])
  with locked_is_listed [OF assms(3) _ small] show ?thesis
    by (simp add: dropping_one_container_keeps_the_other_locked_def a(1) b Let_def)
qed

section \<open>A listing\<close>

text \<open>One locked mapping of the whole address space lists every region.\<close>

definition sample_mapping :: mapping where
  "sample_mapping = \<lparr>start_text = ascii ''0000000000000000'', end_text = ascii ''ffffffffffffffff'',
     permissions = ascii ''rw-p 00000000 00:00 0'', details = [ascii ''Size:   132 kB'', ascii ''Locked: 132 kB''],
     flags = ascii '' rd wr lo dd ''\<rparr>"

definition sample_smaps :: "'w sys \<Rightarrow> bytes option" where
  "sample_smaps s = Some (mapping_text sample_mapping)"

lemma sample_smaps_lists: "smaps_lists sample_smaps"
proof -
  have "usize_from_hex (ascii ''0000000000000000'') = Some 0"
    "usize_from_hex (ascii ''ffffffffffffffff'') = Some (2 ^ 64 - 1)"
    by (simp_all add: usize_from_hex_def ascii_def any_hex_digit_def)
  moreover have "locked_mapping sample_mapping"
    by (simp add: locked_mapping_def sample_mapping_def split_whitespace_def ascii_def is_whitespace_def)
  moreover have "header_range (ascii ''Size:   132 kB'') = None" "header_range (ascii ''Locked: 132 kB'') = None"
    by (simp_all add: header_range_def ascii_def)
  ultimately have "mapping_ok sample_mapping" "locked_mapping sample_mapping"
    "p < 2 ^ 64 - 1 \<Longrightarrow> covers sample_mapping p" for p
    by (simp_all add: mapping_ok_def covers_def sample_mapping_def one_line_def strip_prefix_def ascii_def)
  then show ?thesis
    unfolding smaps_lists_def sample_smaps_def by (intro allI exI [of _ "[sample_mapping]"]) simp
qed

end
