(* ===== verification/TestProperties.thy ===== *)
theory TestProperties
  imports IndexJsonTests FreshTests DocTests SmapsTests ProgramProperties "HOL-Library.Countable" "HOL-Library.List_Lexorder"
    "HOL-Library.Char_ord"
begin

text \<open>
  The properties that state what the unit tests of the repository come to: those that pass on every
  machine whose libraries work, those that forge a file and pass exactly when the cipher refuses the
  forged bytes, those that write JSON, and those that expect values to differ. The witnesses run on
  \<open>working\<close>, and for JSON on \<open>json_working\<close>, which reads a toy form of it.
\<close>

section \<open>The unit tests\<close>

text \<open>The tests that use several entry names; the caps are reached with generated names.\<close>

definition names_of_tests :: "byte list set list" where
  "names_of_tests = [{ascii ''key1'', ascii ''key2'', ascii ''key3''},
     {ascii ''a'', ascii ''b'', ascii ''c'', ascii ''d''},
     insert (ascii ''one-too-many'') (entry_name ` {..<MAX_INDEX_ENTRIES}),
     insert (ascii ''one-more'') (k_name ` {..<MAX_INDEX_ENTRIES}),
     {ascii ''file_a.txt'', ascii ''file_b.txt''}, {ascii ''a'', ascii ''b''},
     {ascii ''api_key'', ascii ''db_url''}]"

text \<open>C37: The unit tests of the program that do not depend on the strength of the cryptography, and
  the two examples of its documentation, pass on every machine whose libraries do their work: those
  of the codec always, the others in every process state, whatever bytes the generator delivers and
  wherever memory is allocated. Tests that need more are given it: the HMAC separates the names of
  the tests that use several, and in the directories of the tests that save a file no temporary
  file is in the way, and the kernel lists the locked mappings of the process.\<close>

theorem unit_tests_pass:
  assumes "env_works X" "mem_ok s" "finite (dom (heap s))" "braces_are_not_json X"
    and "list_all (names_separated X) names_of_tests"
    and "\<And>suffix. tree fs (resolve (save_tmp_path (path_join dir ''vault.seal'') suffix)) = None"
    and "\<And>suffix. tree fs (resolve (save_tmp_path (Path False [''vault.seal'']) suffix)) = None"
    and "smaps_lists smaps" "in_address_space X s"
  shows "list_all (\<lambda>test. test)
      [hex_roundtrip_and_rejection, decode_empty_index, decode_rejects_wrong_version,
       decode_rejects_truncation_at_every_byte, decode_rejects_trailing_bytes,
       decode_rejects_entry_count_over_cap_and_over_remaining_bytes,
       decode_rejects_ciphertext_lengths_outside_bounds, decode_accepts_lengths_at_bounds,
       decode_rejects_duplicate_keys, creates_vault_header_with_correct_parameters,
       entry_zeroize_clears_ciphertext_fields, header_validation_rejects_extreme_memory,
       header_validation_rejects_zero_iterations, header_validation_rejects_wrong_version,
       header_validation_rejects_wrong_key_length, header_validation_rejects_below_minimum_memory,
       header_validation_rejects_iterations_above_max,
       header_validation_rejects_iterations_below_min,
       header_validation_accepts_inclusive_bounds_and_defaults, export_size_validation_boundary] \<and>
    list_all (\<lambda>test. test X) [ciphertext_too_short_fails, different_headers_produce_different_aad,
       to_aad_bytes_is_deterministic] \<and>
    list_all (\<lambda>test. test X s)
      [secure_bytes_fill_returns_error_for_empty_buffer, seal_and_open_roundtrip,
       empty_plaintext_works, locked_secret_roundtrip, with_bytes_returns_closure_value,
       empty_secret_is_rejected,
       debug_output_is_redacted,
       from_master_key_starts_with_counters_at_zero, insert_and_lookup_roundtrip,
       lookup_missing_returns_none, map_keys_are_hex_hmacs_not_plaintext, hmac_is_deterministic,
       remove_by_key_works, advance_nonce_overflow, data_nonce_counter_overflow,
       overwrite_keeps_one_entry_and_is_allowed_at_the_cap,
       insert_at_cap_allows_overwrite_but_rejects_new_entry, encode_is_compact, from_subkeys_and_data_rejects_counter_not_ahead_of_entries,
       from_subkeys_and_data_accepts_counter_ahead_of_entries,
       from_subkeys_and_data_accepts_empty_files_with_zero_counter,
       extract_enc_key_returns_32_bytes_for_valid_subkey, extract_enc_key_rejects_wrong_length_subkey,
       create_and_export_open_roundtrip, store_and_retrieve_roundtrip,
       with_secret_borrows_plaintext_and_returns_callback_value,
       with_secret_missing_does_not_invoke_callback, with_secret_supports_empty_plaintext,
       with_secret_preserves_fallible_callback_result, retrieve_missing_returns_none,
       remove_returns_true_for_existing, remove_returns_false_for_missing, multiple_entries,
       empty_vault_roundtrip, store_empty_data, change_password_rejects_short_new_password,
       short_password_rejected, long_entry_name_rejected,
       full_vault_rejects_new_name_as_invalid_input, export_rejects_vault_exceeding_max_file_size,
       header_len_overflow_rejected,
       parse_envelope_splits_a_valid_export, open_rejects_empty_input,
       open_rejects_input_below_header_len_field, open_rejects_zero_header_len,
       open_rejects_header_len_exceeding_available_bytes,
       open_rejects_header_len_above_cap_before_parsing,
       open_accepts_header_len_at_cap_then_fails_on_json,
       open_rejects_truncation_inside_nonce_region, open_rejects_missing_ciphertext_after_nonce,
       open_rejects_malformed_header_json, open_rejects_data_above_file_size_cap,
       open_accepts_index_at_entry_cap, open_rejects_index_over_entry_cap,
       open_rejects_entry_name_ciphertext_over_bound, open_accepts_entry_ciphertexts_at_bound,
       open_rejects_index_with_trailing_bytes, multiple_exports_produce_different_ciphertext,
       different_names_produce_different_keys, encode_decode_roundtrip, concurrent_reads, quick_start] \<and>
    save_and_load_roundtrip X fs dir s \<and> file_persistence X fs s \<and>
    dropping_one_container_keeps_the_other_locked X smaps s"
proof -
  have m: "test_machine X s" using assms(1-3) by (simp add: test_machine_def)
  note json = env_worksD(9) [OF assms(1)]
  note closed = codec_tests_pass policy_tests_pass header_tests_pass [OF json]
    crypto_tests_pass [where X = X, simplified assms(1) simp_thms]
  note lower = locked_secret_tests_pass [OF assms(1,3)] dropping_one_passes [OF assms(1,3,8,9)] index_tests_pass [OF assms(1-3)]
    from_subkeys_tests_pass [OF assms(1,3)]
  note facade = extract_tests_pass [OF m] roundtrip_tests_pass [OF m] remove_tests_pass [OF m]
    refusal_tests_pass [OF m] save_and_load_passes [OF m assms(6)]
  have names: "names_separated X {ascii ''key1'', ascii ''key2'', ascii ''key3''}"
    "names_separated X {ascii ''a'', ascii ''b'', ascii ''c'', ascii ''d''}"
    "names_separated X (insert (ascii ''one-too-many'') (entry_name ` {..<MAX_INDEX_ENTRIES}))"
    "names_separated X (insert (ascii ''one-more'') (k_name ` {..<MAX_INDEX_ENTRIES}))"
    "names_separated X {ascii ''file_a.txt'', ascii ''file_b.txt''}"
    "names_separated X {ascii ''a'', ascii ''b''}"
    "names_separated X {ascii ''api_key'', ascii ''db_url''}"
    using assms(5) by (simp_all only: names_of_tests_def list.pred_inject simp_thms)
  note caps = multiple_entries_passes [OF m names(1)] size_cap_test_passes [OF m names(2)]
    index_cap_tests_pass [OF m names(3)] full_vault_test_passes [OF m names(4)]
  note tamper = raw_tests_pass [OF json] brace_tests_pass [OF json assms(4)] cut_tests_pass [OF m]
    malformed_test_passes [OF m assms(4)] split_test_passes [OF m] forge_tests_pass [OF m]
  note derived = aad_test_passes [OF assms(1,4)] exports_differ [OF m]
    different_names_passes [OF m names(5)] encode_decode_passes [OF m names(6)]
    quick_start_passes [OF m names(7)] file_persistence_passes [OF m assms(7)] pages_and_threads(1) [OF m]
  show ?thesis
    by (simp only: list.pred_inject simp_thms closed lower facade caps tamper derived)
qed

lemma working_separates:
  assumes "\<forall>n \<in> N. length n \<le> 31"
  shows "names_separated working N"
  using assms
  by (auto simp: names_separated_def names_apart_def name_key_def working_fields sample_fields
      key_to_hex_inject intro: working_tag_inject)

theorem unit_tests_pass_witness:
  "store_and_retrieve_roundtrip working sample_sys \<and> multiple_entries working sample_sys \<and>
   quick_start working sample_sys \<and>
   dropping_one_container_keeps_the_other_locked working sample_smaps sample_sys"
proof -
  have "length (entry_name i) \<le> 31" "length (k_name i) \<le> 31" for i
    using length_dec [of i] by (simp_all add: entry_name_eq k_name_eq)
  then have sep: "list_all (names_separated working) names_of_tests"
    unfolding names_of_tests_def list.pred_inject simp_thms
    by (intro conjI working_separates) auto
  have json: "braces_are_not_json working" by (auto simp: braces_are_not_json_def working_def)
  let ?fs = "restarted Map.empty"
  have space: "in_address_space working sample_sys"
    by (simp add: in_address_space_def locked_secret_new_def locked_region_new_def mem_defs working_def
        sample_sys_def next_addr_def)
  from unit_tests_pass [OF working_env sample_mem_ok sample_heap_finite json sep _ _ sample_smaps_lists space,
      of ?fs current_dir]
  show ?thesis by (simp add: restarted_def)
qed

section \<open>Forged files\<close>

text \<open>C38: The tests that forge a vault file (a flipped bit of the nonce, the ciphertext or the tag, a
  stripped tag, appended bytes, the header of another vault, a replayed nonce) or give a wrong
  password pass exactly when the cipher refuses the index of the forged file: nothing in the parser,
  the derivation of the keys or the order of the checks lets such a file in or reports it as
  anything else. The wrong current password of \<open>change_password\<close> is refused, without side effects,
  exactly when it derives another encryption key. A test that asks for any error, or for the old
  password to fail after a change, passes unless the cipher accepts.\<close>

theorem forged_files_refused:
  assumes "env_works X" "mem_ok s" "finite (dom (heap s))"
    and "\<And>suffix. tree fs (resolve (save_tmp_path (path_join dir ''vault.seal'') suffix)) = None"
  shows "list_all (passes_iff_refused X)
      [(open_rejects_bit_flipped_nonce X s,
        make_valid_export X (ascii ''password-iiii'') s, ascii ''password-iiii'',
        \<lambda>valid. valid[4 + header_len_of valid := valid ! (4 + header_len_of valid) XOR 0x01]),
       (open_rejects_bit_flip_in_ciphertext_body X s,
        make_valid_export X (ascii ''password-llll'') s, ascii ''password-llll'',
        \<lambda>valid. valid[ciphertext_offset valid := valid ! ciphertext_offset valid XOR 0x01]),
       (open_rejects_bit_flip_in_poly1305_tag X s,
        make_valid_export X (ascii ''password-mmmm'') s, ascii ''password-mmmm'',
        \<lambda>valid. valid[length valid - 8 := valid ! (length valid - 8) XOR 0x40]),
       (current_format_export_does_not_carry_the_legacy_counter X s,
        make_valid_export X (ascii ''password-v2-layout'') s, ascii ''password-v2-layout'',
        \<lambda>valid. valid[ciphertext_offset valid := valid ! ciphertext_offset valid XOR 0xFF]),
       (open_rejects_ciphertext_with_tag_stripped X s,
        make_valid_export X (ascii ''password-nnnn'') s, ascii ''password-nnnn'',
        \<lambda>valid. take (length valid - 16) valid),
       (open_rejects_ciphertext_with_trailing_garbage_appended X s,
        make_valid_export X (ascii ''password-oooo'') s, ascii ''password-oooo'',
        \<lambda>valid. valid @ [0xAB, 0xCD, 0xEF]),
       (wrong_password_fails_open X s,
        new_export X (ascii ''correct-pw'') s, ascii ''wrong-pw!'', \<lambda>file. file),
       (load_wrong_password_fails X fs dir s,
        new_export X (ascii ''correct!'') s, ascii ''wrong!!!'', \<lambda>file. file)] \<and>
    (\<exists>a s1. make_valid_export X (ascii ''shared-password'') s = (Inr a, s1) \<and>
       passes_iff_refused X (open_rejects_cross_vault_header_swap X s,
         make_valid_export X (ascii ''shared-password'') s1, ascii ''shared-password'',
         \<lambda>b. replace_header_json b (take (header_len_of a) (drop 4 a)))) \<and>
    (\<exists>v s1 v1 s2 e1 v2 s3 e2 v3 s4. create X (ascii ''password-kkkk'') s = (Inr v, s1) \<and>
       store X v s1 (ascii ''k'') (ascii ''v'') = (Inr (), v1, s2) \<and>
       export X v1 s2 = (Inr e1, v2, s3) \<and> export X v2 s3 = (Inr e2, v3, s4) \<and>
       (open_rejects_replaying_old_nonce_into_new_export X s \<longleftrightarrow>
          nonce (index v3) \<noteq> nonce (index v2) \<and>
          \<not> index_opens X (ascii ''password-kkkk'')
             (copy_into (4 + header_len_of e2) (nonce (index v2)) e2))) \<and>
    (\<exists>v s1 v1 s2 ek. create X (ascii ''real-pwd!'') s = (Inr v, s1) \<and>
       store X v s1 (ascii ''key'') (ascii ''value'') = (Inr (), v1, s2) \<and>
       secret_bytes s2 (enc_key (index v1)) = Some ek \<and>
       (change_password_wrong_current_fails_without_side_effects X s \<longleftrightarrow>
          (\<forall>hk. password_keys X (ascii ''wrong!!!'') (header v1) \<noteq> Inr (ek, hk)))) \<and>
    (\<exists>exported s1. new_export X (ascii ''password'') s = (Inr exported, s1) \<and>
       (index_opens X (ascii ''password'') (butlast exported @ [last exported XOR 0xFF]) \<or>
        tampered_export_fails_open X s)) \<and>
    (\<exists>v s1 v1 s2 v2 s3 exported v3 s4. create X (ascii ''old-password'') s = (Inr v, s1) \<and>
       store X v s1 (ascii ''key'') (ascii ''preserved-value'') = (Inr (), v1, s2) \<and>
       change_password X v1 s2 (ascii ''old-password'') (ascii ''new-password'') = (Inr (), v2, s3) \<and>
       export X v2 s3 = (Inr exported, v3, s4) \<and>
       (index_opens X (ascii ''old-password'') exported \<or>
        change_password_then_retrieve_by_name X s))"
proof -
  have m: "test_machine X s" using assms(1-3) by (simp add: test_machine_def)
  note tuples = flip_tests [OF m] length_tests [OF m] wrong_password_test [OF m]
    load_wrong_password_test [OF m assms(4)]
  show ?thesis
    by (intro conjI) (simp_all only: list.pred_inject simp_thms tuples header_swap_test [OF m],
      (rule replay_test [OF m]; blast), (rule wrong_current_test [OF m]; blast),
      (rule tampered_export_test [OF m]; blast), (rule change_then_retrieve_test [OF m]; blast))
qed

text \<open>On \<open>working\<close> the wrong password derives another key.\<close>

theorem forged_files_refused_witness:
  "passes_iff_refused working (wrong_password_fails_open working sample_sys,
     new_export working (ascii ''correct-pw'') sample_sys, ascii ''wrong-pw!'', \<lambda>file. file)"
  using forged_files_refused [OF working_env sample_mem_ok sample_heap_finite,
      of "restarted Map.empty" current_dir]
  by (simp add: restarted_def)

section \<open>A toy form of JSON\<close>

text \<open>
  Values are trees; objects are lists sorted by field name. They are written as a tag, 1 for the
  compact and 2 for the pretty form, and a code in unary. \<open>json_working\<close> reads a header in either
  form, beside the canonical one of \<open>working\<close>.
\<close>

datatype toy_value = Number nat | Text string | Array "toy_value list" |
  Fields "(string \<times> toy_value) list"

instance toy_value :: countable
  by countable_datatype

fun number_of :: "toy_value \<Rightarrow> nat" where
  "number_of (Number n) = n"
| "number_of v = 0"

fun toy_value_header :: "toy_value \<Rightarrow> string + vault_header" where
  "toy_value_header (Fields fs) =
     (case map (map_of fs)
         [''version'', ''kdf_salt'', ''kdf_iterations'', ''kdf_memory_cost'', ''key_length''] of
        [Some (Number v), Some (Array salt), Some (Number i), Some (Number m), Some (Number l)] \<Rightarrow>
          if set (map fst fs) = field_names \<and> length salt = SALT_LEN
          then Inr \<lparr>version = of_nat v, kdf_salt = map (of_nat \<circ> number_of) salt,
            kdf_iterations = of_nat i, kdf_memory_cost = of_nat m, key_length = of_nat l\<rparr>
          else Inl ''unknown field or bad salt''
      | _ \<Rightarrow> Inl ''missing field'')"
| "toy_value_header v = Inl ''not an object''"

definition toy_fields :: "(string \<rightharpoonup> toy_value) \<Rightarrow> toy_value" where
  "toy_fields m = Fields (map (\<lambda>k. (k, the (m k))) (sorted_list_of_set (dom m)))"

definition toy_write :: "byte \<Rightarrow> toy_value \<Rightarrow> bytes" where
  "toy_write tag v = tag # replicate (to_nat v) 0"

definition toy_read :: "bytes \<Rightarrow> string + toy_value" where
  "toy_read b = (if b \<noteq> [] \<and> hd b \<in> {1, 2} then Inr (from_nat (length b - 1)) else Inl ''syntax'')"

definition toy_header_fields :: "vault_header \<Rightarrow> (string \<rightharpoonup> toy_value)" where
  "toy_header_fields h =
     [''version'' \<mapsto> Number (unat (version h)),
      ''kdf_salt'' \<mapsto> Array (map (\<lambda>b. Number (unat b)) (kdf_salt h)),
      ''kdf_iterations'' \<mapsto> Number (unat (kdf_iterations h)),
      ''kdf_memory_cost'' \<mapsto> Number (unat (kdf_memory_cost h)),
      ''key_length'' \<mapsto> Number (unat (key_length h))]"

definition toy_json :: "toy_value json_values" where
  "toy_json =
     \<lparr>parse_value = \<lambda>b. case header_from_json working b of
          Inr h \<Rightarrow> Inr (toy_fields (toy_header_fields h)) | Inl e \<Rightarrow> toy_read b,
      write_value = \<lambda>v. Inr (toy_write 1 v), write_pretty = \<lambda>v. Inr (toy_write 2 v),
      value_header = toy_value_header,
      as_object = \<lambda>v. case v of Fields fs \<Rightarrow> Some (map_of fs) | _ \<Rightarrow> None, of_object = toy_fields,
      of_number = Number, as_number = \<lambda>v. case v of Number n \<Rightarrow> Some n | _ \<Rightarrow> None,
      of_text = Text, of_array = Array,
      as_array = \<lambda>v. case v of Array a \<Rightarrow> Some a | _ \<Rightarrow> None\<rparr>"

text \<open>An index of version 1 is read from its fields.\<close>

definition toy_field :: "toy_value \<Rightarrow> string \<rightharpoonup> toy_value" where
  "toy_field v k = (case v of Fields fs \<Rightarrow> map_of fs k | _ \<Rightarrow> None)"

definition toy_bytes :: "toy_value option \<Rightarrow> bytes option" where
  "toy_bytes v = (case v of Some (Array a) \<Rightarrow> Some (map (of_nat \<circ> number_of) a) | _ \<Rightarrow> None)"

definition toy_member :: "string \<times> toy_value \<Rightarrow> bytes \<times> v1_meta" where
  "toy_member = (\<lambda>(k, v). (ascii k,
     \<lparr>is_dummy = (toy_field v ''is_dummy'' = Some (Number 1)),
      meta_encrypted_data = toy_bytes (toy_field v ''encrypted_data''),
      meta_encrypted_name = toy_bytes (toy_field v ''encrypted_name''),
      meta_data_counter = (case toy_field v ''data_counter'' of None \<Rightarrow> 0 | Some c \<Rightarrow> of_nat (number_of c))\<rparr>))"

definition toy_value_index :: "toy_value \<Rightarrow> string + v1_index" where
  "toy_value_index v =
     (case map (toy_field v) [''version'', ''nonce_counter'', ''data_nonce_counter'', ''files''] of
        [Some (Number ver), Some (Number nc), Some (Number dc), Some (Fields fs)] \<Rightarrow>
          if distinct (map fst fs)
          then Inr \<lparr>v1_version = of_nat ver, v1_nonce_counter = of_nat nc,
            v1_data_nonce_counter = of_nat dc, v1_files = map toy_member fs\<rparr>
          else Inl ''duplicate key''
      | _ \<Rightarrow> Inl ''missing field'')"

definition toy_json_more :: "toy_value json_more" where
  "toy_json_more = json_values.extend toy_json
     (json_more.fields (\<lambda>b. Number (if b then 1 else 0)) (Text ''null''))"

definition json_working :: "nat externals" where
  "json_working = working
     \<lparr>header_from_json := \<lambda>b. case header_from_json working b of
        Inr h \<Rightarrow> Inr h | Inl e \<Rightarrow> (case toy_read b of Inl e \<Rightarrow> Inl e | Inr v \<Rightarrow> toy_value_header v),
      index_v1_from_json := \<lambda>b. case toy_read b of Inl e \<Rightarrow> Inl e | Inr v \<Rightarrow> toy_value_index v\<rparr>"

lemma toy_fields_map:
  assumes "finite (dom m)"
  shows "\<exists>fs. toy_fields m = Fields fs \<and> map_of fs = m \<and> set (map fst fs) = dom m \<and>
    distinct (map fst fs)"
proof -
  have "map_of (map (\<lambda>k. (k, the (m k))) (sorted_list_of_set (dom m))) = m"
    using assms by (simp add: map_of_map_keys)
  with assms show ?thesis by (simp add: toy_fields_def image_image comp_def)
qed

lemma toy_write_simps:
  "toy_read (toy_write 1 v) = Inr v" "toy_read (toy_write 2 v) = Inr v"
  "header_from_json working (toy_write 1 v) = Inl ''header''"
  "header_from_json working (toy_write 2 v) = Inl ''header''"
  by (simp_all add: toy_read_def toy_write_def working_def)

lemma header_fields_toy: "header_fields toy_json h = toy_header_fields h"
  by (simp add: header_fields_def toy_header_fields_def toy_json_def)

lemma toy_header_back:
  assumes "length (kdf_salt h) = SALT_LEN"
  shows "toy_value_header (toy_fields (toy_header_fields h)) = Inr h"
proof -
  have dom: "dom (toy_header_fields h) = field_names" by (simp flip: header_fields_toy add: dom_header_fields)
  then have "finite (dom (toy_header_fields h))" by (simp add: field_names_def)
  then obtain fs where fs: "toy_fields (toy_header_fields h) = Fields fs" "map_of fs = toy_header_fields h"
    "set (map fst fs) = field_names" using toy_fields_map [of "toy_header_fields h"] dom by auto
  with assms show ?thesis by (simp add: toy_header_fields_def comp_def map_idI)
qed

lemma toy_value_header_Inr:
  "toy_value_header (Fields fs) = Inr h \<Longrightarrow>
    set (map fst fs) = field_names \<and> length (kdf_salt h) = SALT_LEN"
  by (auto split: option.splits toy_value.splits list.splits if_splits)

lemma toy_value_header_salt: "toy_value_header v = Inr h \<Longrightarrow> length (kdf_salt h) = SALT_LEN"
  by (cases v) (simp_all add: toy_value_header_Inr del: toy_value_header.simps(1))

lemma toy_json_laws: "json_value_laws json_working toy_json"
  unfolding json_value_laws_def
proof (intro conjI allI impI)
  fix h b assume "header_to_json json_working h = Inr b"
  then have h: "header_to_json working h = Inr b" by (simp add: json_working_def)
  then have "length (kdf_salt h) = SALT_LEN"
    by (auto simp: working_def sample_fields toy_header_to_json_def split: sum.splits if_splits)
  with working_json h have "header_from_json working b = Inr h" unfolding json_laws_def by force
  then show "parse_value toy_json b = Inr (of_object toy_json (header_fields toy_json h))"
    unfolding header_fields_toy by (simp add: toy_json_def)
  show "write_pretty toy_json v \<noteq> Inr b" for v
    using h by (auto simp: toy_json_def toy_write_def working_def split: sum.splits)
next
  fix m :: "string \<rightharpoonup> toy_value" assume fin: "finite (dom m)"
  then show "as_object toy_json (of_object toy_json m) = Some m"
    using toy_fields_map [of m] by (auto simp: toy_json_def)
  assume "dom m \<noteq> field_names"
  moreover obtain fs where "toy_fields m = Fields fs" "set (map fst fs) = dom m"
    using toy_fields_map [OF fin] by blast
  ultimately show "isl (value_header toy_json (of_object toy_json m))"
    using toy_value_header_Inr [of fs]
    by (cases "toy_value_header (Fields fs)") (auto simp: toy_json_def)
next
  fix h :: vault_header assume "length (kdf_salt h) = SALT_LEN"
  then show "value_header toy_json (of_object toy_json (header_fields toy_json h)) = Inr h"
    unfolding header_fields_toy by (simp add: toy_json_def toy_header_back)
qed (auto simp: toy_json_def json_working_def toy_write_simps)

lemma toy_field_of:
  assumes "finite (dom m)"
  shows "toy_field (toy_fields m) = m"
  using toy_fields_map [OF assms] by (auto simp: toy_field_def)

lemma toy_more_fields:
  "of_object toy_json_more = toy_fields" "of_number toy_json_more = Number"
  "of_text toy_json_more = Text" "of_array toy_json_more = Array"
  "write_value toy_json_more v = Inr (toy_write 1 v)"
  "of_flag toy_json_more b = Number (if b then 1 else 0)" "null_value toy_json_more = Text ''null''"
  by (simp_all add: toy_json_more_def toy_json_def json_values.defs json_more.defs)

lemma toy_member_of: "toy_member (k, v1_meta_value toy_json_more d n p) = (ascii k, v1_meta_of (d, n, p))"
  by (simp add: toy_member_def v1_meta_value_def toy_more_fields toy_field_of v1_meta_of_def toy_bytes_def
      split: option.splits)

lemma distinct_members:
  assumes "distinct (map fst fs)"
  shows "distinct (map fst (map toy_member fs))"
proof -
  have "inj ascii" by (rule injI) (rule ascii_inject)
  then have "distinct (map ascii (map fst fs))"
    using assms inj_on_subset [OF _ subset_UNIV] by (subst distinct_map) blast
  moreover have "map fst (map toy_member fs) = map ascii (map fst fs)" by (simp add: toy_member_def case_prod_beta)
  ultimately show ?thesis by (simp only:)
qed

lemma same_members:
  assumes "map_of fs = map_of gs" "distinct (map fst fs)" "distinct (map fst gs)"
  shows "mset fs = mset gs"
proof -
  have "x \<in> set fs \<longleftrightarrow> x \<in> set gs" for x
    using assms by (cases x) (metis map_of_eq_Some_iff)
  then show ?thesis
    using assms(2,3) by (subst set_eq_iff_mset_eq_distinct [symmetric]) (auto simp: distinct_map)
qed

lemma json_working_v1:
  "v1_json_laws json_working toy_json_more"
  "index_v1_from_json json_working b = Inr d \<Longrightarrow> distinct (map fst (v1_files d))"
proof -
  show "index_v1_from_json json_working b = Inr d \<Longrightarrow> distinct (map fst (v1_files d))"
    using distinct_members
    by (auto simp: json_working_def toy_value_index_def
        split: sum.splits option.splits toy_value.splits if_splits)
  let ?J = toy_json_more
  have "\<exists>i. index_v1_from_json json_working (toy_write 1 (v1_index_value ?J ver nc dc (of_object ?J
        (map_of (map (\<lambda>(k, d, n, p). (k, v1_meta_value ?J d n p)) fs))))) = Inr i \<and>
      v1_version i = of_nat ver \<and> v1_nonce_counter i = of_nat nc \<and> v1_data_nonce_counter i = of_nat dc \<and>
      mset (v1_files i) = mset (map (\<lambda>(k, f). (ascii k, v1_meta_of f)) fs)"
    if "distinct (map fst fs)" for ver nc dc and fs :: "(string \<times> bool \<times> nat option \<times> nat option) list"
  proof -
    let ?gs = "map (\<lambda>(k, d, n, p). (k, v1_meta_value ?J d n p)) fs"
    obtain hs where hs: "toy_fields (map_of ?gs) = Fields hs" "map_of hs = map_of ?gs" "distinct (map fst hs)"
      using toy_fields_map [of "map_of ?gs"] finite_dom_map_of by blast
    have "map fst ?gs = map fst fs" by (simp add: case_prod_beta)
    then have "distinct (map fst ?gs)" using that by (simp only:)
    with hs(2,3) have "mset hs = mset ?gs" by (rule same_members)
    then have "mset (map toy_member hs) = mset (map toy_member ?gs)" by (simp only: mset_map)
    also have "map toy_member ?gs = map (\<lambda>(k, f). (ascii k, v1_meta_of f)) fs"
      by (auto simp: toy_member_of)
    finally show ?thesis
      using hs by (simp add: json_working_def toy_write_simps v1_index_value_def toy_more_fields
          toy_value_index_def toy_field_of)
  qed
  moreover have "isl (index_v1_from_json json_working (ascii ''{not json''))"
    by (simp add: json_working_def toy_read_def ascii_def)
  ultimately show "v1_json_laws json_working ?J"
    unfolding v1_json_laws_def toy_more_fields(5) by blast
qed

lemma json_working_env: "env_works json_working" "argon2i_works json_working"
proof -
  have same: "header_to_json json_working = header_to_json working" by (simp add: json_working_def)
  have laws: "length (kdf_salt h) = SALT_LEN \<Longrightarrow> \<exists>b. header_to_json working h = Inr b \<and>
      length b \<le> MAX_HEADER_JSON_LEN \<and> header_from_json working b = Inr h"
    "header_from_json working b = Inr h \<Longrightarrow> length (kdf_salt h) = SALT_LEN"
    for h b d
    using working_json unfolding json_laws_def by blast+
  have reads: "header_from_json json_working b = Inr h" if "header_from_json working b = Inr h" for b h
    using that by (simp add: json_working_def)
  have salt: "length (kdf_salt h) = SALT_LEN" if "header_from_json json_working b = Inr h" for b h
    using that laws(2)
    by (auto simp: json_working_def dest: toy_value_header_salt split: sum.splits)
  have "\<exists>b. header_to_json working h = Inr b \<and> length b \<le> MAX_HEADER_JSON_LEN \<and>
      header_from_json json_working b = Inr h" if "length (kdf_salt h) = SALT_LEN" for h
    using laws(1) [OF that] reads by blast
  with salt json_working_v1(2) have "json_laws json_working"
    unfolding json_laws_def same by blast
  then show "env_works json_working"
    using working_env
    by (simp add: env_works_def ext_laws_def rng_laws_def memsec_laws_def aead_laws_def hash_laws_def
        memory_works_def crypto_works_def kdf_works_def json_working_def)
  show "argon2i_works json_working"
    by (simp add: argon2i_works_def json_working_def working_def sample_fields)
qed

section \<open>Edited headers\<close>

text \<open>C39: The tests that write JSON pass. Of a header that is edited and written back a missing, an unknown or an
  out-of-range field and a form other than the canonical one are all refused as corrupted data
  before any key is derived. The two edits that leave a header in the policy, a downgraded version
  and a changed salt, are refused as a wrong password exactly when the cipher refuses the file
  under the edited header. An index of version 1 is decoded with its dummies dropped, and refused
  if it has another version, a key that is not hexadecimal, or an entry that is cut or not there.\<close>

theorem edited_headers_refused:
  assumes "env_works X" "mem_ok s" "finite (dom (heap s))" "json_value_laws X J" "argon2i_works X"
    and "v1_json_laws X J'"
  shows "list_all (\<lambda>test. test X J')
      [decode_v1_converts_real_entries_and_drops_dummies,
       decode_v1_rejects_real_entry_without_ciphertext_or_bad_key,
       decode_v1_rejects_wrong_version_and_malformed_json] \<and>
    list_all (\<lambda>test. test X J s)
      [open_rejects_header_missing_required_field, open_rejects_header_with_unsupported_version,
       open_rejects_header_with_out_of_range_kdf_memory,
       open_rejects_header_with_out_of_range_kdf_iterations, open_rejects_header_with_unknown_field,
       open_rejects_non_canonical_header_json] \<and>
    (\<exists>valid s1 h hj. make_valid_export X (ascii ''password-downgrade'') s = (Inr valid, s1) \<and>
       header_from_json X (take (header_len_of valid) (drop 4 valid)) = Inr h \<and>
       to_aad_bytes X (h\<lparr>version := LEGACY_VAULT_VERSION_1\<rparr>) = Inr hj \<and>
       (open_rejects_version_downgrade_in_header X J s \<longleftrightarrow>
          \<not> index_opens X (ascii ''password-downgrade'') (replace_header_json valid hj))) \<and>
    (\<exists>valid s1 h hj. make_valid_export X (ascii ''password-hhhh'') s = (Inr valid, s1) \<and>
       header_from_json X (take (header_len_of valid) (drop 4 valid)) = Inr h \<and>
       to_aad_bytes X (h\<lparr>kdf_salt := (kdf_salt h)[0 := kdf_salt h ! 0 XOR 0xFF]\<rparr>) = Inr hj \<and>
       (open_rejects_header_with_modified_salt X J s \<longleftrightarrow>
          \<not> index_opens X (ascii ''password-hhhh'') (replace_header_json valid hj)))"
proof -
  have m: "test_machine X s" using assms(1-3) by (simp add: test_machine_def)
  note tests = header_value_tests [OF m assms(4)] pretty_test_passes [OF m assms(4)]
    v1_json_tests [OF env_worksD(9) [OF assms(1)] assms(6)]
  show ?thesis
    by (intro conjI downgrade_test [OF m assms(4,5)] modified_salt_test [OF m assms(4)])
      (simp_all only: list.pred_inject simp_thms tests)
qed

theorem edited_headers_refused_witness:
  "open_rejects_header_missing_required_field json_working toy_json sample_sys \<and>
   open_rejects_header_with_unknown_field json_working toy_json sample_sys \<and>
   open_rejects_non_canonical_header_json json_working toy_json sample_sys \<and>
   decode_v1_converts_real_entries_and_drops_dummies json_working toy_json_more"
  using edited_headers_refused [OF json_working_env(1) sample_mem_ok sample_heap_finite toy_json_laws
      json_working_env(2) json_working_v1(1)] by simp

section \<open>Values that differ\<close>

text \<open>The tests that expect random values to differ depend on the generator alone: each passes
  exactly when the two values it compares, drawn at the very points of the code where it draws
  them, are different. The tests of the derived keys pass exactly when the two HKDF labels, the two
  master keys, and the two versions of the key derivation give different keys, and the known answer
  is the value Argon2id computes for the parameters the code passes.\<close>

lemma differing_values:
  assumes "env_works X" "mem_ok s" "finite (dom (heap s))"
  shows "(\<exists>a s1 b s2. secure_bytes_fill X SALT_LEN s = (Inr a, s1) \<and>
       secure_bytes_fill X SALT_LEN s1 = (Inr b, s2) \<and>
       (generates_vault_header_with_random_salt X s \<longleftrightarrow> a \<noteq> b)) \<and>
    (\<exists>a s1 idx s2 b s3. secure_bytes_fill X XCHACHA20_NONCE_LEN s = (Inr a, s1) \<and>
       from_master_key X (replicate 32 0x42) (replicate 16 0xAA) s = (Inr idx, s2) \<and>
       secure_bytes_fill X XCHACHA20_NONCE_LEN s2 = (Inr b, s3) \<and>
       (from_master_key_uses_random_initial_nonce X s \<longleftrightarrow> a \<noteq> b)) \<and>
    (\<exists>idx s1 a s2 b s3. vault_index_generate X s = (Inr idx, s1) \<and>
       secure_bytes_fill X XCHACHA20_NONCE_LEN s1 = (Inr a, s2) \<and>
       secure_bytes_fill X XCHACHA20_NONCE_LEN s2 = (Inr b, s3) \<and>
       (advance_nonce_produces_unique_nonces X s \<longleftrightarrow> a \<noteq> b)) \<and>
    (\<exists>v s1 b s2. create X (ascii ''password'') s = (Inr v, s1) \<and>
       secure_bytes_fill X XCHACHA20_NONCE_LEN s1 = (Inr b, s2) \<and>
       (export_rotates_nonce X s \<longleftrightarrow> b \<noteq> nonce (index v))) \<and>
    (\<exists>v s1 a s2 n s3 b s4. create X (ascii ''password-nonces'') s = (Inr v, s1) \<and>
       secure_bytes_fill X XCHACHA20_NONCE_LEN s1 = (Inr a, s2) \<and>
       secure_bytes_fill X XCHACHA20_NONCE_LEN s2 = (Inr n, s3) \<and>
       secure_bytes_fill X XCHACHA20_NONCE_LEN s3 = (Inr b, s4) \<and>
       (storing_same_name_twice_uses_fresh_nonces X s \<longleftrightarrow> a \<noteq> b)) \<and>
    (\<exists>m s1 a b. secure_bytes_fill X 32 s = (Inr m, s1) \<and> derive_subkeys X m [] = Inr (a, b) \<and>
       (enc_and_hmac_keys_are_different X s \<longleftrightarrow> a \<noteq> b)) \<and>
    (\<exists>a b. derive_subkeys X (replicate 32 0xAB) [] = Inr (a, b) \<and>
       (subkeys_are_deterministic_for_same_master X \<longleftrightarrow> a \<noteq> b)) \<and>
    (\<exists>a b c d. derive_subkeys X (replicate 32 0x01) [] = Inr (a, b) \<and>
       derive_subkeys X (replicate 32 0x02) [] = Inr (c, d) \<and>
       (subkeys_differ_for_different_masters X \<longleftrightarrow> a \<noteq> c \<and> b \<noteq> d)) \<and>
    (\<exists>k2. derive_master_key X (ascii ''kdf-password'')
         (vault_header_new (replicate 16 7) MIN_KDF_ITERATIONS MIN_KDF_MEMORY 32) = Inr k2 \<and>
       (derive_master_key_selects_kdf_by_format_version X \<longleftrightarrow>
         (\<exists>k1. argon2i_derive X (ascii ''kdf-password'') (replicate 16 7) MIN_KDF_ITERATIONS
            MIN_KDF_MEMORY KEY_LEN = Inr k1 \<and> k1 \<noteq> k2))) \<and>
    (\<exists>params key. argon2_params_new X MIN_KDF_MEMORY MIN_KDF_ITERATIONS 1 (Some KEY_LEN) = Inr params \<and>
       argon2id_hash X params (ascii ''known-answer-password'') (replicate 16 0x5A) KEY_LEN
         (argon2_block_count X params) = Inr key \<and>
       (derive_master_key_argon2id_known_answer X \<longleftrightarrow> key_to_hex key = ARGON2ID_KAT))"
proof -
  have m: "test_machine X s" using assms by (simp add: test_machine_def)
  show ?thesis
    by (intro conjI salt_test [OF m] initial_nonce_test [OF m] advance_test [OF m] rotate_test [OF m]
        same_name_test [OF m] enc_and_hmac_test [OF m] subkeys_tests [OF assms(1)] kdf_tests [OF assms(1)])
qed

lemma differing_values_witness:
  "generates_vault_header_with_random_salt working sample_sys"
proof -
  have "\<exists>a s1 b s2. secure_bytes_fill working SALT_LEN sample_sys = (Inr a, s1) \<and>
      secure_bytes_fill working SALT_LEN s1 = (Inr b, s2) \<and>
      (generates_vault_header_with_random_salt working sample_sys \<longleftrightarrow> a \<noteq> b)"
    using differing_values [OF working_env sample_mem_ok sample_heap_finite] by (rule conjunct1)
  then show ?thesis
    by (auto simp: secure_bytes_fill_def working_def SALT_LEN_def replicate_eq_replicate)
qed

end
