(* ===== verification/Upgrade.thy ===== *)
theory Upgrade
  imports AuthTests PasswordProperties ProgramProperties
begin

text \<open>
  Vaults written by format version 1. \<open>open\<close> upgrades them, and where the libraries work it always
  gets through: no file that authenticates under the password is lost. The first section counts the
  entries of a vault, and the bytes of its file, by the names it holds.
\<close>

section \<open>Entries and names\<close>

text \<open>The names in use that a map binds.\<close>

definition bound :: "bytes set \<Rightarrow> (bytes \<rightharpoonup> bytes) \<Rightarrow> bytes set" where
  "bound N m = {n \<in> N. m n \<noteq> None}"

lemma name_of_entry:
  assumes "aead_laws X" "length ek = SUBKEY_LEN" "names_apart X hk N" "sealed_for X ek hk N fs"
    and "distinct (map fst fs)" "\<forall>n \<in> N. read_secret X ek hk fs n = Inr (m n)" "(k, e) \<in> set fs"
  obtains n p where "n \<in> N" "m n = Some p" "name_key X hk n = Inr k" "sealed_entry X ek k n p e"
proof -
  from assms(4,7) obtain n p where n: "n \<in> N" "name_key X hk n = Inr k" "sealed_entry X ek k n p e"
    by (fastforce simp: sealed_for_def)
  have "map_of fs k = Some e" using assms(5,7) by (simp add: map_of_is_SomeI)
  then have "read_secret X ek hk fs n = Inr (Some p)"
    by (rule read_sealed [OF assms(1,2) n(3,2)])
  with assms(6) n that show thesis by simp
qed

lemma entry_of_name:
  assumes "\<forall>n \<in> N. read_secret X ek hk fs n = Inr (m n)" "n \<in> bound N m"
  obtains k e where "name_key X hk n = Inr k" "(k, e) \<in> set fs"
proof -
  obtain p where "read_secret X ek hk fs n = Inr (Some p)"
    using assms by (auto simp: bound_def)
  then obtain k e where "name_key X hk n = Inr k" "map_of fs k = Some e"
    by (rule read_secret_SomeD)
  then show thesis by (intro that map_of_SomeD)
qed

lemma names_of_entries:
  assumes "aead_laws X" "length ek = SUBKEY_LEN" "names_apart X hk N" "sealed_for X ek hk N fs"
    and "distinct (map fst fs)" "\<forall>n \<in> N. read_secret X ek hk fs n = Inr (m n)"
  shows "bij_betw (\<lambda>n. projr (name_key X hk n)) (bound N m) (fst ` set fs)"
proof (rule bij_betw_imageI)
  show "inj_on (\<lambda>n. projr (name_key X hk n)) (bound N m)"
  proof (rule inj_onI)
    fix a b assume ab: "a \<in> bound N m" "b \<in> bound N m"
      "projr (name_key X hk a) = projr (name_key X hk b)"
    then obtain x y where "name_key X hk a = Inr x" "name_key X hk b = Inr y"
      using entry_of_name [OF assms(6)] by metis
    with ab assms(3) show "a = b" by (auto simp: names_apart_def bound_def)
  qed
  show "(\<lambda>n. projr (name_key X hk n)) ` bound N m = fst ` set fs"
  proof (intro equalityI subsetI)
    fix k assume "k \<in> (\<lambda>n. projr (name_key X hk n)) ` bound N m"
    then show "k \<in> fst ` set fs" by (auto elim!: entry_of_name [OF assms(6)] intro: rev_image_eqI)
  next
    fix k assume "k \<in> fst ` set fs"
    then obtain e where ke: "(k, e) \<in> set fs" by auto
    show "k \<in> (\<lambda>n. projr (name_key X hk n)) ` bound N m"
      by (rule name_of_entry [OF assms ke]) (auto simp: bound_def intro!: rev_image_eqI)
  qed
qed

lemma count_entries:
  assumes "aead_laws X" "length ek = SUBKEY_LEN" "names_apart X hk N" "sealed_for X ek hk N fs"
    and "distinct (map fst fs)" "\<forall>n \<in> N. read_secret X ek hk fs n = Inr (m n)"
  shows "length fs = card (bound N m)"
proof -
  have "length fs = card (fst ` set fs)"
    using assms(5) by (metis distinct_card length_map set_map)
  then show ?thesis using bij_betw_same_card [OF names_of_entries [OF assms]] by simp
qed

text \<open>An entry takes 80 bytes more than its name and its secret: two nonces and two tags.\<close>

lemma index_size:
  assumes "aead_laws X" "length ek = SUBKEY_LEN" "names_apart X hk N"
    and "sealed_for X ek hk N (files idx)" "distinct (map fst (files idx))"
    and "\<forall>n \<in> N. read_secret X ek hk (files idx) n = Inr (m n)"
  shows "encoded_total idx = INDEX_PREAMBLE_LEN +
    (\<Sum>n \<in> bound N m. ENTRY_FIXED_LEN + 2 * MIN_ENCRYPTED_LEN + length n + length (the (m n)))"
proof -
  let ?size = "\<lambda>e. ENTRY_FIXED_LEN + length (encrypted_name e) + length (encrypted_data e)"
  let ?key = "\<lambda>n. projr (name_key X hk n)"
  have inj: "inj_on fst (set (files idx))" "distinct (files idx)"
    using assms(5) by (simp_all add: distinct_map)
  have "sum_list (map (\<lambda>f. ?size (snd f)) (files idx)) = (\<Sum>f \<in> set (files idx). ?size (snd f))"
    using inj(2) by (rule sum_list_distinct_conv_sum_set)
  also have "\<dots> = (\<Sum>f \<in> set (files idx). ?size (the (map_of (files idx) (fst f))))"
    using assms(5) by (intro sum.cong) (auto simp: map_of_is_SomeI)
  also have "\<dots> = (\<Sum>k \<in> fst ` set (files idx). ?size (the (map_of (files idx) k)))"
    by (simp add: sum.reindex [OF inj(1)])
  also have "\<dots> = (\<Sum>n \<in> bound N m. ?size (the (map_of (files idx) (?key n))))"
    by (rule sum.reindex_bij_betw [OF names_of_entries [OF assms], symmetric])
  also have "\<dots> = (\<Sum>n \<in> bound N m. ENTRY_FIXED_LEN + 2 * MIN_ENCRYPTED_LEN + length n + length (the (m n)))"
  proof (rule sum.cong [OF refl])
    fix n assume n: "n \<in> bound N m"
    obtain k e where k: "name_key X hk n = Inr k" "(k, e) \<in> set (files idx)"
      by (rule entry_of_name [OF assms(6) n])
    obtain n' p where e: "n' \<in> N" "m n' = Some p" "name_key X hk n' = Inr k" "sealed_entry X ek k n' p e"
      by (rule name_of_entry [OF assms k(2)])
    have "n' = n" using assms(3) e(1,3) k(1) n by (auto simp: names_apart_def bound_def)
    moreover have "map_of (files idx) k = Some e" using assms(5) k(2) by (simp add: map_of_is_SomeI)
    ultimately show "?size (the (map_of (files idx) (?key n))) =
        ENTRY_FIXED_LEN + 2 * MIN_ENCRYPTED_LEN + length n + length (the (m n))"
      using k(1) e(2) sealed_entry_lengths [OF assms(1,2) e(4)]
      by (simp add: MIN_ENCRYPTED_LEN_def)
  qed
  finally show ?thesis by (simp add: encoded_total_def case_prod_beta)
qed

lemma vault_size:
  assumes "aead_laws X" "stands_for X N (s, v, pw) (pw', m)" "config_apart X N (s, v, pw)"
  shows "length (files (index v)) = card (bound N m)"
    "encoded_total (index v) = INDEX_PREAMBLE_LEN +
      (\<Sum>n \<in> bound N m. ENTRY_FIXED_LEN + 2 * MIN_ENCRYPTED_LEN + length n + length (the (m n)))"
proof -
  obtain ek hk where c: "vault_ok s v" "keys_live s (index v) ek hk"
    "sealed_for X ek hk N (files (index v))"
    "\<forall>n \<in> N. read_secret X ek hk (files (index v)) n = Inr (m n)"
    by (rule stands_forD [OF assms(2)])
  have "length ek = SUBKEY_LEN" "distinct (map fst (files (index v)))"
    using c(1,2) by (simp_all add: keys_live_def vault_ok_def index_ok_def files_ok_def)
  note facts = this(1) config_apartD [OF assms(3) c(2)] c(3) this(2) c(4)
  show "length (files (index v)) = card (bound N m)" by (rule count_entries [OF assms(1) facts])
  show "encoded_total (index v) = INDEX_PREAMBLE_LEN +
      (\<Sum>n \<in> bound N m. ENTRY_FIXED_LEN + 2 * MIN_ENCRYPTED_LEN + length n + length (the (m n)))"
    by (rule index_size [OF assms(1) facts])
qed

section \<open>The upgrade gets through\<close>

text \<open>What a file written by format version 1 holds: keys, and the names and secrets of its entries.\<close>

definition legacy_file ::
  "'w externals \<Rightarrow> bytes \<Rightarrow> bytes \<Rightarrow> envelope \<Rightarrow> bytes set \<Rightarrow> (bytes \<rightharpoonup> bytes) \<Rightarrow> bool" where
  "legacy_file X password data env N m \<longleftrightarrow>
     (\<exists>ek hk d. opens_to X password data env ek hk d \<and>
        version (env_header env) = LEGACY_VAULT_VERSION_1 \<and> sealed_for X ek hk N (idx_files d) \<and>
        (\<forall>n \<in> N. read_secret X ek hk (idx_files d) n = Inr (m n)))"

lemma upgrade_works:
  assumes "test_machine X s" "legacy_file X pw data env N m" "\<forall>n \<in> N. utf8_valid n"
    and "names_separated X N" "length pw < 2 ^ 32"
  obtains v s' where "open_vault X pw data s = (Inr v, s')" "generated_header (header v)"
    "stands_for X N (s', v, pw) (pw, m)" "nonce_counter (index v) = 0"
    "unat (data_nonce_counter (index v)) = length (files (index v))" "test_machine X s'"
proof -
  have m: "env_works X" "mem_ok s" "finite (dom (heap s))" using assms(1) by (simp_all add: test_machine_def)
  note laws = env_worksD [OF m(1)]
  obtain ek hk d where o: "opens_to X pw data env ek hk d"
    and ver: "version (env_header env) = LEGACY_VAULT_VERSION_1"
    and sealed: "sealed_for X ek hk N (idx_files d)"
    and reads: "\<forall>n \<in> N. read_secret X ek hk (idx_files d) n = Inr (m n)"
    using assms(2) by (auto simp: legacy_file_def)
  have "password_keys X pw (env_header env) = Inr (ek, hk)" using o by (simp add: opens_to_def)
  from password_keys_length [OF laws(8) this]
  have lens: "length ek = SUBKEY_LEN" "length hk = SUBKEY_LEN" by simp_all
  obtain es hs s1 where l: "lock_subkeys X ek hk s = (Inr (es, hs), s1)"
    by (rule lock_subkeys_works [OF m(1) lens m(3)])
  let ?w = "loaded_vault env d es hs"
  have adds: "adds_keys s (index ?w) ek hk s1" by (rule loaded_vault_ok(1) [OF laws(1) m(2) o l])
  then have live: "mem_ok s1" "keys_live s1 (index ?w) ek hk" by (simp_all add: adds_keys_def)
  have fin: "finite (dom (heap s1))" by (rule adds_keys_finite [OF adds m(3)])
  have ok: "index_ok (index ?w)" by (rule loaded_vault_index_ok [OF laws(1) o])
  have fs: "files (index ?w) = idx_files d" by (simp add: loaded_vault_def)
  have "sealed_for X ek hk strings (files (index ?w))"
    using sealed assms(3) by (force simp: sealed_for_def fs)
  then obtain v s' where r: "rekey X ?w s1 pw = (Inr (), v, s')"
    by (rule rekey_works [OF m(1) live ok _ assms(5) fin])
  have op: "open_vault X pw data s = (Inr v, s')"
    by (simp add: open_vault_loads [OF o] l ver r Let_def)
  have up: "vault_ok s' v" "unlocked_by X pw s' v"
    using rekey_vault_ok [OF laws(1) _ r] live by blast+
  then obtain ek' hk' where new: "keys_live s' (index v) ek' hk'" "password_keys X pw (header v) = Inr (ek', hk')"
    by (auto simp: unlocked_by_def)
  have dist: "distinct (map fst (files (index ?w)))" using ok by (simp add: index_ok_def files_ok_def)
  have apart: "names_apart X hk N" "names_apart X hk' N"
    using assms(4) lens(2) new(1) by (simp_all add: names_separated_def keys_live_def)
  have st: "stands_for X N (s', v, pw) (pw, m)"
  proof (rule stands_forI [OF up(1) new])
    show "sealed_for X ek' hk' N (files (index v))"
      by (rule rekey_sealed_for [OF laws(1) live _ r new(1)]) (simp add: fs sealed)
    show "read_secret X ek' hk' (files (index v)) n = Inr (m n)" if "n \<in> N" for n
      using rekey_reads [OF laws(1) live dist _ apart(1) r new(1) apart(2) that] sealed reads that
      by (simp add: fs)
  qed
  have c: "config_apart X N (s', v, pw)" by (rule separated_apart [OF assms(4)])
  have count: "length (files (index v)) = length (idx_files d)"
    using vault_size(1) [OF laws(7) st c]
      count_entries [OF laws(7) lens(1) apart(1) sealed dist [unfolded fs] reads] by simp
  show thesis
  proof (rule rekey_ok [OF laws(1) live r])
    fix ek2 hk2
    assume g: "generated_header (header v)" "moves_keys s1 (index ?w) (index v) ek2 hk2 s'"
      "nonce_counter (index v) = 0" "unat (data_nonce_counter (index v)) = length (files (index ?w))"
    have "test_machine X s'"
      using m(1) moves_keys_finite [OF g(2) fin] g(2) by (simp add: test_machine_def moves_keys_def)
    moreover have "unat (data_nonce_counter (index v)) = length (files (index v))"
      unfolding count g(4) fs by (rule refl)
    ultimately show thesis by (rule that [OF op g(1) st g(3), rotated])
  qed
qed

text \<open>C22: No version 1 vault is lost. Where the libraries work, a version 1 file that authenticates
  under the password, whose index decodes and is consistent and whose entries were stored under Rust
  strings (\<open>legacy_file\<close>) opens in every process: the vault returned is a well-formed version 2
  vault with the default parameters, the password unlocks it, it
  has one entry for each name the file holds, and every name reads as it does in the file.\<close>

theorem version_1_vaults_open:
  assumes "env_works X" "mem_ok s" "finite (dom (heap s))" "legacy_file X password data env N m"
    and "\<forall>n \<in> N. utf8_valid n" "names_separated X N" "length password < 2 ^ 32"
  shows "\<exists>v s'. open_vault X password data s = (Inr v, s') \<and> generated_header (header v) \<and>
    version (header v) = VAULT_VERSION \<and> vault_ok s' v \<and> unlocked_by X password s' v \<and>
    length (files (index v)) = card (bound N m) \<and> (\<forall>n \<in> N. retrieve X v s' n = Inr (m n))"
proof -
  have "test_machine X s" using assms(1-3) by (simp add: test_machine_def)
  then obtain v s' where up: "open_vault X password data s = (Inr v, s')" "generated_header (header v)"
    "stands_for X N (s', v, password) (password, m)"
    by (rule upgrade_works [OF _ assms(4-7)])
  from vault_size(1) [OF env_worksD(7) [OF assms(1)] up(3) separated_apart [OF assms(6)]] up
    generated_header_version [OF up(2)]
  show ?thesis by (auto simp: stands_for_def)
qed

text \<open>A version 1 file of \<open>working\<close> with one entry.\<close>

definition old_key :: bytes where
  "old_key = key_to_hex (working_tag sample_name)"

definition old_entry :: index_entry where
  "old_entry = toy_entry (legacy_key ENCRYPTION_SUBKEY_INFO) old_key 0 4 sample_name sample_secret"

definition old_index :: index_data where
  "old_index = \<lparr>idx_nonce_counter = 5, idx_data_nonce_counter = 9, idx_files = [(old_key, old_entry)]\<rparr>"

definition old_json :: bytes where
  "old_json = index_layout 5 9 [(old_key, old_entry)]"

definition old_envelope :: envelope where
  "old_envelope = \<lparr>env_header = legacy_header, env_nonce = replicate 24 8,
     env_encrypted_index = old_json @ toy_tag (legacy_key ENCRYPTION_SUBKEY_INFO) (replicate 24 8)
       old_json (0 # legacy_header_json)\<rparr>"

definition old_file :: bytes where
  "old_file = u32_to_le (of_nat 35) @ (0 # legacy_header_json) @ replicate 24 8 @ replicate 8 0 @
     env_encrypted_index old_envelope"

lemma old_entry_ok: "files_ok [(old_key, old_entry)]"
proof -
  have "sizes_ok old_entry"
    by (simp add: sizes_ok_def old_entry_def toy_entry_def Let_def sample_name_def sample_secret_def const_defs)
  moreover have "is_hex_key old_key"
    by (rule name_key_hex [of working "replicate 32 0" sample_name])
      (use ext_lawsD(4) [OF working_laws] in \<open>simp_all add: old_key_def name_key_def working_fields sample_fields\<close>)
  ultimately show ?thesis by (simp add: files_ok_def file_ok_def const_defs)
qed

lemma old_json_decodes: "decode_index_v1 working old_json = Inr old_index"
proof -
  have e: "is_hex_key old_key" "sizes_ok old_entry"
    using old_entry_ok by (simp_all add: files_ok_def file_ok_def)
  have "index_v1_from_json working old_json =
      Inr \<lparr>v1_version = LEGACY_INDEX_VERSION_1, v1_nonce_counter = 5, v1_data_nonce_counter = 9,
        v1_files = [([], toy_dummy), (old_key, toy_v1_meta old_entry)]\<rparr>"
    by (simp add: working_fields sample_fields toy_index_v1_from_json_def old_json_def
        decode_index_layout [OF old_entry_ok])
  moreover have "v1_entry (toy_v1_meta e) = Some e" "\<not> is_dummy (toy_v1_meta e)" for e
    by (cases e; simp add: v1_entry_def toy_v1_meta_def)+
  ultimately show ?thesis
    using e unfolding decode_index_v1_iff [OF working_json]
    by (simp add: old_index_def v1_meta_ok_def toy_dummy_def const_defs)
qed

lemma old_file_opens_to:
  "opens_to working sample_password old_file old_envelope
     (legacy_key ENCRYPTION_SUBKEY_INFO) (legacy_key HMAC_SUBKEY_INFO) old_index"
proof -
  have hj: "header_to_json working legacy_header = Inr (0 # legacy_header_json)"
    "header_from_json working (0 # legacy_header_json) = Inr legacy_header"
    using legacy_header_facts(1,2) by (simp_all add: working_def)
  have "length old_json \<le> 1000"
    using old_entry_ok length_index_layout [of "[(old_key, old_entry)]" 5 9]
    by (simp add: old_json_def files_ok_def old_entry_def toy_entry_def Let_def const_defs sample_name_def
        sample_secret_def)
  then have "parse_envelope working old_file = Inr old_envelope"
    unfolding old_envelope_def using hj legacy_header_facts(3,4,5)
    by (intro parse_envelope_layout [of working legacy_header "0 # legacy_header_json" _ "replicate 8 0"])
      (simp_all add: old_file_def old_envelope_def legacy_gap_def const_defs)
  moreover have "open_index working old_envelope (legacy_key ENCRYPTION_SUBKEY_INFO) = Inr old_index"
    using old_json_decodes hj(1) legacy_header_facts(5)
    by (simp add: open_index_def to_aad_bytes_def open_with_aad_def working_fields sample_fields
        toy_open_def old_envelope_def const_defs Let_def)
  moreover have "password_keys working sample_password legacy_header =
      Inr (legacy_key ENCRYPTION_SUBKEY_INFO, legacy_key HMAC_SUBKEY_INFO)"
  proof -
    have "argon2i_derive working = argon2i_derive sample" by (simp add: working_def)
    then show ?thesis
      using legacy_password_keys
      by (simp add: password_keys_def derive_master_key_def derive_subkeys_def working_fields
          legacy_header_facts(5))
  qed
  ultimately show ?thesis
    by (simp add: opens_to_def old_index_def old_entry_def toy_entry_def Let_def old_envelope_def)
qed

lemma old_file_legacy:
  "legacy_file working sample_password old_file old_envelope {sample_name} [sample_name \<mapsto> sample_secret]"
proof -
  let ?ek = "legacy_key ENCRYPTION_SUBKEY_INFO" and ?hk = "legacy_key HMAC_SUBKEY_INFO"
  have key: "name_key working ?hk sample_name = Inr old_key"
    by (simp add: old_key_def name_key_def working_fields sample_fields)
  have "seal_with_aad working = seal_with_aad sample"
    by (intro ext) (simp add: seal_with_aad_def working_fields)
  then have sealed: "sealed_entry working ?ek old_key sample_name sample_secret old_entry"
    using toy_entry_sealed [of ?ek old_key sample_name sample_secret 0 4]
    by (simp add: old_entry_def sealed_entry_def)
  have "read_secret working ?ek ?hk [(old_key, old_entry)] sample_name = Inr (Some sample_secret)"
    by (rule read_sealed [OF ext_lawsD(3) [OF working_laws] _ sealed key]) (simp_all add: SUBKEY_LEN_def)
  with old_file_opens_to key sealed legacy_header_facts(5) show ?thesis
    unfolding legacy_file_def
    by (intro exI [of _ ?ek] exI [of _ ?hk] exI [of _ old_index])
      (auto simp: sealed_for_def old_index_def old_envelope_def)
qed

theorem version_1_vaults_open_witness:
  "\<exists>v s'. open_vault working sample_password old_file sample_sys = (Inr v, s') \<and>
     version (header v) = VAULT_VERSION \<and> retrieve working v s' sample_name = Inr (Some sample_secret)"
proof -
  have "names_separated working {sample_name}"
    by (auto simp: names_separated_def names_apart_def name_key_def working_fields sample_fields)
  moreover have "\<forall>n \<in> {sample_name}. utf8_valid n" by (simp add: sample_name_def ascii_def)
  ultimately show ?thesis
    using version_1_vaults_open [OF working_env sample_mem_ok sample_heap_finite old_file_legacy]
    by (fastforce simp: sample_password_def)
qed

end
