(* ===== verification/LegacyTests.thy ===== *)
theory LegacyTests
  imports Upgrade JsonTests
begin

text \<open>
  The unit tests of the facade on format version 1: they run on the binary fixture
  \<open>tests/fixtures/vault_v1.seal\<close>, written by release 0.2.1, whose bytes are a parameter. What the
  tests know of it, its size, its password, its names and its secrets, is \<open>is_v1_fixture\<close>; the
  last section has a file of the sample instance that fits.
\<close>

section \<open>The fixture\<close>

definition V1_PASSWORD :: bytes where
  "V1_PASSWORD = ascii ''fixture-password-v1''"

definition assert_fixture_entries :: "'w externals \<Rightarrow> vault \<Rightarrow> 'w sys \<Rightarrow> bool" where
  "assert_fixture_entries X v s \<longleftrightarrow>
     length (files (index v)) = 4 \<and>
     unwrap (retrieve X v s (ascii ''api_key'')) (\<lambda>r. r = Some (ascii ''sk-fixture-12345-v2'')) \<and>
     unwrap (retrieve X v s (ascii ''empty'')) (\<lambda>r. r = Some []) \<and>
     unwrap (retrieve X v s (replicate 255 110)) (\<lambda>r. r = Some (ascii ''longest name'')) \<and>
     (let payload = map (\<lambda>i. of_nat (i * 7 mod 251)) [0..<5000]
      in unwrap (retrieve X v s (ascii ''blob'')) (\<lambda>r. r = Some payload)) \<and>
     unwrap (retrieve X v s (ascii ''gone'')) (\<lambda>r. r = None)"

definition v1_fixture_opens_and_is_rewritten_as_current_format ::
  "'w externals \<Rightarrow> bytes \<Rightarrow> 'w sys \<Rightarrow> bool" where
  "v1_fixture_opens_and_is_rewritten_as_current_format X V1_FIXTURE s \<longleftrightarrow>
     unwrap (parse_envelope X V1_FIXTURE) (\<lambda>envelope.
     version (env_header envelope) = LEGACY_VAULT_VERSION_1 \<and>
     unwrap_with (open_vault X V1_PASSWORD V1_FIXTURE s) (\<lambda>v s1.
     assert_fixture_entries X v s1 \<and>
     version (header v) = VAULT_VERSION \<and>
     kdf_salt (header v) \<noteq> kdf_salt (env_header envelope) \<and>
     unwrap_with (export X v s1) (\<lambda>exported (v1, s2).
     unwrap (parse_envelope X exported) (\<lambda>e. version (env_header e) = VAULT_VERSION) \<and>
     length exported < length V1_FIXTURE div 2 \<and>
     unwrap_with (open_vault X V1_PASSWORD exported s2) (\<lambda>reopened s3.
     assert_fixture_entries X reopened s3 \<and>
     unwrap_with (store X reopened s3 (ascii ''new'') (ascii ''after migration'')) (\<lambda>u (reopened1, s4).
     unwrap_with (export X reopened1 s4) (\<lambda>exported1 (reopened2, s5).
     unwrap_with (open_vault X V1_PASSWORD exported1 s5) (\<lambda>again s6.
     unwrap (retrieve X again s6 (ascii ''new'')) (\<lambda>r. r = Some (ascii ''after migration'')) \<and>
     length (files (index again)) = 5)))))))"

definition v1_fixture_rejects_wrong_password :: "'w externals \<Rightarrow> bytes \<Rightarrow> 'w sys \<Rightarrow> bool" where
  "v1_fixture_rejects_wrong_password X V1_FIXTURE s \<longleftrightarrow>
     rejected_as_password (open_vault X (ascii ''wrong-password!'') V1_FIXTURE s)"

text \<open>\<open>for b in &mut tampered[start..start + n] { *b ^= flips; }\<close>\<close>

definition xor_range :: "nat \<Rightarrow> nat \<Rightarrow> byte \<Rightarrow> bytes \<Rightarrow> (bytes \<Rightarrow> bool) \<Rightarrow> bool" where
  "xor_range start n flips data k \<longleftrightarrow> start + n \<le> length data \<and>
     k (take start data @ map (\<lambda>b. b XOR flips) (take n (drop start data)) @ drop (start + n) data)"

definition v1_fixture_ignores_the_unauthenticated_counter_bytes ::
  "'w externals \<Rightarrow> bytes \<Rightarrow> 'w sys \<Rightarrow> bool" where
  "v1_fixture_ignores_the_unauthenticated_counter_bytes X V1_FIXTURE s \<longleftrightarrow>
     (let counter_start = 4 + header_len_of V1_FIXTURE + XCHACHA20_NONCE_LEN in
      xor_range counter_start 8 0xFF V1_FIXTURE (\<lambda>tampered.
      unwrap_with (open_vault X V1_PASSWORD tampered s) (\<lambda>v s1. assert_fixture_entries X v s1)))"

definition v1_fixture_truncated_inside_counter_is_rejected ::
  "'w externals \<Rightarrow> bytes \<Rightarrow> 'w sys \<Rightarrow> bool" where
  "v1_fixture_truncated_inside_counter_is_rejected X V1_FIXTURE s \<longleftrightarrow>
     (let cut = 4 + header_len_of V1_FIXTURE + XCHACHA20_NONCE_LEN + 4 in
      cut \<le> length V1_FIXTURE \<and>
      rejected_as_corrupted (open_vault X V1_PASSWORD (take cut V1_FIXTURE) s))"

section \<open>What the fixture holds\<close>

text \<open>Its size, its password, and the names and secrets its test asserts.\<close>

definition fixture_names :: "bytes set" where
  "fixture_names = {ascii ''api_key'', ascii ''empty'', replicate 255 110, ascii ''blob'',
     ascii ''gone'', ascii ''new''}"

definition fixture_secrets :: "bytes \<rightharpoonup> bytes" where
  "fixture_secrets = [ascii ''api_key'' \<mapsto> ascii ''sk-fixture-12345-v2'', ascii ''empty'' \<mapsto> [],
     replicate 255 110 \<mapsto> ascii ''longest name'',
     ascii ''blob'' \<mapsto> map (\<lambda>i. of_nat (i * 7 mod 251)) [0..<5000]]"

definition is_v1_fixture :: "'w externals \<Rightarrow> bytes \<Rightarrow> envelope \<Rightarrow> bool" where
  "is_v1_fixture X data env \<longleftrightarrow>
     length data = 21112 \<and> legacy_file X V1_PASSWORD data env fixture_names fixture_secrets"

lemma fixture_apart:
  "replicate 255 (110 :: byte) \<noteq> ascii ''api_key''" "replicate 255 (110 :: byte) \<noteq> ascii ''empty''"
  "replicate 255 (110 :: byte) \<noteq> ascii ''blob''" "replicate 255 (110 :: byte) \<noteq> ascii ''gone''"
  "replicate 255 (110 :: byte) \<noteq> ascii ''new''"
  by (auto dest!: arg_cong [of _ _ length])

lemma fixture_bound:
  "bound fixture_names fixture_secrets =
    {ascii ''api_key'', ascii ''empty'', replicate 255 110, ascii ''blob''}"
  "bound fixture_names (fixture_secrets(ascii ''new'' \<mapsto> p)) =
    {ascii ''api_key'', ascii ''empty'', replicate 255 110, ascii ''blob'', ascii ''new''}"
  using fixture_apart fixture_apart [symmetric]
  by (auto simp: bound_def fixture_names_def fixture_secrets_def ascii_def)

lemma fixture_entries:
  assumes "aead_laws X" "names_separated X fixture_names"
    and "stands_for X fixture_names (s, v, pw) (pw, fixture_secrets)"
  shows "assert_fixture_entries X v s" "length (files (index v)) = 4"
proof -
  have "length (files (index v)) = card (bound fixture_names fixture_secrets)"
    by (rule vault_size(1) [OF assms(1,3) separated_apart [OF assms(2)]])
  also have "\<dots> = 4"
    unfolding fixture_bound using fixture_apart by (simp add: ascii_def)
  finally show n: "length (files (index v)) = 4" .
  have "retrieve X v s n = Inr (fixture_secrets n)" if "n \<in> fixture_names" for n
    using assms(3) that by (simp add: stands_for_def)
  then have "retrieve X v s (ascii ''api_key'') = Inr (fixture_secrets (ascii ''api_key''))"
    "retrieve X v s (ascii ''empty'') = Inr (fixture_secrets (ascii ''empty''))"
    "retrieve X v s (replicate 255 110) = Inr (fixture_secrets (replicate 255 110))"
    "retrieve X v s (ascii ''blob'') = Inr (fixture_secrets (ascii ''blob''))"
    "retrieve X v s (ascii ''gone'') = Inr (fixture_secrets (ascii ''gone''))"
    unfolding fixture_names_def by blast+
  with n show "assert_fixture_entries X v s"
    using fixture_apart fixture_apart [symmetric]
    by (simp add: assert_fixture_entries_def fixture_secrets_def ascii_def Let_def)
qed

section \<open>Export and open again\<close>

lemma reopened:
  assumes "test_machine X s" "stands_for X N (s, v, pw) (pw, m)"
    and "unat (nonce_counter (index v)) + 1 < 2 ^ 64" "export_size X v \<le> MAX_VAULT_FILE_SIZE"
  obtains out v1 s1 e w t where "export X v s = (Inr out, v1, s1)" "length out = export_size X v"
    "parse_envelope X out = Inr e" "env_header e = header v" "open_vault X pw out s1 = (Inr w, t)"
    "stands_for X N (t, w, pw) (pw, m)" "test_machine X t"
    "unat (nonce_counter (index w)) = unat (nonce_counter (index v)) + 1"
    "data_nonce_counter (index w) = data_nonce_counter (index v)"
proof -
  have mach: "env_works X" "mem_ok s" "finite (dom (heap s))"
    using assms(1) by (simp_all add: test_machine_def)
  note laws = env_worksD [OF mach(1)]
  obtain ek hk where c: "vault_ok s v" "keys_live s (index v) ek hk"
    "password_keys X pw (header v) = Inr (ek, hk)" "sealed_for X ek hk N (files (index v))"
    "\<forall>n \<in> N. read_secret X ek hk (files (index v)) n = Inr (m n)"
    by (rule stands_forD [OF assms(2)])
  have unl: "unlocked_by X pw s v" using assms(2) by (simp add: stands_for_def)
  have "export_size X v < 2 ^ 32" using assms(4) by (simp add: MAX_VAULT_FILE_SIZE_def)
  then obtain out n x where len: "length out = export_size X v"
    and e: "export X v s = (and_then (validate_export_size (length out)) (\<lambda>_. Inr out),
       v\<lparr>index := (index v)\<lparr>nonce := n, nonce_counter := nonce_counter (index v) + 1\<rparr>\<rparr>, s\<lparr>ext := x\<rparr>)"
    by (rule export_runs [OF mach(1) c(1) assms(3)])
  let ?v = "v\<lparr>index := (index v)\<lparr>nonce := n, nonce_counter := nonce_counter (index v) + 1\<rparr>\<rparr>"
    and ?s = "s\<lparr>ext := x\<rparr>"
  have e: "export X v s = (Inr out, ?v, ?s)"
    using e len assms(4) by (simp add: validate_export_size_def)
  have s1: "mem_ok ?s" "finite (dom (heap ?s))" using mach by simp_all
  obtain w t where w: "open_vault X pw out ?s = (Inr w, t)"
    by (rule reopen_works [OF mach(1) c(1) unl e s1(2)])
  have re: "header w = header v" "files (index w) = files (index v)"
    "data_nonce_counter (index w) = data_nonce_counter (index v)"
    "nonce_counter (index w) = nonce_counter (index v) + 1" "vault_ok t w" "unlocked_by X pw t w"
    "\<forall>n. retrieve X w t n = retrieve X v s n"
    using export_reopens [OF laws(1) c(1) unl e s1(1)] w by simp_all
  then obtain ek' hk' where live: "keys_live t (index w) ek' hk'" and
    keys: "password_keys X pw (header w) = Inr (ek', hk')" by (auto simp: unlocked_by_def)
  then have same: "ek' = ek" "hk' = hk" using c(3) re(1) by simp_all
  have st: "stands_for X N (t, w, pw) (pw, m)"
    by (rule stands_forI [OF re(5) live keys]) (use c(4,5) re(2) same in simp_all)
  obtain a b where "adds_keys ?s (index w) a b t"
    by (rule reopened_keys [OF laws(1) c(1) unl s1(1) e w])
  then have "finite (dom (heap t))" by (rule adds_keys_finite) (rule s1(2))
  moreover have "mem_ok t" using re(5) by (simp add: vault_ok_def)
  ultimately have t: "test_machine X t" using mach(1) by (simp add: test_machine_def)
  have "unat (nonce_counter (index v) + 1) = unat (nonce_counter (index v)) + 1"
    using assms(3) by (simp add: unat_word_ariths)
  moreover obtain env where "parse_envelope X out = Inr env" "env_header env = header v"
    using export_opens_to [OF laws(1) c(1,3,2) e] by (auto simp: opens_to_def)
  ultimately show thesis
    using re(3,4) by (intro that [OF e len _ _ w st t]) simp_all
qed

section \<open>The fixture tests\<close>

lemma fixture_utf8: "\<forall>n \<in> fixture_names. utf8_valid n"
  by (auto simp: fixture_names_def ascii_def intro!: utf8_valid_ascii simp: list_all_iff)

lemma fixture_sizes:
  assumes "env_works X" "names_separated X fixture_names"
    and "stands_for X fixture_names (s, v, pw) (pw, fixture_secrets)"
  shows "export_size X v < 10556"
proof -
  have ok: "vault_ok s v" using assms(3) by (simp add: stands_for_def)
  have "encoded_total (index v) = INDEX_PREAMBLE_LEN +
      (\<Sum>n \<in> bound fixture_names fixture_secrets.
        ENTRY_FIXED_LEN + 2 * MIN_ENCRYPTED_LEN + length n + length (the (fixture_secrets n)))"
    by (rule vault_size(2) [OF env_worksD(7) [OF assms(1)] assms(3) separated_apart [OF assms(2)]])
  also have "\<dots> = 22 + 4 * (48 + 80) + 7 + 19 + 5 + 255 + 12 + 4 + 5000"
    unfolding fixture_bound using fixture_apart fixture_apart [symmetric]
    by (simp add: fixture_secrets_def ascii_def const_defs)
  finally show ?thesis
    using header_json_small [OF assms(1) ok] by (simp add: export_size_def const_defs)
qed

lemma V1_PASSWORD_short: "length V1_PASSWORD < 2 ^ 32"
  by (simp add: V1_PASSWORD_def)

lemma fixture_opens_test:
  assumes "test_machine X s" "is_v1_fixture X data env" "names_separated X fixture_names"
  obtains v s1 where "open_vault X V1_PASSWORD data s = (Inr v, s1)"
    "v1_fixture_opens_and_is_rewritten_as_current_format X data s \<longleftrightarrow>
       kdf_salt (header v) \<noteq> kdf_salt (env_header env)"
proof -
  have mach: "env_works X" using assms(1) by (simp add: test_machine_def)
  note aead = env_worksD(7) [OF mach] and apart = separated_apart [OF assms(3)]
  have fx: "legacy_file X V1_PASSWORD data env fixture_names fixture_secrets" "length data = 21112"
    using assms(2) by (simp_all add: is_v1_fixture_def)
  have env: "parse_envelope X data = Inr env" "version (env_header env) = LEGACY_VAULT_VERSION_1"
    using fx(1) by (auto simp: legacy_file_def opens_to_def)
  obtain v s1 where v: "open_vault X V1_PASSWORD data s = (Inr v, s1)" "generated_header (header v)"
    "stands_for X fixture_names (s1, v, V1_PASSWORD) (V1_PASSWORD, fixture_secrets)"
    "nonce_counter (index v) = 0" "unat (data_nonce_counter (index v)) = length (files (index v))"
    "test_machine X s1"
    by (rule upgrade_works [OF assms(1) fx(1) fixture_utf8 assms(3) V1_PASSWORD_short])
  note size = fixture_sizes [OF mach assms(3) v(3)]
  obtain out v1 s2 e w s3 where r: "export X v s1 = (Inr out, v1, s2)" "length out = export_size X v"
    "parse_envelope X out = Inr e" "env_header e = header v"
    "open_vault X V1_PASSWORD out s2 = (Inr w, s3)"
    "stands_for X fixture_names (s3, w, V1_PASSWORD) (V1_PASSWORD, fixture_secrets)"
    "test_machine X s3" "unat (nonce_counter (index w)) = unat (nonce_counter (index v)) + 1"
    "data_nonce_counter (index w) = data_nonce_counter (index v)"
    by (rule reopened [OF v(6,3)]) (use size in \<open>simp_all add: v(4) MAX_VAULT_FILE_SIZE_def\<close>)
  note four = fixture_entries(2) [OF aead assms(3) v(3)] fixture_entries(2) [OF aead assms(3) r(6)]
  have new: "ascii ''new'' \<in> fixture_names" by (simp add: fixture_names_def)
  obtain w1 s4 where st: "store X w s3 (ascii ''new'') (ascii ''after migration'') = (Inr (), w1, s4)"
    "test_machine X s4"
    "stands_for X fixture_names (s4, w1, V1_PASSWORD)
      (V1_PASSWORD, fixture_secrets(ascii ''new'' \<mapsto> ascii ''after migration''))"
    "nonce_counter (index w1) = nonce_counter (index w)"
    by (rule stored [OF r(7,6) apart new, of "ascii ''after migration''"])
      (simp_all add: four r(9) v(5) test_lengths MAX_INDEX_ENTRIES_def)
  have ok: "vault_ok s4 w1" using st(3) by (simp add: stands_for_def)
  have five: "length (files (index w1)) = 5"
    using vault_size(1) [OF aead st(3) apart] fixture_apart unfolding fixture_bound
    by (simp add: ascii_def)
  have total: "encoded_total (index w1) < 12000"
    using vault_size(2) [OF aead st(3) apart] fixture_apart fixture_apart [symmetric]
    unfolding fixture_bound by (simp add: fixture_secrets_def ascii_def const_defs)
  have "export_size X w1 \<le> MAX_VAULT_FILE_SIZE"
    using header_json_small [OF mach ok] total by (simp add: export_size_def const_defs)
  then obtain out1 w2 s5 again s6 where a: "export X w1 s4 = (Inr out1, w2, s5)"
    "open_vault X V1_PASSWORD out1 s5 = (Inr again, s6)"
    "stands_for X fixture_names (s6, again, V1_PASSWORD)
      (V1_PASSWORD, fixture_secrets(ascii ''new'' \<mapsto> ascii ''after migration''))"
    by (rule reopened [OF st(2,3), rotated]) (simp_all add: st(4) r(8) v(4))
  have "length (files (index again)) = 5"
    using vault_size(1) [OF aead a(3) apart] vault_size(1) [OF aead st(3) apart] five by simp
  moreover have "retrieve X again s6 (ascii ''new'') = Inr (Some (ascii ''after migration''))"
    using a(3) new by (simp add: stands_for_def)
  ultimately have "v1_fixture_opens_and_is_rewritten_as_current_format X data s \<longleftrightarrow>
      kdf_salt (header v) \<noteq> kdf_salt (env_header env)"
    using size generated_header_version [OF v(2)]
    by (simp add: v1_fixture_opens_and_is_rewritten_as_current_format_def env v(1) r(1-5) st(1) a(1,2)
        fx(2) fixture_entries(1) [OF aead assms(3) v(3)] fixture_entries(1) [OF aead assms(3) r(6)])
  with v(1) show thesis by (rule that)
qed

lemma fixture_password_test:
  assumes "test_machine X s" "is_v1_fixture X data env" "argon2i_works X"
  shows "v1_fixture_rejects_wrong_password X data s \<longleftrightarrow>
    \<not> index_opens X (ascii ''wrong-password!'') data"
proof -
  have mach: "env_works X" using assms(1) by (simp add: test_machine_def)
  have env: "parse_envelope X data = Inr env" "version (env_header env) = LEGACY_VAULT_VERSION_1"
    using assms(2) by (auto simp: is_v1_fixture_def legacy_file_def opens_to_def)
  obtain hj where h: "header_from_json X hj = Inr (env_header env)" "header_in_policy (env_header env)"
    by (rule parse_envelope_inv [OF env(1)])
  then have salt: "length (kdf_salt (env_header env)) = SALT_LEN"
    using env_worksD(9) [OF mach] unfolding json_laws_def by blast
  obtain ek hk where keys: "password_keys X (ascii ''wrong-password!'') (env_header env) = Inr (ek, hk)"
    by (rule legacy_keys_work [OF mach assms(3) h(2) env(2) salt, of "ascii ''wrong-password!''"]) simp_all
  then show ?thesis
    unfolding v1_fixture_rejects_wrong_password_def by (rule parsed_rejected_iff [OF env(1)])
qed

text \<open>The 8 bytes behind the nonce of a version 1 file are skipped: whatever they are, the file holds
  the same envelope.\<close>

lemma legacy_gap_ignored:
  assumes "parse_envelope X data = Inr env" "version (env_header env) = LEGACY_VAULT_VERSION_1"
  obtains hj gap where "length hj \<le> MAX_HEADER_JSON_LEN" "length gap = 8"
    "header_len_of data = length hj" "length (env_nonce env) = XCHACHA20_NONCE_LEN"
    "data = u32_to_le (of_nat (length hj)) @ hj @ env_nonce env @ gap @ env_encrypted_index env"
    "\<forall>gap'. length gap' = 8 \<longrightarrow> parse_envelope X
       (u32_to_le (of_nat (length hj)) @ hj @ env_nonce env @ gap' @ env_encrypted_index env) = Inr env"
    "\<forall>rest. length rest < 8 \<longrightarrow> isl (parse_envelope X
       (u32_to_le (of_nat (length hj)) @ hj @ env_nonce env @ rest))"
proof -
  obtain hj gap where e: "header_to_json X (env_header env) = Inr hj"
    "header_from_json X hj = Inr (env_header env)" "header_in_policy (env_header env)"
    "length hj \<le> MAX_HEADER_JSON_LEN" "length (env_nonce env) = XCHACHA20_NONCE_LEN"
    "length gap = legacy_gap (env_header env)" "length data \<le> MAX_VAULT_FILE_SIZE"
    "data = u32_to_le (of_nat (length hj)) @ hj @ env_nonce env @ gap @ env_encrypted_index env"
    by (rule parse_envelope_inv [OF assms(1)])
  have gap: "length gap = 8" using e(6) assms(2) by (simp add: legacy_gap_def)
  have hl: "unat (of_nat (length hj) :: u32) = length hj"
    using e(4) by (intro unat_u32_of_nat) (simp add: const_defs)
  have same: "parse_envelope X (u32_to_le (of_nat (length hj)) @ hj @ env_nonce env @ gap' @
      env_encrypted_index env) = Inr env" if "length gap' = 8" for gap'
  proof -
    have "length gap' = legacy_gap (env_header env)" using that by (simp add: legacy_gap_def assms(2))
    moreover have "length (u32_to_le (of_nat (length hj)) @ hj @ env_nonce env @ gap' @
        env_encrypted_index env) \<le> MAX_VAULT_FILE_SIZE"
      using e(7) that gap unfolding e(8) by simp
    ultimately show ?thesis using parse_envelope_layout [OF e(1-5) _ refl] by simp
  qed
  have short: "isl (parse_envelope X (u32_to_le (of_nat (length hj)) @ hj @ env_nonce env @ rest))"
    if "length rest < 8" for rest
  proof (rule ccontr)
    let ?data = "u32_to_le (of_nat (length hj)) @ hj @ env_nonce env @ rest"
    assume "\<not> isl (parse_envelope X ?data)"
    then obtain env' where "parse_envelope X ?data = Inr env'" by (cases "parse_envelope X ?data") auto
    then obtain hj' gap' where e': "header_to_json X (env_header env') = Inr hj'"
      "header_from_json X hj' = Inr (env_header env')" "length hj' \<le> MAX_HEADER_JSON_LEN"
      "length (env_nonce env') = XCHACHA20_NONCE_LEN" "length gap' = legacy_gap (env_header env')"
      "?data = u32_to_le (of_nat (length hj')) @ hj' @ env_nonce env' @ gap' @ env_encrypted_index env'"
      by (rule parse_envelope_inv)
    have "unat (of_nat (length hj') :: u32) = length hj'"
      using e'(3) by (intro unat_u32_of_nat) (simp add: const_defs)
    moreover have "u32_to_le (of_nat (length hj)) = u32_to_le (of_nat (length hj'))"
      using arg_cong [OF e'(6), of "take 4"] by simp
    then have "(of_nat (length hj) :: u32) = of_nat (length hj')" by (simp only: le32.enc_inject)
    ultimately have len: "length hj' = length hj" using hl by metis
    have tail: "hj @ env_nonce env @ rest = hj' @ env_nonce env' @ gap' @ env_encrypted_index env'"
      using arg_cong [OF e'(6), of "drop 4"] by simp
    have "hj' = hj" using arg_cong [OF tail, of "take (length hj)"] len by simp
    moreover have "rest = gap' @ env_encrypted_index env'"
      using arg_cong [OF tail, of "drop (length hj + XCHACHA20_NONCE_LEN)"] len e(5) e'(4) by simp
    ultimately have "hj' = hj" "rest = gap' @ env_encrypted_index env'" by simp_all
    moreover from this(1) have "env_header env' = env_header env" using e(2) e'(2) by simp
    ultimately show False using that e'(5) assms(2) by (simp add: legacy_gap_def)
  qed
  have "header_len_of data = length hj"
    unfolding e(8) by (rule header_len_of_headed [OF e(4)])
  then show thesis by (rule that [OF e(4) gap _ e(5,8)]) (blast intro: same short)+
qed

lemma fixture_counter_test:
  assumes "test_machine X s" "is_v1_fixture X data env" "names_separated X fixture_names"
  shows "v1_fixture_ignores_the_unauthenticated_counter_bytes X data s"
proof -
  have mach: "env_works X" using assms(1) by (simp add: test_machine_def)
  have fx: "legacy_file X V1_PASSWORD data env fixture_names fixture_secrets"
    using assms(2) by (simp add: is_v1_fixture_def)
  then have env: "parse_envelope X data = Inr env" "version (env_header env) = LEGACY_VAULT_VERSION_1"
    by (auto simp: legacy_file_def opens_to_def)
  obtain hj gap where g: "length hj \<le> MAX_HEADER_JSON_LEN" "length gap = 8"
    "header_len_of data = length hj" "length (env_nonce env) = XCHACHA20_NONCE_LEN"
    "data = u32_to_le (of_nat (length hj)) @ hj @ env_nonce env @ gap @ env_encrypted_index env"
    "\<forall>gap'. length gap' = 8 \<longrightarrow> parse_envelope X
       (u32_to_le (of_nat (length hj)) @ hj @ env_nonce env @ gap' @ env_encrypted_index env) = Inr env"
    by (rule legacy_gap_ignored [OF env])
  let ?new = "u32_to_le (of_nat (length hj)) @ hj @ env_nonce env @ map (\<lambda>b. b XOR 0xFF) gap @
    env_encrypted_index env"
  have "parse_envelope X ?new = Inr env" using g(2,6) by simp
  then have "legacy_file X V1_PASSWORD ?new env fixture_names fixture_secrets"
    using fx by (simp add: legacy_file_def opens_to_def)
  then obtain v s1 where "open_vault X V1_PASSWORD ?new s = (Inr v, s1)"
    "stands_for X fixture_names (s1, v, V1_PASSWORD) (V1_PASSWORD, fixture_secrets)"
    by (rule upgrade_works [OF assms(1) _ fixture_utf8 assms(3) V1_PASSWORD_short])
  moreover have "xor_range (4 + length hj + XCHACHA20_NONCE_LEN) 8 0xFF data k \<longleftrightarrow> k ?new" for k
    using g(2,4) by (simp add: xor_range_def g(5))
  ultimately show ?thesis
    using fixture_entries(1) [OF env_worksD(7) [OF mach] assms(3)]
    by (simp add: v1_fixture_ignores_the_unauthenticated_counter_bytes_def g(3))
qed

lemma fixture_truncated_test:
  assumes "test_machine X s" "is_v1_fixture X data env"
  shows "v1_fixture_truncated_inside_counter_is_rejected X data s"
proof -
  have json: "json_laws X" using assms(1) env_worksD(9) by (auto simp: test_machine_def)
  have env: "parse_envelope X data = Inr env" "version (env_header env) = LEGACY_VAULT_VERSION_1"
    using assms(2) by (auto simp: is_v1_fixture_def legacy_file_def opens_to_def)
  obtain hj gap where g: "length gap = 8" "header_len_of data = length hj"
    "length (env_nonce env) = XCHACHA20_NONCE_LEN"
    "data = u32_to_le (of_nat (length hj)) @ hj @ env_nonce env @ gap @ env_encrypted_index env"
    "\<forall>rest. length rest < 8 \<longrightarrow> isl (parse_envelope X
       (u32_to_le (of_nat (length hj)) @ hj @ env_nonce env @ rest))"
    by (rule legacy_gap_ignored [OF env])
  have "take (4 + length hj + XCHACHA20_NONCE_LEN + 4) data =
      u32_to_le (of_nat (length hj)) @ hj @ env_nonce env @ take 4 gap"
    using g(1,3) by (simp add: g(4))
  moreover have "isl (parse_envelope X (u32_to_le (of_nat (length hj)) @ hj @ env_nonce env @ take 4 gap))"
    using g(5) by simp
  ultimately have "rejected_as_corrupted (open_vault X V1_PASSWORD
      (take (4 + length hj + XCHACHA20_NONCE_LEN + 4) data) s)"
    by (intro rejects_unparsable [OF json]) simp
  then show ?thesis
    using g(1,3) by (simp add: v1_fixture_truncated_inside_counter_is_rejected_def g(2))
      (simp add: g(4))
qed

section \<open>The tests together\<close>

text \<open>C40: The tests on format version 1, run on any file of the fixture's size that holds its four
  names under its password: it opens with the entries the test asserts whatever its unauthenticated
  counter bytes are, it is refused when cut inside them, a wrong password is reported as such
  exactly when the cipher refuses the index, and the upgraded vault is rewritten in the current
  format, less than half as long, opens again, takes a new entry and opens once more; that test
  passes exactly when the fresh salt differs from the one in the file.\<close>

theorem fixture_tests:
  assumes "env_works X" "mem_ok s" "finite (dom (heap s))" "argon2i_works X"
    and "is_v1_fixture X data env" "names_separated X fixture_names"
  shows "v1_fixture_ignores_the_unauthenticated_counter_bytes X data s \<and>
    v1_fixture_truncated_inside_counter_is_rejected X data s \<and>
    (v1_fixture_rejects_wrong_password X data s \<longleftrightarrow>
      \<not> index_opens X (ascii ''wrong-password!'') data) \<and>
    (\<exists>v s1. open_vault X V1_PASSWORD data s = (Inr v, s1) \<and>
      (v1_fixture_opens_and_is_rewritten_as_current_format X data s \<longleftrightarrow>
        kdf_salt (header v) \<noteq> kdf_salt (env_header env)))"
proof -
  have m: "test_machine X s" using assms(1-3) by (simp add: test_machine_def)
  obtain v s1 where "open_vault X V1_PASSWORD data s = (Inr v, s1)"
    "v1_fixture_opens_and_is_rewritten_as_current_format X data s \<longleftrightarrow>
       kdf_salt (header v) \<noteq> kdf_salt (env_header env)"
    by (rule fixture_opens_test [OF m assms(5,6)])
  then show ?thesis
    using fixture_counter_test [OF m assms(5,6)] fixture_truncated_test [OF m assms(5)]
      fixture_password_test [OF m assms(5,4)] by blast
qed

section \<open>A file that fits\<close>

text \<open>
  The sample instance with a JSON reader that takes the length of the index from its first four
  bytes and ignores what follows it, so that a file can be as long as the fixture.
\<close>

definition padded_index :: "bytes \<Rightarrow> bytes" where
  "padded_index b = take (unat (u32_from_le (take 4 b))) (drop 4 b)"

definition padded :: "nat externals" where
  "padded = working\<lparr>index_v1_from_json := \<lambda>b. toy_index_v1_from_json (padded_index b)\<rparr>"

definition held :: "(bytes \<times> bytes) list" where
  "held = [(ascii ''api_key'', ascii ''sk-fixture-12345-v2''), (ascii ''empty'', []),
     (replicate 255 110, ascii ''longest name''),
     (ascii ''blob'', map (\<lambda>i. of_nat (i * 7 mod 251)) [0..<5000])]"

definition held_key :: "bytes \<Rightarrow> bytes" where
  "held_key n = key_to_hex (working_tag n)"

definition v1_subkey :: "bytes \<Rightarrow> bytes" where
  "v1_subkey info = replicate 32
     (sum_list (take 32 (V1_PASSWORD @ replicate 32 1)) + sum_list (replicate 16 0 :: bytes) +
      sum_list info)"

definition held_files :: "(bytes \<times> index_entry) list" where
  "held_files = map (\<lambda>(n, p). (held_key n,
     toy_entry (v1_subkey ENCRYPTION_SUBKEY_INFO) (held_key n) 0 4 n p)) held"

definition held_json :: bytes where
  "held_json = u32_to_le (of_nat 5836) @ index_layout 5 9 held_files @ replicate 15185 0"

definition held_envelope :: envelope where
  "held_envelope = \<lparr>env_header = legacy_header, env_nonce = replicate 24 8,
     env_encrypted_index = held_json @ toy_tag (v1_subkey ENCRYPTION_SUBKEY_INFO) (replicate 24 8)
       held_json (0 # legacy_header_json)\<rparr>"

definition held_data :: bytes where
  "held_data = u32_to_le (of_nat 35) @ (0 # legacy_header_json) @ replicate 24 8 @ replicate 8 0 @
     env_encrypted_index held_envelope"

lemma padded_fields:
  "header_to_json padded = header_to_json working" "header_from_json padded = header_from_json working"
  "seal_with_aad padded = seal_with_aad sample" "name_key padded = name_key working"
  "xchacha_open padded = toy_open" "chacha_secret_key padded = chacha_secret_key sample"
  "xchacha_nonce padded = xchacha_nonce sample"
  by (simp_all add: padded_def seal_with_aad_def name_key_def working_fields sample_fields fun_eq_iff)

lemma padded_env: "env_works padded" "argon2i_works padded"
proof -
  have "distinct (map fst (v1_files d))" if "index_v1_from_json padded b = Inr d" for b d
    using that sample_json unfolding json_laws_def by (simp add: padded_def sample_fields)
  then have "json_laws padded"
    using working_json unfolding json_laws_def padded_fields by blast
  then show "env_works padded"
    using working_env
    by (simp add: env_works_def ext_laws_def rng_laws_def memsec_laws_def aead_laws_def hash_laws_def
        memory_works_def crypto_works_def kdf_works_def padded_def)
  show "argon2i_works padded"
    by (simp add: argon2i_works_def padded_def working_def sample_fields)
qed

lemma held_tags: "inj_on working_tag fixture_names"
proof -
  define long :: bytes where "long = replicate 255 110"
  define short where "short = {ascii ''api_key'', ascii ''empty'', ascii ''blob'', ascii ''gone'', ascii ''new''}"
  have hd_long: "hd (working_tag long) = 0" by (simp add: long_def working_tag_def)
  have "\<forall>n \<in> short. length n \<le> 31 \<and> hd (working_tag n) \<noteq> 0"
    by (simp add: short_def working_tag_def)
  then have small: "length n \<le> 31" "hd (working_tag n) \<noteq> 0" if "n \<in> short" for n
    using that by blast+
  have names: "fixture_names = insert long short"
    unfolding fixture_names_def short_def long_def by blast
  have "inj_on working_tag short"
    using small(1) by (intro inj_onI) (rule working_tag_inject)
  moreover have "working_tag long \<notin> working_tag ` (short - {long})"
  proof
    assume "working_tag long \<in> working_tag ` (short - {long})"
    then obtain n where "working_tag long = working_tag n" "n \<in> short" by blast
    with small(2) [of n] hd_long show False by simp
  qed
  ultimately show ?thesis unfolding names inj_on_insert by (rule conjI)
qed

lemma padded_separates: "names_separated padded fixture_names"
  using held_tags
  by (auto simp: names_separated_def names_apart_def padded_fields name_key_def working_fields
      sample_fields key_to_hex_inject dest: inj_onD)

lemma v1_subkeys: "password_keys padded V1_PASSWORD legacy_header =
    Inr (v1_subkey ENCRYPTION_SUBKEY_INFO, v1_subkey HMAC_SUBKEY_INFO)"
  by (simp add: password_keys_def derive_master_key_def derive_subkeys_def padded_def working_def sample_fields
      legacy_header_facts(5) v1_subkey_def)
    (simp add: legacy_header_def toy_header_def vault_header_new_def const_defs)

lemma v1_subkey_length [simp]: "length (v1_subkey info) = 32"
  by (simp add: v1_subkey_def)

lemma held_entry_lengths:
  "length (encrypted_name (toy_entry (v1_subkey info) k 0 4 n p)) = length n + 40"
  "length (encrypted_data (toy_entry (v1_subkey info) k 0 4 n p)) = length p + 40"
  "data_counter (toy_entry (v1_subkey info) k 0 4 n p) = 0"
  by (simp_all add: toy_entry_def Let_def const_defs)

lemma held_keys: "is_hex_key (held_key n)"
  by (rule name_key_hex [of working "replicate 32 0" n])
    (use ext_lawsD(4) [OF working_laws] in \<open>simp_all add: held_key_def name_key_def working_fields sample_fields\<close>)

lemma held_names: "fst ` set held \<subseteq> fixture_names" "distinct (map fst held)"
  using fixture_apart fixture_apart [symmetric]
  by (auto simp: held_def fixture_names_def ascii_def)

lemma held_sizes: "list_all (\<lambda>(n, p). length n \<le> 255 \<and> length p \<le> 5000) held"
  by (simp add: held_def)

lemma held_files_ok: "files_ok held_files"
proof -
  have "inj_on held_key (fst ` set held)"
    using inj_on_subset [OF held_tags held_names(1)] by (auto simp: inj_on_def held_key_def key_to_hex_inject)
  then have "distinct (map held_key (map fst held))"
    using held_names(2) by (simp only: distinct_map set_map simp_thms)
  then have "distinct (map fst held_files)" by (simp add: held_files_def comp_def case_prod_beta)
  moreover have "list_all file_ok held_files"
    using held_sizes held_keys
    by (auto simp: held_files_def list_all_iff file_ok_def sizes_ok_def held_entry_lengths const_defs)
  ultimately show ?thesis by (simp add: files_ok_def held_files_def held_def MAX_INDEX_ENTRIES_def)
qed

lemma held_layout_length: "length (index_layout 5 9 held_files) = 5836"
proof -
  have "length (index_layout 5 9 held_files) = INDEX_PREAMBLE_LEN +
      sum_list (map (\<lambda>f. ENTRY_FIXED_LEN + length (encrypted_name (snd f)) +
        length (encrypted_data (snd f))) held_files)"
    using length_index_layout [of held_files 5 9] held_files_ok by (simp add: files_ok_def)
  then show ?thesis
    by (simp add: held_files_def held_def held_entry_lengths const_defs)
qed

lemma held_json_padded: "padded_index held_json = index_layout 5 9 held_files"
  by (simp add: padded_index_def held_json_def held_layout_length)

lemma v1_entries_toy:
  "v1_entries (map (\<lambda>(k, e). (k, toy_v1_meta e)) fs) = fs"
  "list_all file_ok fs \<Longrightarrow> list_all v1_meta_ok (map (\<lambda>(k, e). (k, toy_v1_meta e)) fs)"
proof -
  have e: "v1_entry (toy_v1_meta e) = Some e" "\<not> is_dummy (toy_v1_meta e)" for e
    by (cases e; simp add: v1_entry_def toy_v1_meta_def)+
  show "v1_entries (map (\<lambda>(k, e). (k, toy_v1_meta e)) fs) = fs"
    by (induction fs) (auto simp: e)
  show "list_all file_ok fs \<Longrightarrow> list_all v1_meta_ok (map (\<lambda>(k, e). (k, toy_v1_meta e)) fs)"
    by (auto simp: list_all_iff v1_meta_ok_def file_ok_def e)
qed

lemma held_decodes: "decode_index_v1 padded held_json =
    Inr \<lparr>idx_nonce_counter = 5, idx_data_nonce_counter = 9, idx_files = held_files\<rparr>"
proof -
  have "index_v1_from_json padded held_json =
      Inr \<lparr>v1_version = LEGACY_INDEX_VERSION_1, v1_nonce_counter = 5, v1_data_nonce_counter = 9,
        v1_files = ([], toy_dummy) # map (\<lambda>(k, e). (k, toy_v1_meta e)) held_files\<rparr>"
    by (simp add: padded_def held_json_padded toy_index_v1_from_json_def decode_index_layout [OF held_files_ok])
  moreover have "length held_files = 4" by (simp add: held_files_def held_def)
  ultimately show ?thesis
    using v1_entries_toy(2) [of held_files] held_files_ok
    unfolding decode_index_v1_iff [OF env_worksD(9) [OF padded_env(1)]]
    by (simp add: v1_entries_toy(1) v1_meta_ok_def toy_dummy_def files_ok_def MAX_INDEX_ENTRIES_def)
qed

lemma held_opens_to:
  "opens_to padded V1_PASSWORD held_data held_envelope (v1_subkey ENCRYPTION_SUBKEY_INFO)
     (v1_subkey HMAC_SUBKEY_INFO)
     \<lparr>idx_nonce_counter = 5, idx_data_nonce_counter = 9, idx_files = held_files\<rparr>"
  "length held_data = 21112"
proof -
  have hj: "header_to_json padded legacy_header = Inr (0 # legacy_header_json)"
    "header_from_json padded (0 # legacy_header_json) = Inr legacy_header"
    using legacy_header_facts(1,2) unfolding padded_fields by (simp_all add: working_def)
  have len: "length held_json = 21025" by (simp add: held_json_def held_layout_length)
  then show total: "length held_data = 21112"
    using legacy_header_facts(3) by (simp add: held_data_def held_envelope_def const_defs)
  have "parse_envelope padded held_data = Inr held_envelope"
    unfolding held_envelope_def using hj legacy_header_facts(3,4,5) total
    by (intro parse_envelope_layout [of padded legacy_header "0 # legacy_header_json" _ "replicate 8 0"])
      (simp_all add: held_data_def held_envelope_def legacy_gap_def const_defs)
  moreover have "open_index padded held_envelope (v1_subkey ENCRYPTION_SUBKEY_INFO) =
      Inr \<lparr>idx_nonce_counter = 5, idx_data_nonce_counter = 9, idx_files = held_files\<rparr>"
    using held_decodes hj(1) legacy_header_facts(5)
    by (simp add: open_index_def to_aad_bytes_def open_with_aad_def padded_fields sample_fields
        toy_open_def held_envelope_def const_defs Let_def)
  moreover have "list_all (\<lambda>f. data_counter (snd f) < 9) held_files"
    by (simp add: held_files_def held_def held_entry_lengths)
  ultimately show "opens_to padded V1_PASSWORD held_data held_envelope
      (v1_subkey ENCRYPTION_SUBKEY_INFO) (v1_subkey HMAC_SUBKEY_INFO)
      \<lparr>idx_nonce_counter = 5, idx_data_nonce_counter = 9, idx_files = held_files\<rparr>"
    using v1_subkeys by (simp add: opens_to_def held_envelope_def)
qed

lemma map_of_renamed:
  "inj_on f (insert n (fst ` set xs)) \<Longrightarrow>
    map_of (map (\<lambda>(n, p). (f n, g n p)) xs) (f n) = map_option (g n) (map_of xs n)"
  by (induction xs) (auto simp: inj_on_def split: if_splits)

lemma held_secrets: "fixture_secrets = map_of held"
  using fixture_apart fixture_apart [symmetric]
  by (simp add: fixture_secrets_def held_def fun_eq_iff ascii_def)

lemma held_fixture: "is_v1_fixture padded held_data held_envelope"
proof -
  let ?ek = "v1_subkey ENCRYPTION_SUBKEY_INFO" and ?hk = "v1_subkey HMAC_SUBKEY_INFO"
  have aead: "aead_laws padded" by (rule env_worksD(7) [OF padded_env(1)])
  have key: "name_key padded ?hk n = Inr (held_key n)" for n
    by (simp add: padded_fields name_key_def working_fields sample_fields held_key_def)
  have sealed: "sealed_entry padded ?ek k n p (toy_entry ?ek k 0 4 n p)" for k n p
    using toy_entry_sealed [of ?ek k n p 0 4] by (simp add: sealed_entry_def padded_fields)
  have "sealed_for padded ?ek ?hk fixture_names held_files"
    using held_names(1) key sealed by (fastforce simp: sealed_for_def held_files_def)
  moreover have "read_secret padded ?ek ?hk held_files n = Inr (fixture_secrets n)"
    if n: "n \<in> fixture_names" for n
  proof -
    have "inj_on held_key (insert n (fst ` set held))"
      using n held_names(1) held_tags by (auto simp: inj_on_def held_key_def key_to_hex_inject)
    from map_of_renamed [OF this, of "\<lambda>n p. toy_entry ?ek (held_key n) 0 4 n p"]
    have entry: "map_of held_files (held_key n) =
        map_option (toy_entry ?ek (held_key n) 0 4 n) (fixture_secrets n)"
      by (simp add: held_files_def held_secrets)
    show ?thesis
    proof (cases "fixture_secrets n")
      case None
      with entry key show ?thesis by (simp add: read_secret_def)
    next
      case (Some p)
      with entry have "map_of held_files (held_key n) = Some (toy_entry ?ek (held_key n) 0 4 n p)" by simp
      from read_sealed [OF aead _ sealed key this] Some show ?thesis by (simp add: SUBKEY_LEN_def)
    qed
  qed
  moreover have "version (env_header held_envelope) = LEGACY_VAULT_VERSION_1"
    using legacy_header_facts(5) by (simp add: held_envelope_def)
  ultimately show ?thesis
    using held_opens_to unfolding is_v1_fixture_def legacy_file_def by fastforce
qed

theorem fixture_tests_witness:
  "v1_fixture_ignores_the_unauthenticated_counter_bytes padded held_data sample_sys \<and>
   v1_fixture_truncated_inside_counter_is_rejected padded held_data sample_sys"
  using fixture_tests [OF padded_env(1) sample_mem_ok sample_heap_finite padded_env(2) held_fixture
      padded_separates] by blast

end
