(* ===== verification/SaveHistory.thy ===== *)
theory SaveHistory
  imports Persistence
begin

text \<open>
  What becomes of one file through any history of \<open>save\<close> calls, of any vaults and with any
  failures, in which the process may be killed and power may be lost at any point.
\<close>

text \<open>The file system a killed process leaves, at a point where the disk may hold \<open>ds\<close>.\<close>

definition killed :: "tree list \<Rightarrow> file_system" where
  "killed ds = \<lparr>tree = last ds, on_disk = ds, history = []\<rparr>"

text \<open>
  \<open>save_history X p x fs y E\<close>: \<open>x\<close> was at the path when the history began, \<open>fs\<close> is the file system
  now, \<open>y\<close> the file the last completed \<open>save\<close> left or, after an interruption, the one found, and
  \<open>E\<close> are the bytes exported for the path.
\<close>

inductive save_history ::
  "'w externals \<Rightarrow> path \<Rightarrow> file_node option \<Rightarrow> file_system \<Rightarrow> file_node option \<Rightarrow> bytes set \<Rightarrow> bool"
  for X :: "'w externals" and p :: path and x :: "file_node option" where
  Start: "\<lbrakk>tree fs (resolve p) = x; settled fs (resolve p)\<rbrakk> \<Longrightarrow> save_history X p x fs x {}"
| Saved: "\<lbrakk>save_history X p x fs y E; save X io v s fs p = (Inr u, v', s', fs');
     export X v s = (Inr out, v', s1)\<rbrakk> \<Longrightarrow>
     save_history X p x fs' (Some (saved_file out)) (insert out E)"
| Failed: "\<lbrakk>save_history X p x fs y E; save X io v s fs p = (Inl e, v', s', fs')\<rbrakk> \<Longrightarrow>
     save_history X p x fs' y E"
| Killed: "\<lbrakk>save_history X p x fs y E; save X io v s fs p = (r, v', s', fs');
     export X v s = (Inr out, v', s1); ds \<in> set (disks_between fs fs'); ds \<noteq> []\<rbrakk> \<Longrightarrow>
     save_history X p x (killed ds) (last ds (resolve p)) (insert out E)"
| Interrupted: "\<lbrakk>save_history X p x fs y E; save X io v s fs p = (r, v', s', fs');
     export X v s = (Inr out, v', s1); ds \<in> set (disks_between fs fs'); power_loss ds t\<rbrakk> \<Longrightarrow>
     save_history X p x (restarted t) (t (resolve p)) (insert out E)"
| Lost_power: "\<lbrakk>save_history X p x fs y E; power_loss (on_disk fs) t\<rbrakk> \<Longrightarrow>
     save_history X p x (restarted t) (t (resolve p)) E"

text \<open>The file the history began with, and the complete exports.\<close>

definition whole :: "file_node option \<Rightarrow> bytes set \<Rightarrow> file_node option set" where
  "whole x E = insert x ((\<lambda>out. Some (saved_file out)) ` E)"

lemma whole_insert: "whole x E \<subseteq> whole x (insert out E)" "Some (saved_file out) \<in> whole x (insert out E)"
  by (auto simp: whole_def)

lemma whole_synced:
  assumes "\<forall>f. x = Some f \<longrightarrow> synced f" "y \<in> whole x E" "y = Some f"
  shows "synced f"
  using assms by (auto simp: whole_def saved_file_def)

lemma power_loss_whole:
  assumes "\<forall>f. x = Some f \<longrightarrow> synced f" "\<forall>d \<in> set ds. d q \<in> whole x E" "power_loss ds t"
  shows "t q \<in> whole x E"
proof -
  have "\<forall>d \<in> set ds. \<forall>f. d q = Some f \<longrightarrow> synced f"
    using whole_synced [OF assms(1)] assms(2) by blast
  from power_loss_finds [OF assms(3) this] assms(2) show ?thesis by auto
qed

lemma restarted_versions: "versions (restarted t) q = {t q}"
  by (simp add: versions_def restarted_def)

lemma save_history_versions:
  assumes "save_history X p x fs y E" "names_file p"
    and "\<And>suffix. resolve (save_tmp_path p suffix) \<noteq> resolve p"
  shows "(\<forall>f. x = Some f \<longrightarrow> synced f) \<and> versions fs (resolve p) \<subseteq> whole x E \<and> tree fs (resolve p) = y"
  using assms(1)
proof (induction rule: save_history.induct)
  case (Start fs)
  then show ?case by (auto simp: settled_versions whole_def)
next
  case (Saved fs y E io v s u v' s' fs' out s1)
  from save_versions(3) [OF Saved.hyps(2) assms(2,3) refl] Saved.hyps(3) Saved.IH whole_insert [where x = x and E = E and out = out]
  show ?case by auto
next
  case (Failed fs y E io v s e v' s' fs')
  from save_versions(2) [OF Failed.hyps(2) assms(2,3) refl] Failed.IH show ?case by auto
next
  case (Killed fs y E io v s r v' s' fs' out s1 ds)
  have "d (resolve p) \<in> whole x (insert out E)" if "d \<in> set ds" for d
    using save_versions(1) [OF Killed.hyps(2) assms(2,3) Killed.hyps(4) that] Killed.hyps(3) Killed.IH
      whole_insert [where x = x and E = E and out = out] by auto
  then show ?case using Killed.IH Killed.hyps(5) by (auto simp: versions_def killed_def)
next
  case (Interrupted fs y E io v s r v' s' fs' out s1 ds t)
  have "\<forall>d \<in> set ds. d (resolve p) \<in> whole x (insert out E)"
    using save_versions(1) [OF Interrupted.hyps(2) assms(2,3) Interrupted.hyps(4)] Interrupted.hyps(3)
      Interrupted.IH whole_insert [where x = x and E = E and out = out] by force
  from power_loss_whole [OF _ this Interrupted.hyps(5)] Interrupted.IH show ?case
    by (simp add: restarted_versions) (simp add: restarted_def)
next
  case (Lost_power fs y E t)
  have "\<forall>d \<in> set (on_disk fs). d (resolve p) \<in> whole x E"
    using Lost_power.IH by (auto simp: versions_def)
  from power_loss_whole [OF _ this Lost_power.hyps(2)] Lost_power.IH show ?case
    by (simp add: restarted_versions) (simp add: restarted_def)
qed

lemma save_history_exports:
  assumes "save_history X p x fs y E" "out \<in> E"
  shows "\<exists>v s v' s'. export X v s = (Inr out, v', s')"
  using assms by (induction rule: save_history.induct) blast+

end
