(* ===== verification/DecodeLoop.thy ===== *)
theory DecodeLoop
  imports CodecFacts "HOL-Library.While_Combinator"
begin

text \<open>
  The loop of \<open>decode_index\<close> (\<open>src/vault/index_codec.rs\<close>) as the imperative program it is: a
  counter, the reader and the map under construction, with the early returns. The loop
  terminates with what \<open>decode_entries\<close> computes, and its work is paid for by input bytes:
  after \<open>k\<close> turns at least \<open>k\<close> times the size of the smallest entry have been consumed.
\<close>

datatype decode_state =
    Running nat reader "(bytes \<times> index_entry) list"
  | Returned vault_error

fun decode_goes_on :: "nat \<Rightarrow> decode_state \<Rightarrow> bool" where
  "decode_goes_on count (Running i r fs) = (i < count)"
| "decode_goes_on count (Returned e) = False"

fun decode_turn :: "decode_state \<Rightarrow> decode_state" where
  "decode_turn (Running i r fs) =
     (case decode_entry r of
        Inl e \<Rightarrow> Returned e
      | Inr ((key, entry), r') \<Rightarrow>
          (case hm_insert key entry fs of
             (Some _, fs') \<Rightarrow> Returned (CorruptedData ''Duplicate entry key in index'')
           | (None, fs') \<Rightarrow> Running (Suc i) r' fs'))"
| "decode_turn (Returned e) = Returned e"

definition decode_loop ::
  "nat \<Rightarrow> reader \<Rightarrow> (bytes \<times> index_entry) list \<Rightarrow> decode_state option" where
  "decode_loop count r fs = while_option (decode_goes_on count) decode_turn (Running 0 r fs)"

lemma decode_loop_step:
  "while_option (decode_goes_on count) decode_turn st =
     (if decode_goes_on count st
      then while_option (decode_goes_on count) decode_turn (decode_turn st) else Some st)"
  by (rule while_option_unfold)

lemma decode_loop_from:
  "i + n = count \<Longrightarrow>
     while_option (decode_goes_on count) decode_turn (Running i r fs) =
       Some (case decode_entries n r fs of
         Inl e \<Rightarrow> Returned e | Inr (fs', r') \<Rightarrow> Running count r' fs')"
proof (induction n arbitrary: i r fs)
  case 0
  then show ?case by (subst decode_loop_step) simp
next
  case (Suc n)
  have halt: "while_option (decode_goes_on count) decode_turn (Returned e) = Some (Returned e)" for e
    by (subst decode_loop_step) simp
  have "i < count" using Suc.prems by simp
  then have unfold: "while_option (decode_goes_on count) decode_turn (Running i r fs) =
      while_option (decode_goes_on count) decode_turn (decode_turn (Running i r fs))"
    by (subst decode_loop_step) simp
  show ?case
  proof (cases "decode_entry r")
    case (Inl e)
    with unfold halt show ?thesis by simp
  next
    case (Inr x)
    obtain key entry r' where x: "x = ((key, entry), r')" by (metis surj_pair)
    show ?thesis
    proof (cases "map_of fs key")
      case None
      with Suc.IH [of "Suc i"] Suc.prems unfold Inr x show ?thesis by (simp add: hm_insert_def)
    next
      case (Some old)
      with unfold halt Inr x show ?thesis by (simp add: hm_insert_def)
    qed
  qed
qed

text \<open>A successful turn consumes at least the bytes of the smallest entry.\<close>

lemma decode_entry_consumes:
  assumes "decode_entry r = Inr (f, r')"
  shows "MIN_ENTRY_LEN + reader_remaining r' \<le> reader_remaining r"
proof -
  obtain k e where f: "f = (k, e)" by (cases f)
  from assms obtain key where "length key = ENTRY_KEY_LEN" "sizes_ok e"
    "rest r = entry_layout key e @ rest r'" unfolding f by (rule decode_entry_inv)
  then show ?thesis
    by (simp add: reader_remaining_rest length_entry_layout sizes_ok_def MIN_ENTRY_LEN_def)
qed

lemma decode_entries_consume:
  "decode_entries n r fs = Inr (fs', r') \<Longrightarrow>
     n * MIN_ENTRY_LEN + reader_remaining r' \<le> reader_remaining r"
proof (induction n arbitrary: r fs)
  case (Suc n)
  from Suc.prems obtain f r1 fs1 where "decode_entry r = Inr (f, r1)"
    "decode_entries n r1 fs1 = Inr (fs', r')"
    by (auto simp: and_then_Inr_iff hm_insert_def split: prod.splits option.splits)
  with decode_entry_consumes [of r f r1] Suc.IH [of r1 fs1] show ?case by simp
qed simp

text \<open>C28: The loop of \<open>decode_index\<close> terminates on every input, with an error or with the entries
  the decoder returns, and the bytes pay for it: \<open>k\<close> turns without an error need at least \<open>k\<close>
  times 128 bytes, so neither the running time nor the map can exceed what the input holds,
  whatever count it declares.\<close>

theorem decode_loop_terminates:
  "decode_loop count r fs = Some
     (case decode_entries count r fs of
        Inl e \<Rightarrow> Returned e | Inr (fs', r') \<Rightarrow> Running count r' fs') \<and>
   (\<forall>k fs' r'. decode_entries k r fs = Inr (fs', r') \<longrightarrow>
      k * MIN_ENTRY_LEN + reader_remaining r' \<le> reader_remaining r)"
  using decode_entries_consume decode_loop_from [of 0 count count r fs]
  by (simp add: decode_loop_def)

theorem decode_loop_terminates_witness:
  "\<exists>e. decode_loop 1024 \<lparr>buf = [1, 2, 3], pos = 0\<rparr> [] = Some (Returned e)"
proof -
  obtain e where "reader_take \<lparr>buf = [1, 2, 3], pos = 0\<rparr> ENTRY_KEY_LEN ''entry key'' = Inl e"
    by (simp add: reader_take_def reader_remaining_def ENTRY_KEY_LEN_def)
  then have "decode_entry \<lparr>buf = [1, 2, 3], pos = 0\<rparr> = Inl e" by (simp add: decode_entry_def)
  then have "decode_entries (Suc 1023) \<lparr>buf = [1, 2, 3], pos = 0\<rparr> [] = Inl e"
    by (simp only: decode_entries.simps and_then_simps)
  with decode_loop_terminates [of 1024 "\<lparr>buf = [1, 2, 3], pos = 0\<rparr>" "[]"] show ?thesis by simp
qed

end
