(* ===== verification/Panics.thy ===== *)
theory Panics
  imports Fuzzing Sample "HOL-Library.Monad_Syntax"
begin

text \<open>
  The parsers of untrusted bytes with their panics: \<open>parse_envelope\<close>, \<open>split_nonce\<close>,
  \<open>decode_index\<close> with its \<open>Reader\<close>, \<open>decode_index_v1\<close>, \<open>key_to_hex\<close> and \<open>hex_to_key\<close>, statement
  by statement. A run is an option, \<open>None\<close> when it panics: a slice or an index out of range, a
  \<open>try_into().unwrap()\<close> on a slice of another length, and arithmetic on \<open>usize\<close> or \<open>u8\<close> that
  leaves its range, as in a build with overflow checks on a 64-bit target. A map reserved for
  more entries than the documented cap counts as a panic too. The lemmas show that no input
  makes a parser panic and that each run gives the result of the function it refines, as
  \<open>src/fuzzing.rs\<close> demands of the three entry points.
\<close>

section \<open>Operations that panic\<close>

definition USIZE_LIMIT :: nat where "USIZE_LIMIT = 2 ^ 64"

definition usize_add :: "nat \<Rightarrow> nat \<Rightarrow> nat option" where
  "usize_add a b = (if a + b < USIZE_LIMIT then Some (a + b) else None)"

definition usize_sub :: "nat \<Rightarrow> nat \<Rightarrow> nat option" where
  "usize_sub a b = (if b \<le> a then Some (a - b) else None)"

definition usize_mul :: "nat \<Rightarrow> nat \<Rightarrow> nat option" where
  "usize_mul a b = (if a * b < USIZE_LIMIT then Some (a * b) else None)"

definition u8_add :: "byte \<Rightarrow> byte \<Rightarrow> byte option" where
  "u8_add a b = (if unat a + unat b < 2 ^ 8 then Some (a + b) else None)"

definition u8_sub :: "byte \<Rightarrow> byte \<Rightarrow> byte option" where
  "u8_sub a b = (if b \<le> a then Some (a - b) else None)"

text \<open>\<open>&xs[a..b]\<close>, \<open>xs[i]\<close>, \<open>xs[i] = x\<close>, and \<open>xs.try_into().unwrap()\<close> to an array of \<open>n\<close> bytes.\<close>

definition slice :: "bytes \<Rightarrow> nat \<Rightarrow> nat \<Rightarrow> bytes option" where
  "slice xs a b = (if a \<le> b \<and> b \<le> length xs then Some (take (b - a) (drop a xs)) else None)"

definition at_index :: "bytes \<Rightarrow> nat \<Rightarrow> byte option" where
  "at_index xs i = (if i < length xs then Some (xs ! i) else None)"

definition set_index :: "bytes \<Rightarrow> nat \<Rightarrow> byte \<Rightarrow> bytes option" where
  "set_index xs i x = (if i < length xs then Some (xs[i := x]) else None)"

definition to_array :: "nat \<Rightarrow> bytes \<Rightarrow> bytes option" where
  "to_array n xs = (if length xs = n then Some xs else None)"

text \<open>\<open>HashMap::with_capacity(n)\<close>, held to the documented cap on entries.\<close>

definition reserve_entries :: "nat \<Rightarrow> unit option" where
  "reserve_entries n = (if n \<le> MAX_INDEX_ENTRIES then Some () else None)"

text \<open>\<open>f(r?)\<close> on runs.\<close>

definition and_then_run ::
  "('e + 'a) option \<Rightarrow> ('a \<Rightarrow> ('e + 'b) option) \<Rightarrow> ('e + 'b) option" where
  "and_then_run m f = m \<bind> case_sum (\<lambda>e. Some (Inl e)) f"

lemma and_then_run_Some [simp]:
  "and_then_run (Some (Inl e)) f = Some (Inl e)"
  "and_then_run (Some (Inr x)) f = f x"
  by (simp_all add: and_then_run_def)

text \<open>A run that does not panic, with what follows it.\<close>

lemma and_then_runI:
  assumes "m = Some r" "\<And>x. r = Inr x \<Longrightarrow> f x = Some (g x)"
  shows "and_then_run m f = Some (and_then r g)"
  using assms by (cases r) simp_all

section \<open>Hexadecimal keys\<close>

definition key_to_hex_run :: "bytes \<Rightarrow> bytes option" where
  "key_to_hex_run key = usize_mul (length key) 2 \<bind> (\<lambda>capacity. Some (key_to_hex key))"

definition hex_digit_run :: "byte \<Rightarrow> byte option option" where
  "hex_digit_run c =
     (if 48 \<le> c \<and> c \<le> 57 then u8_sub c 48 \<bind> (\<lambda>d. Some (Some d))
      else if 97 \<le> c \<and> c \<le> 102 then u8_sub c 97 \<bind> (\<lambda>d. u8_add d 10 \<bind> (\<lambda>d'. Some (Some d')))
      else Some None)"

text \<open>\<open>bytes.chunks(2)\<close>, and the loop that fills \<open>key\<close> from the chunk at position \<open>i\<close> on.\<close>

fun chunks2 :: "bytes \<Rightarrow> bytes list" where
  "chunks2 [] = []"
| "chunks2 [c] = [[c]]"
| "chunks2 (c # d # cs) = [c, d] # chunks2 cs"

fun hex_loop :: "nat \<Rightarrow> bytes list \<Rightarrow> bytes \<Rightarrow> bytes option option" where
  "hex_loop i [] key = Some (Some key)"
| "hex_loop i (pair # pairs) key = do {
     c \<leftarrow> at_index pair 0;
     hi \<leftarrow> hex_digit_run c;
     case hi of None \<Rightarrow> Some None | Some hi \<Rightarrow> do {
     d \<leftarrow> at_index pair 1;
     lo \<leftarrow> hex_digit_run d;
     case lo of None \<Rightarrow> Some None | Some lo \<Rightarrow> do {
     key' \<leftarrow> set_index key i (push_bit 4 hi OR lo);
     hex_loop (Suc i) pairs key' }}}"

definition hex_to_key_run :: "bytes \<Rightarrow> bytes option option" where
  "hex_to_key_run hex =
     (if length hex \<noteq> ENTRY_KEY_LEN * 2 then Some None
      else hex_loop 0 (chunks2 hex) (replicate ENTRY_KEY_LEN 0))"

lemma hex_digit_runs: "hex_digit_run c = Some (hex_digit c)"
proof -
  have "unat (c - 97) + 10 < 256" if "97 \<le> c" "c \<le> 102"
    using that by (simp add: unat_sub word_le_nat_alt)
  then show ?thesis by (simp add: hex_digit_run_def hex_digit_def u8_sub_def u8_add_def)
qed

lemma hex_loop_runs:
  "length cs = 2 * (length key - i) \<Longrightarrow> i \<le> length key \<Longrightarrow>
     hex_loop i (chunks2 cs) key = Some (map_option (\<lambda>k. take i key @ k) (hex_pairs cs))"
proof (induction cs arbitrary: i key rule: chunks2.induct)
  case 1
  then show ?case by simp
next
  case (2 c)
  have "even (length [c])" unfolding "2.prems"(1) by simp
  then show ?case by simp
next
  case (3 c d cs)
  then have i: "i < length key" "length cs = 2 * (length key - Suc i)" by simp_all
  have "take (Suc i) (key[i := x]) = take i key @ [x]" for x
    using i(1) by (simp add: take_Suc_conv_app_nth)
  with i 3 show ?case
    by (auto simp: at_index_def set_index_def hex_digit_runs split: option.split)
qed

lemma hex_to_key_runs: "hex_to_key_run hex = Some (hex_to_key hex)"
  by (simp add: hex_to_key_run_def hex_to_key_def hex_loop_runs option.map_id
      option.map_ident)

section \<open>The envelope\<close>

definition split_nonce_run :: "bytes \<Rightarrow> (vault_error + bytes \<times> bytes) option" where
  "split_nonce_run blob =
     (if length blob < XCHACHA20_NONCE_LEN
      then Some (Inl (CorruptedData ''Encrypted entry too short for nonce''))
      else do {
        front \<leftarrow> slice blob 0 XCHACHA20_NONCE_LEN;
        n \<leftarrow> to_array XCHACHA20_NONCE_LEN front;
        rest \<leftarrow> slice blob XCHACHA20_NONCE_LEN (length blob);
        Some (Inr (n, rest)) })"

definition parse_envelope_run :: "'w externals \<Rightarrow> bytes \<Rightarrow> (vault_error + envelope) option" where
  "parse_envelope_run X data =
     (if MAX_VAULT_FILE_SIZE < length data
      then Some (Inl (CorruptedData (fmt ''Vault data of {} bytes exceeds maximum {}''
        [dec (length data), dec MAX_VAULT_FILE_SIZE])))
      else if length data < 4 then Some (Inl (CorruptedData ''Data too short''))
      else do {
        front \<leftarrow> slice data 0 4;
        le \<leftarrow> to_array 4 front;
        let header_len = unat (u32_from_le le);
        if MAX_HEADER_JSON_LEN < header_len
        then Some (Inl (CorruptedData (fmt ''Header length {} exceeds maximum {}''
          [dec header_len, dec MAX_HEADER_JSON_LEN])))
        else do {
          after_header \<leftarrow> usize_add 4 header_len;
          needed \<leftarrow> usize_add after_header XCHACHA20_NONCE_LEN;
          if length data < needed
          then Some (Inl (CorruptedData ''Data too short for header and nonce''))
          else do {
            header_bytes \<leftarrow> slice data 4 after_header;
            and_then_run (Some (map_err
                (\<lambda>e. CorruptedData (fmt ''Invalid header JSON: {}'' [e]))
                (header_from_json X header_bytes))) (\<lambda>header.
            and_then_run (Some (validate_header header)) (\<lambda>_.
            and_then_run (Some (to_aad_bytes X header)) (\<lambda>canonical.
            if header_bytes \<noteq> canonical
            then Some (Inl (CorruptedData ''Header JSON is not in canonical form''))
            else do {
              nonce_end \<leftarrow> usize_add after_header XCHACHA20_NONCE_LEN;
              nonce_bytes \<leftarrow> slice data after_header nonce_end;
              n \<leftarrow> to_array XCHACHA20_NONCE_LEN nonce_bytes;
              index_start \<leftarrow> usize_add after_header XCHACHA20_NONCE_LEN;
              and_then_run
                (if version header = LEGACY_VAULT_VERSION_1 then do {
                   index_start' \<leftarrow> usize_add index_start 8;
                   if length data < index_start'
                   then Some (Inl (CorruptedData ''Data too short for legacy counter''))
                   else Some (Inr index_start') }
                 else Some (Inr index_start)) (\<lambda>start. do {
              encrypted_index \<leftarrow> slice data start (length data);
              Some (Inr \<lparr>env_header = header, env_nonce = n,
                         env_encrypted_index = encrypted_index\<rparr>) })})))
          }}})"

lemmas run_defs = usize_add_def usize_sub_def usize_mul_def USIZE_LIMIT_def slice_def to_array_def

lemma split_nonce_runs: "split_nonce_run blob = Some (split_nonce blob)"
  by (simp add: split_nonce_run_def split_nonce_def run_defs)

lemma parse_envelope_runs: "parse_envelope_run X data = Some (parse_envelope X data)"
proof (cases "MAX_VAULT_FILE_SIZE < length data \<or> length data < 4 \<or>
    MAX_HEADER_JSON_LEN < unat (u32_from_le (take 4 data)) \<or>
    length data < 4 + unat (u32_from_le (take 4 data)) + XCHACHA20_NONCE_LEN")
  case True
  then show ?thesis
    by (auto simp: parse_envelope_run_def parse_envelope_def run_defs const_defs Let_def)
next
  case False
  let ?n = "unat (u32_from_le (take 4 data))"
  from False have small: "?n \<le> 4096" and long: "4 + ?n + 24 \<le> length data"
    by (simp_all add: const_defs)
  show ?thesis
    using False small long unfolding parse_envelope_run_def parse_envelope_def Let_def
    by (simp add: run_defs XCHACHA20_NONCE_LEN_def)
      (intro and_then_runI refl; simp add: run_defs XCHACHA20_NONCE_LEN_def)
qed

section \<open>The reader\<close>

definition reader_remaining_run :: "reader \<Rightarrow> nat option" where
  "reader_remaining_run r = usize_sub (length (buf r)) (pos r)"

definition reader_take_run ::
  "reader \<Rightarrow> nat \<Rightarrow> string \<Rightarrow> (vault_error + bytes \<times> reader) option" where
  "reader_take_run r n what = do {
     left \<leftarrow> reader_remaining_run r;
     if left < n then do {
       left' \<leftarrow> reader_remaining_run r;
       Some (Inl (CorruptedData (fmt ''Index truncated while reading {} ({} bytes needed, {} left)''
         [what, dec n, dec left']))) }
     else do {
       stop \<leftarrow> usize_add (pos r) n;
       taken \<leftarrow> slice (buf r) (pos r) stop;
       pos' \<leftarrow> usize_add (pos r) n;
       Some (Inr (taken, r\<lparr>pos := pos'\<rparr>)) }}"

definition reader_u16_run :: "reader \<Rightarrow> string \<Rightarrow> (vault_error + u16 \<times> reader) option" where
  "reader_u16_run r what = and_then_run (reader_take_run r 2 what) (\<lambda>(b, r').
     to_array 2 b \<bind> (\<lambda>le. Some (Inr (u16_from_le le, r'))))"

definition reader_u32_run :: "reader \<Rightarrow> string \<Rightarrow> (vault_error + u32 \<times> reader) option" where
  "reader_u32_run r what = and_then_run (reader_take_run r 4 what) (\<lambda>(b, r').
     to_array 4 b \<bind> (\<lambda>le. Some (Inr (u32_from_le le, r'))))"

definition reader_u64_run :: "reader \<Rightarrow> string \<Rightarrow> (vault_error + u64 \<times> reader) option" where
  "reader_u64_run r what = and_then_run (reader_take_run r 8 what) (\<lambda>(b, r').
     to_array 8 b \<bind> (\<lambda>le. Some (Inr (u64_from_le le, r'))))"

text \<open>The invariant of the cursor: it is within the buffer, which no slice exceeds half the
  address space.\<close>

definition reader_ok :: "reader \<Rightarrow> bool" where
  "reader_ok r \<longleftrightarrow> pos r \<le> length (buf r) \<and> length (buf r) < USIZE_LIMIT"

lemma reader_remaining_runs:
  "reader_ok r \<Longrightarrow> reader_remaining_run r = Some (reader_remaining r)"
  by (simp add: reader_ok_def reader_remaining_run_def reader_remaining_def usize_sub_def)

lemma reader_take_runs:
  "reader_ok r \<Longrightarrow> reader_take_run r n what = Some (reader_take r n what)"
  by (auto simp: reader_take_run_def reader_take_def reader_remaining_runs)
    (auto simp: reader_ok_def reader_remaining_def run_defs)

lemma reader_take_ok:
  "reader_take r n what = Inr (b, r') \<Longrightarrow> reader_ok r \<Longrightarrow> reader_ok r' \<and> length b = n"
  by (auto simp: reader_take_def reader_ok_def reader_remaining_def split: if_splits)

lemma reader_word_runs:
  assumes "reader_ok r"
  shows "reader_u16_run r what = Some (reader_u16 r what)"
    "reader_u32_run r what = Some (reader_u32 r what)"
    "reader_u64_run r what = Some (reader_u64 r what)"
  unfolding reader_u16_run_def reader_u32_run_def reader_u64_run_def
    reader_u16_def reader_u32_def reader_u64_def reader_take_runs [OF assms]
  using reader_take_ok [OF _ assms] by (auto intro!: and_then_runI simp: to_array_def)

lemma reader_word_ok:
  "reader_u16 r what = Inr (a, r') \<Longrightarrow> reader_ok r \<Longrightarrow> reader_ok r'"
  "reader_u32 r what = Inr (b, r') \<Longrightarrow> reader_ok r \<Longrightarrow> reader_ok r'"
  "reader_u64 r what = Inr (c, r') \<Longrightarrow> reader_ok r \<Longrightarrow> reader_ok r'"
  by (auto simp: reader_u16_def reader_u32_def reader_u64_def and_then_Inr_iff dest: reader_take_ok)

lemmas reader_runs = reader_take_runs reader_word_runs reader_remaining_runs

section \<open>The index decoders\<close>

definition decode_entry_run ::
  "reader \<Rightarrow> (vault_error + (bytes \<times> index_entry) \<times> reader) option" where
  "decode_entry_run r0 =
     and_then_run (reader_take_run r0 ENTRY_KEY_LEN ''entry key'') (\<lambda>(key, r1).
     and_then_run (reader_u64_run r1 ''entry data counter'') (\<lambda>(counter, r2).
     and_then_run (reader_u32_run r2 ''entry name length'') (\<lambda>(name_len, r3).
     if \<not> (MIN_ENCRYPTED_LEN \<le> unat name_len \<and> unat name_len \<le> MAX_ENCRYPTED_NAME_LEN)
     then Some (Inl (name_len_error (unat name_len)))
     else
     and_then_run (reader_take_run r3 (unat name_len) ''entry name ciphertext'') (\<lambda>(name_ct, r4).
     and_then_run (reader_u32_run r4 ''entry data length'') (\<lambda>(data_len, r5).
     if \<not> (MIN_ENCRYPTED_LEN \<le> unat data_len \<and> unat data_len \<le> MAX_ENCRYPTED_DATA_LEN)
     then Some (Inl (data_len_error (unat data_len)))
     else
     and_then_run (reader_take_run r5 (unat data_len) ''entry data ciphertext'') (\<lambda>(data_ct, r6).
     key_to_hex_run key \<bind> (\<lambda>hex_key. Some (Inr ((hex_key,
           \<lparr>data_counter = counter, encrypted_name = name_ct, encrypted_data = data_ct\<rparr>),
          r6)))))))))"

fun decode_entries_run ::
  "nat \<Rightarrow> reader \<Rightarrow> (bytes \<times> index_entry) list \<Rightarrow>
    (vault_error + (bytes \<times> index_entry) list \<times> reader) option" where
  "decode_entries_run 0 r fs = Some (Inr (fs, r))"
| "decode_entries_run (Suc n) r fs =
     and_then_run (decode_entry_run r) (\<lambda>((key, entry), r').
       case hm_insert key entry fs of
         (Some _, fs') \<Rightarrow> Some (Inl (CorruptedData ''Duplicate entry key in index''))
       | (None, fs') \<Rightarrow> decode_entries_run n r' fs')"

definition decode_index_run :: "bytes \<Rightarrow> (vault_error + index_data) option" where
  "decode_index_run bs =
     and_then_run (reader_u16_run \<lparr>buf = bs, pos = 0\<rparr> ''version'') (\<lambda>(ver, r1).
     if ver \<noteq> VAULT_INDEX_VERSION
     then Some (Inl (CorruptedData (fmt ''Unsupported index version: {}'' [dec (unat ver)])))
     else
     and_then_run (reader_u64_run r1 ''nonce counter'') (\<lambda>(ncounter, r2).
     and_then_run (reader_u64_run r2 ''data nonce counter'') (\<lambda>(dcounter, r3).
     and_then_run (reader_u32_run r3 ''entry count'') (\<lambda>(count, r4).
     if MAX_INDEX_ENTRIES < unat count
     then Some (Inl (CorruptedData (fmt ''Index entry count {} exceeds maximum {}''
       [dec (unat count), dec MAX_INDEX_ENTRIES])))
     else do {
     least \<leftarrow> usize_mul (unat count) MIN_ENTRY_LEN;
     left \<leftarrow> reader_remaining_run r4;
     if left < least
     then reader_remaining_run r4 \<bind> (\<lambda>left'. Some (Inl (CorruptedData
       (fmt ''Index declares {} entries but holds {} bytes'' [dec (unat count), dec left']))))
     else do {
     reserve_entries (unat count);
     and_then_run (decode_entries_run (unat count) r4 []) (\<lambda>(fs, r5). do {
     left \<leftarrow> reader_remaining_run r5;
     if left \<noteq> 0
     then reader_remaining_run r5 \<bind> (\<lambda>left'. Some (Inl (CorruptedData
       (fmt ''{} trailing bytes after the last index entry'' [dec left']))))
     else Some (Inr \<lparr>idx_nonce_counter = ncounter, idx_data_nonce_counter = dcounter,
                     idx_files = fs\<rparr>) }) }}))))"

fun convert_v1_files_run ::
  "(bytes \<times> v1_meta) list \<Rightarrow> (bytes \<times> index_entry) list \<Rightarrow>
    (vault_error + (bytes \<times> index_entry) list) option" where
  "convert_v1_files_run [] fs = Some (Inr fs)"
| "convert_v1_files_run ((key, meta) # ms) fs =
     (if is_dummy meta then convert_v1_files_run ms fs
      else hex_to_key_run key \<bind> (\<lambda>raw.
        if raw = None
        then Some (Inl (CorruptedData ''Entry key is not a 32-byte hex HMAC''))
        else case (meta_encrypted_name meta, meta_encrypted_data meta) of
          (Some name_ct, Some data_ct) \<Rightarrow>
            (let entry = \<lparr>data_counter = meta_data_counter meta, encrypted_name = name_ct,
                           encrypted_data = data_ct\<rparr>
             in and_then_run (Some (check_entry_sizes entry)) (\<lambda>_.
                  convert_v1_files_run ms (snd (hm_insert key entry fs))))
        | _ \<Rightarrow> Some (Inl (CorruptedData ''Entry is missing a ciphertext''))))"

definition decode_index_v1_run :: "'w externals \<Rightarrow> bytes \<Rightarrow> (vault_error + index_data) option" where
  "decode_index_v1_run X json =
     and_then_run (Some (map_err (\<lambda>e. CorruptedData (fmt ''Invalid index JSON: {}'' [e]))
       (index_v1_from_json X json))) (\<lambda>index.
     if v1_version index \<noteq> LEGACY_INDEX_VERSION_1
     then Some (Inl (CorruptedData (fmt ''Unsupported index version: {}''
       [dec (unat (v1_version index))])))
     else if MAX_INDEX_ENTRIES < length (v1_files index)
     then Some (Inl (CorruptedData (fmt ''Index entry count {} exceeds maximum {}''
       [dec (length (v1_files index)), dec MAX_INDEX_ENTRIES])))
     else do {
     reserve_entries (length (v1_files index));
     and_then_run (convert_v1_files_run (v1_files index) []) (\<lambda>fs.
     Some (Inr \<lparr>idx_nonce_counter = v1_nonce_counter index,
          idx_data_nonce_counter = v1_data_nonce_counter index, idx_files = fs\<rparr>)) })"

lemma decode_entry_runs:
  assumes "reader_ok r"
  shows "decode_entry_run r = Some (decode_entry r)"
    "decode_entry r = Inr (f, r') \<Longrightarrow> reader_ok r'"
  using assms
  by (auto simp: decode_entry_run_def decode_entry_def reader_runs key_to_hex_run_def
      ENTRY_KEY_LEN_def run_defs and_then_Inr_iff dest!: reader_take_ok reader_word_ok
      intro!: and_then_runI split: if_splits)

lemma decode_entries_runs:
  "reader_ok r \<Longrightarrow> decode_entries_run n r fs = Some (decode_entries n r fs) \<and>
     (\<forall>gs r'. decode_entries n r fs = Inr (gs, r') \<longrightarrow> reader_ok r')"
proof (induction n arbitrary: r fs)
  case (Suc n)
  note one = decode_entry_runs [OF Suc.prems]
  show ?case
    using Suc.IH one(2) unfolding decode_entries_run.simps decode_entries.simps one(1)
    by (auto simp: hm_insert_def and_then_Inr_iff intro!: and_then_runI split: option.splits)
qed simp

lemma decode_index_runs:
  assumes "length bs < USIZE_LIMIT"
  shows "decode_index_run bs = Some (decode_index bs)"
proof -
  have "reader_ok \<lparr>buf = bs, pos = 0\<rparr>" using assms by (simp add: reader_ok_def)
  then show ?thesis
    by (auto simp: decode_index_run_def decode_index_def reader_runs decode_entries_runs
        usize_mul_def USIZE_LIMIT_def reserve_entries_def const_defs
        dest!: reader_word_ok intro!: and_then_runI)
qed

lemma convert_v1_files_runs: "convert_v1_files_run ms fs = Some (convert_v1_files ms fs)"
  by (induction ms fs rule: convert_v1_files.induct)
    (auto simp: hex_to_key_runs Let_def intro!: and_then_runI split: option.split)

lemma decode_index_v1_runs: "decode_index_v1_run X json = Some (decode_index_v1 X json)"
  by (auto simp: decode_index_v1_run_def decode_index_v1_def reserve_entries_def
      convert_v1_files_runs intro!: and_then_runI)

section \<open>No input panics\<close>

text \<open>C36: No input makes a parser of untrusted bytes panic or reserve a map beyond the cap: on every
  byte string that fits the address space \<open>parse_envelope\<close>, \<open>split_nonce\<close>, \<open>decode_index\<close> and
  \<open>decode_index_v1\<close> run to their end with every slice, array conversion and index in range and no
  arithmetic overflow, and with the result the functions of the model give.\<close>

theorem parsers_never_panic:
  assumes "length bs < USIZE_LIMIT"
  shows "parse_envelope_run X bs = Some (parse_envelope X bs) \<and>
    split_nonce_run bs = Some (split_nonce bs) \<and>
    decode_index_run bs = Some (decode_index bs) \<and>
    decode_index_v1_run X bs = Some (decode_index_v1 X bs)"
  by (simp add: parse_envelope_runs split_nonce_runs decode_index_runs [OF assms]
      decode_index_v1_runs)

text \<open>A file whose declared header reaches past its end.\<close>

theorem parsers_never_panic_witness:
  "parse_envelope_run sample [255, 15, 0, 0, 123] =
     Some (Inl (CorruptedData ''Data too short for header and nonce'')) \<and>
   split_nonce_run [255, 15, 0, 0, 123] =
     Some (Inl (CorruptedData ''Encrypted entry too short for nonce'')) \<and>
   (\<exists>m. decode_index_run [255, 15, 0, 0, 123] = Some (Inl (CorruptedData m)))"
proof -
  have "length [255, 15, 0, 0, 123 :: byte] < USIZE_LIMIT" by (simp add: USIZE_LIMIT_def)
  from parsers_never_panic [OF this, of sample] show ?thesis
    by (simp add: parse_envelope_def split_nonce_def decode_index_def const_defs u32_from_le_def
        u16_from_le_def reader_u16_def reader_take_def reader_remaining_def)
qed

end
