(* ===== verification/Spec2Isabelle.thy ===== *)
theory Spec2Isabelle
  imports FormatProperties IndexProperties VaultProperties PasswordProperties ProgramProperties
    ProcessProperties TestProperties LegacyTests SaveHistory DecodeLoop Panics
begin

text \<open>
  A verification of memseal: a password-protected store of named secrets. A vault lives in
  memory as a header, an index of encrypted entries and two subkeys in locked memory; it is
  written to a file as one authenticated envelope.

  \<^bold>\<open>The program and its model.\<close> Each theory follows one source file under \<open>src/src/\<close>; a
  definition keeps the name of the function it translates.

  \<^item> \<open>Prelude\<close>: Rust's integers as words, \<open>Result\<close> as a sum with the \<open>?\<close> operator
    (\<open>and_then\<close>, \<open>map_err\<close>), \<open>format!\<close>, little-endian integers, \<open>HashMap\<close>.
  \<^item> \<open>Constants\<close> (\<open>constants.rs\<close>), \<open>Errors\<close> (the error enums of every module with their
    \<open>Display\<close> texts and \<open>From\<close> conversions), \<open>VaultTypes\<close> (data shared with libraries).
  \<^item> \<open>Externals\<close>: the libraries as one record \<open>X\<close>, with the wrappers \<open>secure_bytes_fill\<close>
    (\<open>crypto/utils.rs\<close>), \<open>seal_with_aad\<close> and \<open>open_with_aad\<close> (\<open>crypto/aad_aead.rs\<close>).
  \<^item> \<open>LockedMemory\<close> (\<open>mem/locked_secret.rs\<close>): locked regions in a heap of the process state
    \<open>'w sys\<close>, with a ghost that records what each region held when it was released.
  \<^item> \<open>Hex\<close>, \<open>IndexCodec\<close> (\<open>vault/index_codec.rs\<close>): the hexadecimal keys, the binary index
    format, its bounded reader, and the decoder of the legacy format.
  \<^item> \<open>VaultIndex\<close> (\<open>vault/vault_index.rs\<close>), \<open>VaultHeader\<close> (\<open>vault/vault_header.rs\<close>),
    \<open>Envelope\<close>, \<open>Vault\<close> and \<open>Persistence\<close> (\<open>vault/facade.rs\<close>): the index, the header, the
    parser of untrusted files, every operation of \<open>Vault\<close>, and \<open>save\<close> and \<open>load\<close> over a file
    system, with what its disk may hold when power is lost. \<open>Fuzzing\<close> (\<open>fuzzing.rs\<close>): the entry
    points of the fuzz targets.
  \<^item> \<open>DecodeLoop\<close>: the loop of \<open>decode_index\<close> once more, as the imperative loop it is.
  \<^item> \<open>Panics\<close>: the parsers of untrusted bytes once more, as runs that stop where Rust panics (slices,
    indexes, array conversions, overflow of \<open>usize\<close> and \<open>u8\<close>), and that none of them does.
  \<^item> The unit tests in the \<open>mod tests\<close> of the source files, as functions of the environment that
    are false where an assertion fails or an \<open>unwrap\<close> panics: \<open>CodecTests\<close>, \<open>UnitTests\<close> (below the
    facade), \<open>FacadeTests\<close>, \<open>TamperTests\<close>, \<open>ForgeTests\<close>, \<open>CapTests\<close> (the facade), \<open>AuthTests\<close> (wrong
    passwords and changed files), \<open>JsonTests\<close> and \<open>IndexJsonTests\<close> (edited JSON), \<open>FreshTests\<close>
    (values that must differ), \<open>LegacyTests\<close> (the fixture of format version 1), \<open>SmapsTests\<close> (locks
    as the kernel reports them), and \<open>DocTests\<close>, with the examples in the documentation of \<open>lib.rs\<close>.

  The Rust \<open>Vault\<close> is the record \<open>vault\<close>; its \<open>VaultIndex\<close> the record \<open>vault_index\<close>, in which
  \<open>files\<close> is an association list whose order stands for the unspecified iteration order of the
  \<open>HashMap\<close>. An operation on \<open>&mut self\<close> returns its result, the vault and the process state,
  on every path. Errors are values; a value that goes out of scope drops its regions there.

  \<^bold>\<open>The lemmas.\<close> \<open>CodecFacts\<close> relates encoder and decoder to a layout; \<open>VaultFacts\<close>,
  \<open>Lifecycle\<close> and \<open>Rekeying\<close> characterise each operation on success and on failure and show
  that all keep \<open>vault_ok\<close>; \<open>Session\<close> has the step relation of a running program, its
  invariants, and the refinement of a map by a vault. \<open>Liveness\<close> shows under which conditions each
  operation succeeds where the libraries do their work (\<open>env_works\<close>), and \<open>Refinement\<close> that whole
  programs, with password changes and reopened exports, refine a password-protected map. \<open>Process\<close>
  puts any number of vaults into one process, with the locked regions and the generator they share,
  and \<open>Nonces\<close> follows the nonces through its history. \<open>SaveHistory\<close> follows one file through
  saves, failures, killed processes and losses of power. \<open>Rejection\<close> shows when a file is refused, and
  \<open>Upgrade\<close> that no vault of format version 1 that authenticates is lost.
  Contracts between components are locales:
  \<open>le_codec\<close> (integer encodings), \<open>secret_container\<close> (locked memory), \<open>capped_index\<close> (the index
  map), \<open>secret_store\<close> (the vault as a map), \<open>call_simulation\<close> (simulation of calls, carried over
  programs), \<open>resource_pool\<close> (owners of disjoint locked regions), each interpreted on the code's model. \<open>Sample\<close> is a
  concrete instance of the libraries that satisfies every law but can run out of memory and
  randomness, \<open>working\<close> one that cannot; the witnesses run on them. \<open>FormatProperties\<close>,
  \<open>IndexProperties\<close>, \<open>VaultProperties\<close>, \<open>PasswordProperties\<close>, \<open>ProgramProperties\<close>,
  \<open>ProcessProperties\<close>, \<open>TestProperties\<close>, \<open>LegacyTests\<close>, \<open>Upgrade\<close>, \<open>DecodeLoop\<close>, \<open>Panics\<close> and this theory hold
  the properties; a test that asks a library for something no law promises is shown to pass
  exactly when the library delivers it. The tests that write JSON also run on \<open>json_working\<close>, with a
  toy form of it, those of the fixture on \<open>padded\<close>, with a file of the sample instance.

  \<^bold>\<open>What is assumed.\<close> Libraries are arbitrary functions. \<open>ext_laws\<close> is their documented
  behaviour: lengths of outputs, freshness of allocations, that what was sealed opens, that
  \<open>serde_json\<close> reads back what it wrote. \<open>aead_tidy\<close>, used where a file is shown to be exactly an
  export, says that a ciphertext that opens is the sealing of its plaintext. No secrecy
  assumption is made, so no theorem is about secrecy; where two names must not collide the
  hypothesis is \<open>names_apart\<close>, that the HMAC separates the names in use, and not injectivity of
  HMAC. \<open>env_works\<close>, used only where an operation is shown to succeed, adds that the libraries do not
  fail on admissible inputs; the memory of the process is then finite, so that there is room.
  \<open>rng_never_repeats\<close>, used only where nonces are shown not to be reused, idealises the generator of
  the operating system: what it delivers it has not delivered before. The tests add what they
  rely on: \<open>braces_are_not_json\<close> (text that is no JSON is refused), \<open>json_value_laws\<close> and
  \<open>v1_json_laws\<close> (\<open>serde_json::Value\<close>), \<open>argon2i_works\<close> (the derivation of version 1),
  \<open>names_separated\<close> (the HMAC separates the names of a test), \<open>own_pages\<close> (\<open>memsec\<close> gives each
  allocation its own pages), \<open>smaps_lists\<close> (the kernel lists the locked mappings of a process) and
  \<open>is_v1_fixture\<close> (what the tests know of the binary fixture).

  \<^bold>\<open>Bounds.\<close> Every loop of the code is over a list or a counted range and is structural
  recursion here, and the loop over untrusted input also a \<open>while\<close> proved to terminate; the only
  fuel is the 20 digits of \<open>dec\<close>, enough for every 64-bit number. The
  size limits are those of \<open>constants.rs\<close> (1024 entries, 255-byte names, 64 MiB secrets, 256 MiB
  files); \<open>usize\<close> has 64 bits; the mode \<open>0o600\<close> is the number 384. Names are byte strings; \<open>&str\<close> only restricts them.

  \<^bold>\<open>Not modelled.\<close> Zeroizing of transient buffers on stack and heap, guard pages and canaries of
  \<open>memsec\<close>, \<open>Send\<close> and \<open>Sync\<close> with the test \<open>send_and_sync\<close>, which the type checker decides,
  permissions on Windows, and links in the file system. Benchmarks, libFuzzer harnesses and module
  declarations hold no logic. The threads of \<open>concurrent_reads\<close>, which only read, are calls in
  sequence; the bytes of the binary fixture are a parameter.
\<close>

section \<open>Sessions\<close>

text \<open>C19: Every vault a program can hold is well-formed: starting from \<open>create\<close> or from \<open>open\<close>
  on any bytes, after any sequence of \<open>store\<close>, \<open>remove\<close>, \<open>export\<close> and
  \<open>change_password\<close> calls, failing ones included, the subkeys are live and locked, the header
  is a current one, the entries are within the bounds and below the next counter.\<close>

theorem reachable_well_formed:
  assumes "ext_laws X" "reachable X c"
  shows "vault_ok (fst c) (snd c)"
  by (rule reachable_vault_ok [OF assms])

theorem reachable_well_formed_witness:
  "vault_ok (fst (sample_run2, sample_filled)) (snd (sample_run2, sample_filled))"
proof (rule reachable_well_formed [OF sample_laws])
  show "reachable sample (sample_run2, sample_filled)"
    by (rule reachable.Used [OF reachable.Created [OF sample_mem_ok sample_create]
        vault_step.Store [OF sample_store]])
qed

text \<open>C20: No data counter is used twice: in any session on a created vault, password changes
  included, the entries carry pairwise distinct counters, all below the next one. Since the
  associated data determines key and counter, no two entries are sealed under the same data.\<close>

theorem session_counters_distinct:
  assumes "ext_laws X" "mem_ok s" "create X password s = (Inr v, s')" "session X (s', v) c"
  shows "counters_distinct (index (snd c)) \<and> counters_ok (index (snd c))"
proof (rule create_ok [OF assms(1-3)])
  fix ek hk
  assume f: "fresh_vault X password s v ek hk s'"
  then have "counters_distinct (index v)"
    by (simp add: fresh_vault_def counters_distinct_def)
  moreover have "vault_ok s' v" by (rule fresh_vault_ok [OF f])
  ultimately show ?thesis
    using session_invariant [OF assms(1,4)] by (simp add: vault_ok_def index_ok_def)
qed

theorem session_counters_distinct_witness:
  "counters_distinct (index (snd (sample_run2, sample_filled))) \<and>
   counters_ok (index (snd (sample_run2, sample_filled)))"
  by (rule session_counters_distinct [OF sample_laws sample_mem_ok sample_create
      session.Step [OF session.Start vault_step.Store [OF sample_store]]])

text \<open>Outside a password change no call moves a counter back or touches the header, whether
  it succeeds or fails.\<close>

lemma counters_never_decrease:
  assumes "vault_step X c cmd c'" "\<forall>old new. cmd \<noteq> ChangePassword old new"
  shows "data_nonce_counter (index (snd c)) \<le> data_nonce_counter (index (snd c')) \<and>
    nonce_counter (index (snd c)) \<le> nonce_counter (index (snd c')) \<and>
    header (snd c') = header (snd c)"
  by (rule step_counters_grow [OF assms])

lemma counters_never_decrease_witness:
  "data_nonce_counter (index (snd (sample_run, sample_vault))) \<le>
     data_nonce_counter (index (snd (sample_run2, sample_filled))) \<and>
   nonce_counter (index (snd (sample_run, sample_vault))) \<le>
     nonce_counter (index (snd (sample_run2, sample_filled))) \<and>
   header (snd (sample_run2, sample_filled)) = header (snd (sample_run, sample_vault))"
  by (rule counters_never_decrease [OF vault_step.Store [OF sample_store]]) simp

text \<open>The vault refines a map from names to secrets: on a created vault, any sequence of
  \<open>store\<close> and \<open>remove\<close> calls leaves \<open>retrieve\<close> returning, for every name in use, what the
  successful calls make of the empty map, in which a failing call changes nothing. The names in
  use must have distinct HMAC keys.\<close>

theorem vault_refines_map:
  assumes "ext_laws X" "mem_ok s" "create X password s = (Inr v, s')"
    and "keys_live s' (index v) ek hk" "names_apart X hk N" "op_key ` set ops \<subseteq> N"
    and "run_ops (vs_put X) (vs_del X) ops (s', v) = (oks, c)" "n \<in> N"
  shows "vs_view X c n = spec_ops ops oks Map.empty n"
proof (rule create_ok [OF assms(1-3)])
  fix ek' hk'
  assume f: "fresh_vault X password s v ek' hk' s'"
  then have files: "files (index v) = []" by (simp add: fresh_vault_def)
  have ok: "vault_ok s' v" by (rule fresh_vault_ok [OF f])
  have inv: "vs_inv X ek hk N (s', v)"
    using assms(1,4,5) ok by (simp add: vs_inv_def all_sealed_def files)
  have empty: "\<forall>m \<in> N. vs_view X (s', v) m = Map.empty m"
  proof
    fix m assume "m \<in> N"
    then obtain k where "name_key X hk m = Inr k" using assms(5) by (auto simp: names_apart_def)
    then show "vs_view X (s', v) m = Map.empty m"
      using vs_view_eq [of "(s', v)" ek hk X m] assms(4) by (simp add: files read_secret_def)
  qed
  from vs.run_refines [OF inv assms(6,7)] assms(8)
  have "vs_view X c n = spec_ops ops oks (vs_view X (s', v)) n" by blast
  also have "\<dots> = spec_ops ops oks Map.empty n" by (rule spec_ops_cong [OF empty assms(8)])
  finally show ?thesis .
qed

theorem vault_refines_map_witness:
  "vs_view sample (sample_run2, sample_filled) sample_name =
     spec_ops [Put sample_name sample_secret] [True] Map.empty sample_name"
  by (rule vault_refines_map [OF sample_laws sample_mem_ok sample_create sample_keys
      sample_names_apart]) (simp_all add: vs_put_def sample_store)

section \<open>Files\<close>

text \<open>C14: A saved vault can be loaded: after a successful \<open>save\<close> the path holds exactly the
  exported bytes with mode \<open>0600\<close>, and \<open>load\<close> with the password gives a vault with the same
  header, counters and entries in which every name reads as before, unless the subkeys cannot be
  locked in memory.\<close>

theorem save_then_load:
  assumes "ext_laws X" "vault_ok s v" "unlocked_by X password s v"
    and "save X io v s fs p = (Inr u, v', s', fs')" "mem_ok t"
  shows "(\<exists>out. tree fs' (resolve p) = Some \<lparr>contents = out, mode = 384, synced = True\<rparr>) \<and>
    (case load_vault X no_faults fs' p password t of
      (Inr w, t') \<Rightarrow> header w = header v \<and> files (index w) = files (index v) \<and>
        data_nonce_counter (index w) = data_nonce_counter (index v) \<and>
        nonce_counter (index w) = nonce_counter (index v') \<and>
        nonce (index w) = nonce (index v') \<and> vault_ok t' w \<and>
        unlocked_by X password t' w \<and> (\<forall>n. retrieve X w t' n = retrieve X v s n)
    | (Inl e, t') \<Rightarrow> (\<exists>m. e = from_index_error (LockedMemory m)) \<and>
        secret_bytes t' = secret_bytes t)"
proof (rule save_ok [OF assms(1,2,4)])
  fix out s1
  assume ex: "export X v s = (Inr out, v', s1)"
    and saved: "tree fs' (resolve p) = Some \<lparr>contents = out, mode = 384, synced = True\<rparr>"
    and load: "\<And>password t. load_vault X no_faults fs' p password t = open_vault X password out t"
  show ?thesis
    using export_reopens [OF assms(1-3) ex assms(5)] saved by (simp add: load)
qed

definition sample_fs :: file_system where
  "sample_fs = \<lparr>tree = Map.empty, on_disk = [Map.empty], history = []\<rparr>"

definition sample_path :: path where
  "sample_path = Path True [''home'', ''v.seal'']"

lemma sample_tmp_path:
  "resolve (save_tmp_path sample_path suffix) \<noteq> resolve sample_path"
  by (simp add: resolve_def save_tmp_path_def save_dir_def path_parent_def path_is_empty_def
      path_join_def sample_path_def)

lemma sample_save:
  "\<exists>v' s' fs'. save sample no_faults sample_filled sample_run2 sample_fs sample_path =
     (Inr (), v', s', fs')"
proof -
  obtain out v' s1 where ex: "export sample sample_filled sample_run2 = (Inr out, v', s1)"
    using sample_export by blast
  have "ext s1 = 7"
  proof -
    have "ext s1 = Suc (ext sample_run2)"
      using ex by (auto simp: export_def advance_nonce_def u64_checked_add_def toy_fill Let_def
          sample_counters const_defs sample_run2_def split: prod.splits sum.splits)
    then show ?thesis by (simp add: sample_run2_def)
  qed
  then have "secure_bytes_fill sample 8 s1 = (Inr (replicate 8 7), s1\<lparr>ext := 8\<rparr>)"
    by (simp add: toy_fill)
  with ex show ?thesis
    by (simp add: save_def replace_file_def fs_defs no_faults_def sample_fs_def Let_def)
qed

theorem save_then_load_witness:
  "\<exists>v' s' fs' out. save sample no_faults sample_filled sample_run2 sample_fs sample_path =
     (Inr (), v', s', fs') \<and>
     tree fs' (resolve sample_path) = Some \<lparr>contents = out, mode = 384, synced = True\<rparr>"
proof -
  obtain v' s' fs' where sv: "save sample no_faults sample_filled sample_run2 sample_fs sample_path =
      (Inr (), v', s', fs')" using sample_save by blast
  from save_then_load [OF sample_laws sample_filled_ok sample_filled_unlocked sv sample_mem_ok] sv
  show ?thesis by blast
qed

text \<open>C18: In a working environment without I/O failures \<open>save\<close> succeeds exactly when \<open>export\<close>
  does: the nonce counter is not exhausted and the file is at most 256 MiB long. What it saved
  can then be loaded with the password in any process, and every name reads as before. The name
  of the temporary file must be free.\<close>

theorem save_succeeds_iff:
  assumes "env_works X" "vault_ok s v" "unlocked_by X password s v"
    and "\<And>suffix. tree fs (resolve (save_tmp_path p suffix)) = None"
    and "mem_ok t" "finite (dom (heap t))"
  shows "((\<exists>v' s' fs'. save X no_faults v s fs p = (Inr (), v', s', fs')) \<longleftrightarrow>
      nonce_counter (index v) \<noteq> 2 ^ 64 - 1 \<and> export_size X v \<le> MAX_VAULT_FILE_SIZE) \<and>
    (\<forall>v' s' fs'. save X no_faults v s fs p = (Inr (), v', s', fs') \<longrightarrow>
      (\<exists>w t'. load_vault X no_faults fs' p password t = (Inr w, t') \<and>
         (\<forall>n. retrieve X w t' n = retrieve X v s n)))"
proof -
  have "unat (nonce_counter (index v)) + 1 < 2 ^ 64 \<and> export_size X v \<le> MAX_VAULT_FILE_SIZE"
    if "save X no_faults v s fs p = (Inr (), v', s', fs')" for v' s' fs'
    by (rule save_ok [OF env_worksD(1) [OF assms(1)] assms(2) that])
      (use export_works_iff [OF assms(1,2)] in blast)
  moreover have "\<exists>v' s' fs'. save X no_faults v s fs p = (Inr (), v', s', fs')"
    if "unat (nonce_counter (index v)) + 1 < 2 ^ 64 \<and> export_size X v \<le> MAX_VAULT_FILE_SIZE"
    using that by (elim conjE) (rule save_works [OF assms(1,2) _ _ assms(4)], auto)
  moreover have "\<exists>w t'. load_vault X no_faults fs' p password t = (Inr w, t') \<and>
      (\<forall>n. retrieve X w t' n = retrieve X v s n)"
    if "save X no_faults v s fs p = (Inr (), v', s', fs')" for v' s' fs'
    by (rule saved_loads [OF assms(1-3) that assms(5,6)]) auto
  ultimately show ?thesis by (simp only: counter_max) blast
qed

theorem save_succeeds_iff_witness:
  "\<exists>(v :: vault) s v' s' fs' w t'.
     save working no_faults v s sample_fs sample_path = (Inr (), v', s', fs') \<and>
     load_vault working no_faults fs' sample_path sample_password sample_sys = (Inr w, t')"
proof (rule working_vault)
  fix v and s :: "nat sys"
  assume v: "vault_ok s v" "unlocked_by working sample_password s v" "files (index v) = []"
    "nonce_counter (index v) = 0"
  have fresh: "tree sample_fs (resolve (save_tmp_path sample_path suffix)) = None" for suffix
    by (simp add: sample_fs_def)
  have "export_size working v \<le> MAX_VAULT_FILE_SIZE"
    by (simp add: export_size_def working_header_json [OF v(1)] encoded_total_def v(3) const_defs)
  with save_succeeds_iff [OF working_env v(1,2) fresh sample_mem_ok sample_heap_finite] v(4)
  show ?thesis by fastforce
qed

text \<open>C15: \<open>save\<close> replaces the file atomically: whichever calls fail, after every single file
  operation the path holds either what it held before or the complete export with mode
  \<open>0600\<close>, never a part of it. Files other than the path and its temporary file never
  change.\<close>

theorem save_is_atomic:
  assumes "save X io v s fs p = (r, v', s', fs')"
    and "\<And>suffix. resolve (save_tmp_path p suffix) \<noteq> resolve p"
    and "t \<in> set (trees_between fs fs')"
  shows "(t (resolve p) = tree fs (resolve p) \<or>
      (\<exists>out s1. export X v s = (Inr out, v', s1) \<and>
         t (resolve p) = Some \<lparr>contents = out, mode = 384, synced = True\<rparr>)) \<and>
    (\<forall>q. q \<noteq> resolve p \<longrightarrow> (\<forall>suffix. q \<noteq> resolve (save_tmp_path p suffix)) \<longrightarrow> t q = tree fs q)"
  using assms(1)
proof (cases rule: save_cases)
  case (early e)
  with assms(3) show ?thesis by (simp add: trees_between_def disks_between_def)
next
  case (written out s1 suffix)
  let ?tmp = "save_tmp_path p suffix"
  have neq: "resolve ?tmp \<noteq> resolve p" by (rule assms(2))
  have partial: ?thesis if "\<exists>x. t = (tree fs)(resolve ?tmp := x)"
    using that neq by auto
  from replace_file_trees [OF written(3) assms(3)] show ?thesis
  proof
    assume "t = (tree fs)(resolve ?tmp := None,
      resolve p \<mapsto> \<lparr>contents = out, mode = 384, synced = True\<rparr>)"
    with written(1) show ?thesis by auto
  qed (rule partial)
qed

theorem save_is_atomic_witness:
  "\<exists>v' s' fs' out. save sample no_faults sample_filled sample_run2 sample_fs sample_path =
     (Inr (), v', s', fs') \<and>
     (\<forall>t \<in> set (trees_between sample_fs fs'). t (resolve sample_path) = None \<or>
        t (resolve sample_path) = Some \<lparr>contents = out, mode = 384, synced = True\<rparr>)"
proof -
  obtain v' s' fs' where sv: "save sample no_faults sample_filled sample_run2 sample_fs sample_path =
      (Inr (), v', s', fs')" using sample_save by blast
  obtain out w s1 where ex: "export sample sample_filled sample_run2 = (Inr out, w, s1)"
    using sample_export by blast
  have "t (resolve sample_path) = None \<or>
      t (resolve sample_path) = Some \<lparr>contents = out, mode = 384, synced = True\<rparr>"
    if "t \<in> set (trees_between sample_fs fs')" for t
    using save_is_atomic [OF sv sample_tmp_path that] ex by (auto simp: sample_fs_def)
  with sv show ?thesis by blast
qed

text \<open>C17: A loss of power at any point of \<open>save\<close>, or later, finds at the path the file that was there
  before or the complete export, never a part of it, whatever calls fail and in whatever order the
  entries of the directory reach the disk: the contents are synced before the rename. Where \<open>save\<close>
  fails the old file is found, and where it succeeds and the directory could be synced the new one
  is found from then on, and loads as it does without the loss. The file that was there must have
  been on disk, as it is after a \<open>save\<close> whose directory was synced.\<close>

theorem save_survives_power_loss:
  assumes "save X io v s fs p = (r, v', s', fs')" "settled fs (resolve p)" "names_file p"
    and "\<And>suffix. resolve (save_tmp_path p suffix) \<noteq> resolve p"
  shows "(\<forall>ds \<in> set (disks_between fs fs'). \<forall>t. power_loss ds t \<longrightarrow>
      t (resolve p) = tree fs (resolve p) \<or>
      (\<exists>out s1. export X v s = (Inr out, v', s1) \<and>
         t (resolve p) = Some \<lparr>contents = out, mode = 384, synced = True\<rparr>)) \<and>
    (\<forall>e t. r = Inl e \<longrightarrow> power_loss (on_disk fs') t \<longrightarrow> t (resolve p) = tree fs (resolve p)) \<and>
    (\<forall>u. r = Inr u \<longrightarrow> open_dir_fault io = None \<longrightarrow> sync_dir_fault io = None \<longrightarrow>
      settled fs' (resolve p) \<and>
      (\<forall>t pw st. power_loss (on_disk fs') t \<longrightarrow>
         load_vault X no_faults (restarted t) p pw st = load_vault X no_faults fs' p pw st))"
proof (intro conjI)
  note after = save_versions [OF assms(1,3,4)]
  have old: "versions fs (resolve p) = {tree fs (resolve p)}"
    "\<forall>f. tree fs (resolve p) = Some f \<longrightarrow> synced f"
    using assms(2) by (simp_all add: settled_versions)
  have "t (resolve p) = tree fs (resolve p) \<or>
      (\<exists>out s1. export X v s = (Inr out, v', s1) \<and> t (resolve p) = Some (saved_file out))"
    if ds: "ds \<in> set (disks_between fs fs')" and "power_loss ds t" for ds t
  proof -
    have "\<forall>d \<in> set ds. \<forall>f. d (resolve p) = Some f \<longrightarrow> synced f"
      using after(1) [OF ds] old by (fastforce simp: saved_file_def)
    from power_loss_finds [OF that(2) this] after(1) [OF ds] old(1) show ?thesis by fastforce
  qed
  then show "\<forall>ds \<in> set (disks_between fs fs'). \<forall>t. power_loss ds t \<longrightarrow>
      t (resolve p) = tree fs (resolve p) \<or> (\<exists>out s1. export X v s = (Inr out, v', s1) \<and>
         t (resolve p) = Some \<lparr>contents = out, mode = 384, synced = True\<rparr>)"
    by (simp add: saved_file_def)
  note settled = save_settled [OF assms(1,3,4)]
  have "t (resolve p) = tree fs (resolve p)"
    if e: "r = Inl e" and "power_loss (on_disk fs') t" for e t
    using power_loss_settled [OF settled(1) [OF e assms(2)] that(2)] after(2) [OF e] by (simp only:)
  then show "\<forall>e t. r = Inl e \<longrightarrow> power_loss (on_disk fs') t \<longrightarrow> t (resolve p) = tree fs (resolve p)"
    by (intro allI impI)
  show "\<forall>u. r = Inr u \<longrightarrow> open_dir_fault io = None \<longrightarrow> sync_dir_fault io = None \<longrightarrow>
      settled fs' (resolve p) \<and> (\<forall>t pw st. power_loss (on_disk fs') t \<longrightarrow>
         load_vault X no_faults (restarted t) p pw st = load_vault X no_faults fs' p pw st)"
    by (intro allI impI conjI settled(2) load_restarted) (simp_all add: dir_synced_def)
qed

text \<open>The first \<open>save\<close> into an empty directory: nothing or the complete file is found.\<close>

theorem save_survives_power_loss_witness:
  "\<exists>v' s' fs' out. save sample no_faults sample_filled sample_run2 sample_fs sample_path =
     (Inr (), v', s', fs') \<and> disks_between sample_fs fs' \<noteq> [] \<and>
     (\<forall>ds \<in> set (disks_between sample_fs fs'). \<forall>t. power_loss ds t \<longrightarrow> t (resolve sample_path) = None \<or>
        t (resolve sample_path) = Some \<lparr>contents = out, mode = 384, synced = True\<rparr>) \<and>
     settled fs' (resolve sample_path)"
proof -
  obtain v' s' fs' where sv: "save sample no_faults sample_filled sample_run2 sample_fs sample_path =
      (Inr (), v', s', fs')" using sample_save by blast
  obtain out w s1 where ex: "export sample sample_filled sample_run2 = (Inr out, w, s1)"
    using sample_export by blast
  have start: "settled sample_fs (resolve sample_path)" "names_file sample_path"
    by (simp_all add: settled_def sample_fs_def names_file_def sample_path_def)
  have "disks_between sample_fs fs' \<noteq> []"
    using sv
  proof (cases rule: save_cases)
    case (written out s1 suffix)
    from written(3) show ?thesis by (cases rule: replace_file_cases) simp_all
  qed simp
  with save_survives_power_loss [OF sv start sample_tmp_path] sv ex show ?thesis
    by (fastforce simp: sample_fs_def no_faults_def)
qed

text \<open>C16: The file of a vault is never lost and never torn. Take any history of \<open>save\<close> calls for a path,
  of any vaults, with any failures, in which the process may be killed and power may be lost at any
  point, also before the directory was synced: the path holds what the last completed call left,
  and what it holds, now or after a further loss of power, is the file the history began with or
  all the bytes of one \<open>export\<close>, with mode \<open>0600\<close>.\<close>

theorem file_never_torn:
  assumes "save_history X p x fs y E" "names_file p"
    and "\<And>suffix. resolve (save_tmp_path p suffix) \<noteq> resolve p"
  shows "tree fs (resolve p) = y \<and>
    (y = x \<or> (\<exists>out \<in> E. y = Some \<lparr>contents = out, mode = 384, synced = True\<rparr>)) \<and>
    (\<forall>t. power_loss (on_disk fs) t \<longrightarrow> t (resolve p) = x \<or>
      (\<exists>out \<in> E. t (resolve p) = Some \<lparr>contents = out, mode = 384, synced = True\<rparr>)) \<and>
    (\<forall>out \<in> E. \<exists>v s v' s'. export X v s = (Inr out, v', s'))"
proof -
  note inv = save_history_versions [OF assms]
  have whole: "z \<in> whole x E \<longleftrightarrow>
      z = x \<or> (\<exists>out \<in> E. z = Some \<lparr>contents = out, mode = 384, synced = True\<rparr>)" for z
    by (auto simp: whole_def saved_file_def)
  have disk: "\<forall>d \<in> set (on_disk fs). d (resolve p) \<in> whole x E" and y: "y \<in> whole x E"
    using inv by (auto simp: versions_def)
  have "t (resolve p) \<in> whole x E" if "power_loss (on_disk fs) t" for t
    by (rule power_loss_whole [OF _ disk that]) (use inv in blast)
  with inv y save_history_exports [OF assms(1)] show ?thesis unfolding whole by (intro conjI) simp_all
qed

text \<open>A vault is saved, and power is lost before the next call.\<close>

theorem file_never_torn_witness:
  "\<exists>fs out. save_history sample sample_path None fs (Some (saved_file out)) {out} \<and>
     (\<forall>t. power_loss (on_disk fs) t \<longrightarrow> t (resolve sample_path) = None \<or>
        t (resolve sample_path) = Some \<lparr>contents = out, mode = 384, synced = True\<rparr>)"
proof -
  obtain v' s' fs' where sv: "save sample no_faults sample_filled sample_run2 sample_fs sample_path =
      (Inr (), v', s', fs')" using sample_save by blast
  then obtain out s1 where ex: "export sample sample_filled sample_run2 = (Inr out, v', s1)"
    by (cases rule: save_cases) auto
  have "save_history sample sample_path None sample_fs None {}"
    by (rule save_history.Start) (simp_all add: settled_def sample_fs_def)
  from save_history.Saved [OF this sv ex]
  have h: "save_history sample sample_path None fs' (Some (saved_file out)) {out}" by simp
  have "names_file sample_path" by (simp add: names_file_def sample_path_def)
  from file_never_torn [OF h this sample_tmp_path] h show ?thesis by blast
qed

text \<open>C33: A failing \<open>save\<close> leaves no trace: the entries, the keys and the header of the vault
  are unchanged, and as long as the temporary file can be removed every file is as before, so no
  partial temporary file stays behind.\<close>

theorem save_failure_restores:
  assumes "save X io v s fs p = (Inl e, v', s', fs')" "remove_fault io = None"
  shows "tree fs' = tree fs \<and> files (index v') = files (index v) \<and> header v' = header v \<and>
    enc_key (index v') = enc_key (index v) \<and> hmac_key (index v') = hmac_key (index v)"
proof -
  have "tree fs' = tree fs"
    using assms(1)
  proof (cases rule: save_cases)
    case (written out s1 suffix)
    from written(3) assms(2) show ?thesis by (cases rule: replace_file_cases) simp_all
  qed simp
  moreover obtain a s1 where ex: "export X v s = (a, v', s1)"
    using assms(1) by (auto simp: save_def split: prod.splits sum.splits)
  ultimately show ?thesis using export_effect(1,2,4,5) [OF ex] by simp
qed

theorem save_failure_restores_witness:
  "\<exists>e v' s' fs'. save sample (no_faults\<lparr>write_fault := Some (10, ''No space left on device'')\<rparr>)
       sample_filled sample_run2 sample_fs sample_path = (Inl e, v', s', fs') \<and>
     tree fs' = tree sample_fs \<and> files (index v') = files (index sample_filled)"
proof -
  let ?io = "no_faults\<lparr>write_fault := Some (10, ''No space left on device'')\<rparr>"
  obtain r v' s' fs' where sv: "save sample ?io sample_filled sample_run2 sample_fs sample_path =
      (r, v', s', fs')"
    by (cases "save sample ?io sample_filled sample_run2 sample_fs sample_path") auto
  have "\<exists>e. r = Inl e"
    using sv
  proof (cases rule: save_cases)
    case (written out s1 suffix)
    from written(3) show ?thesis by (cases rule: replace_file_cases) auto
  qed simp
  then obtain e where "r = Inl e" by blast
  with sv save_failure_restores [of sample ?io sample_filled sample_run2 sample_fs sample_path e v' s' fs']
  show ?thesis by (simp add: no_faults_def)
qed

end
